(* ===== verification/Prelude.thy ===== *)
theory Prelude
  imports Complex_Main "HOL-Library.Word" "HOL-Library.Stream"
begin

text \<open>
  Shared vocabulary of the development: the Rust result type with its panics, byte strings,
  the machine integers of the source, the sources of nondeterminism the service reads (wall
  clock, UUIDs, operating system randomness) as streams, and the third-party primitives
  (hex, base64, SHA-256, HMAC, Ed25519) as parameters with their documented laws.
\<close>

section \<open>Named collections\<close>

named_theorems result_simps \<open>unfolding rules for the result combinators\<close>
named_theorems crate_laws \<open>laws of third-party primitives\<close>

section \<open>Rust results\<close>

text \<open>
  \<open>Result<T, E>\<close> with a third outcome for a panic (\<open>unwrap\<close>, \<open>expect\<close>, \<open>assert!\<close>), so that
  every way a source function can end is a value of the model.
\<close>

datatype ('a, 'e) result = Ok 'a | Err 'e | Panic

text \<open>The \<open>?\<close> operator: an error or a panic ends the enclosing function.\<close>

fun and_then :: "('a, 'e) result \<Rightarrow> ('a \<Rightarrow> ('b, 'e) result) \<Rightarrow> ('b, 'e) result" where
  "and_then (Ok x) f = f x"
| "and_then (Err e) f = Err e"
| "and_then Panic f = Panic"

fun ok_or :: "'a option \<Rightarrow> 'e \<Rightarrow> ('a, 'e) result" where
  "ok_or (Some x) e = Ok x"
| "ok_or None e = Err e"

fun map_err :: "('e \<Rightarrow> 'f) \<Rightarrow> ('a, 'e) result \<Rightarrow> ('a, 'f) result" where
  "map_err g (Ok x) = Ok x"
| "map_err g (Err e) = Err (g e)"
| "map_err g Panic = Panic"

fun is_ok :: "('a, 'e) result \<Rightarrow> bool" where
  "is_ok (Ok x) = True"
| "is_ok (Err e) = False"
| "is_ok Panic = False"

lemma is_ok_iff: "is_ok r \<longleftrightarrow> (\<exists>x. r = Ok x)"
  by (cases r) auto

lemma and_then_eq_Ok [result_simps]:
  "and_then r f = Ok y \<longleftrightarrow> (\<exists>x. r = Ok x \<and> f x = Ok y)"
  by (cases r) auto

lemma and_then_eq_Err [result_simps]:
  "and_then r f = Err e \<longleftrightarrow> r = Err e \<or> (\<exists>x. r = Ok x \<and> f x = Err e)"
  by (cases r) auto

lemma and_then_eq_Panic [result_simps]:
  "and_then r f = Panic \<longleftrightarrow> r = Panic \<or> (\<exists>x. r = Ok x \<and> f x = Panic)"
  by (cases r) auto

lemma ok_or_eq_Ok [result_simps]: "ok_or v e = Ok x \<longleftrightarrow> v = Some x"
  by (cases v) auto

lemma ok_or_eq_Err [result_simps]: "ok_or v e = Err e' \<longleftrightarrow> v = None \<and> e' = e"
  by (cases v) auto

lemma ok_or_not_Panic [simp]: "ok_or v e \<noteq> Panic"
  by (cases v) auto

lemma map_err_eq_Ok [result_simps]: "map_err g r = Ok x \<longleftrightarrow> r = Ok x"
  by (cases r) auto

lemma map_err_eq_Err [result_simps]: "map_err g r = Err e \<longleftrightarrow> (\<exists>e'. r = Err e' \<and> e = g e')"
  by (cases r) auto

lemma map_err_eq_Panic [result_simps]: "map_err g r = Panic \<longleftrightarrow> r = Panic"
  by (cases r) auto

text \<open>
  A call of a function that has no error value but may panic (its error type is \<open>unit\<close> and unused).
\<close>

fun lift_panic :: "('a, unit) result \<Rightarrow> ('a, 'e) result" where
  "lift_panic (Ok x) = Ok x"
| "lift_panic (Err u) = Panic"
| "lift_panic Panic = Panic"

lemma lift_panic_eq_Ok [result_simps]: "lift_panic r = Ok x \<longleftrightarrow> r = Ok x"
  by (cases r) auto

lemma lift_panic_not_Err [simp]: "lift_panic r \<noteq> Err e"
  by (cases r) auto

section \<open>Machine integers, bytes and text\<close>

type_synonym u8 = "8 word"
type_synonym u16 = "16 word"
type_synonym u32 = "32 word"
type_synonym u64 = "64 word"
type_synonym i32 = "32 word"
type_synonym bytes = "u8 list"

text \<open>The bytes of a Rust string (\<open>str::as_bytes\<close>); a model string is its list of bytes.\<close>

definition as_bytes :: "string \<Rightarrow> bytes" where
  "as_bytes s = map of_char s"

lemma of_char_nat_less: "(of_char c :: nat) < 256"
proof -
  have "(of_char c :: nat) = of_char c mod 256" by simp
  thus ?thesis by (metis mod_less_divisor zero_less_numeral)
qed

lemma of_char_u8_eq: "(of_char c :: u8) = of_char d \<longleftrightarrow> c = d"
proof
  assume "(of_char c :: u8) = of_char d"
  hence "unat (of_nat (of_char c) :: u8) = unat (of_nat (of_char d) :: u8)"
    by (simp add: of_nat_of_char)
  hence "(of_char c :: nat) = of_char d"
    using of_char_nat_less[of c] of_char_nat_less[of d]
    by (simp add: unat_of_nat)
  thus "c = d" by simp
qed simp

lemma as_bytes_eq [simp]: "as_bytes s = as_bytes s' \<longleftrightarrow> s = s'"
  by (simp add: as_bytes_def inj_map_eq_map inj_def of_char_u8_eq)

lemma length_as_bytes [simp]: "length (as_bytes s) = length s"
  by (simp add: as_bytes_def)

lemma as_bytes_append [simp]: "as_bytes (s @ s') = as_bytes s @ as_bytes s'"
  by (simp add: as_bytes_def)

text \<open>Decimal rendering of an unsigned integer (\<open>Display\<close>).\<close>

fun show_nat :: "nat \<Rightarrow> string" where
  "show_nat n = (if n < 10 then [char_of (48 + n)]
                 else show_nat (n div 10) @ [char_of (48 + n mod 10)])"

declare show_nat.simps [simp del]

text \<open>\<open>str::split_once\<close>: the text before and after the first occurrence of a separator.\<close>

fun split_once :: "char \<Rightarrow> string \<Rightarrow> (string \<times> string) option" where
  "split_once d [] = None"
| "split_once d (c # cs) =
     (if c = d then Some ([], cs)
      else map_option (\<lambda>(a, b). (c # a, b)) (split_once d cs))"

lemma split_once_append [simp]:
  "d \<notin> set a \<Longrightarrow> split_once d (a @ d # b) = Some (a, b)"
  by (induction a) auto

lemma split_once_None: "split_once d s = None \<longleftrightarrow> d \<notin> set s"
  by (induction s) auto

lemma split_once_SomeD: "split_once d s = Some (a, b) \<Longrightarrow> s = a @ d # b \<and> d \<notin> set a"
  by (induction s arbitrary: a b) (auto split: if_splits)

lemma split_once_iff: "split_once d s = Some (a, b) \<longleftrightarrow> s = a @ d # b \<and> d \<notin> set a"
  using split_once_SomeD[of d s a b] by auto

text \<open>\<open>str::strip_prefix\<close> and \<open>str::trim_end_matches\<close> with one character.\<close>

fun strip_prefix :: "string \<Rightarrow> string \<Rightarrow> string option" where
  "strip_prefix [] s = Some s"
| "strip_prefix (p # ps) [] = None"
| "strip_prefix (p # ps) (c # cs) = (if p = c then strip_prefix ps cs else None)"

definition trim_end_matches :: "char \<Rightarrow> string \<Rightarrow> string" where
  "trim_end_matches d s = rev (dropWhile (\<lambda>c. c = d) (rev s))"

lemma strip_prefix_append [simp]: "strip_prefix p (p @ s) = Some s"
  by (induction p) auto

lemma strip_prefix_SomeD: "strip_prefix p s = Some r \<Longrightarrow> s = p @ r"
  by (induction p s rule: strip_prefix.induct) (auto split: if_splits)

lemma trim_end_matches_no_trailing:
  "trim_end_matches d s = [] \<or> last (trim_end_matches d s) \<noteq> d"
proof (cases "dropWhile (\<lambda>c. c = d) (rev s)")
  case (Cons a as)
  hence "a \<noteq> d" using hd_dropWhile[of "\<lambda>c. c = d" "rev s"] by auto
  thus ?thesis by (simp add: trim_end_matches_def Cons)
qed (simp add: trim_end_matches_def)

section \<open>What the process reads from outside: clock and UUIDs\<close>

text \<open>
  \<open>SystemTime::now\<close> and \<open>Uuid::new_v4\<close> return a new value at every call. The world holds the
  values to come, and each call consumes one.
\<close>

record world =
  clock :: "u64 option stream"
  uuids :: "string stream"

text \<open>
  A clock reading is \<open>None\<close> when the system time lies before the Unix epoch
  (\<open>duration_since\<close> fails), otherwise the seconds since the epoch.
\<close>

definition read_clock :: "world \<Rightarrow> u64 option \<times> world" where
  "read_clock w = (shd (clock w), w\<lparr>clock := stl (clock w)\<rparr>)"

definition new_v4 :: "world \<Rightarrow> string \<times> world" where
  "new_v4 w = (shd (uuids w), w\<lparr>uuids := stl (uuids w)\<rparr>)"

section \<open>Third-party primitives\<close>

text \<open>
  The functions of the crates hex, base64, sha2, hmac and ed25519-dalek the service calls. A
  verifying key is represented by its 32-byte encoding, a signing key by its 32-byte seed.
\<close>

record crates =
  hex_encode :: "bytes \<Rightarrow> string"
  hex_decode :: "string \<Rightarrow> bytes option"
  b64_encode :: "bytes \<Rightarrow> string"
  b64_decode :: "string \<Rightarrow> bytes option"
  sha256 :: "bytes \<Rightarrow> bytes"
  hmac_sha256 :: "bytes \<Rightarrow> bytes \<Rightarrow> bytes"
  vk_valid :: "bytes \<Rightarrow> bool"
  ed_public :: "bytes \<Rightarrow> bytes"
  ed_sign :: "bytes \<Rightarrow> bytes \<Rightarrow> bytes"
  ed_verify :: "bytes \<Rightarrow> bytes \<Rightarrow> bytes \<Rightarrow> bool"
  ed_verify_strict :: "bytes \<Rightarrow> bytes \<Rightarrow> bytes \<Rightarrow> bool"

text \<open>Documented behaviour of the crates, as named hypotheses.\<close>

definition hex_laws :: "crates \<Rightarrow> bool" where
  "hex_laws X \<longleftrightarrow> (\<forall>b. hex_decode X (hex_encode X b) = Some b)"

definition b64_laws :: "crates \<Rightarrow> bool" where
  "b64_laws X \<longleftrightarrow>
     (\<forall>b. b64_decode X (b64_encode X b) = Some b \<and> CHR ''.'' \<notin> set (b64_encode X b))"

definition ed25519_laws :: "crates \<Rightarrow> bool" where
  "ed25519_laws X \<longleftrightarrow>
     (\<forall>seed. length seed = 32 \<longrightarrow>
        length (ed_public X seed) = 32 \<and> vk_valid X (ed_public X seed) \<and>
        (\<forall>m. length (ed_sign X seed m) = 64 \<and>
             ed_verify X (ed_public X seed) m (ed_sign X seed m)))"

definition hmac_laws :: "crates \<Rightarrow> bool" where
  "hmac_laws X \<longleftrightarrow> (\<forall>k m. length (hmac_sha256 X k m) = 32)"

lemma hex_roundtrip [crate_laws]: "hex_laws X \<Longrightarrow> hex_decode X (hex_encode X b) = Some b"
  by (simp add: hex_laws_def)

lemma b64_roundtrip [crate_laws]: "b64_laws X \<Longrightarrow> b64_decode X (b64_encode X b) = Some b"
  by (simp add: b64_laws_def)

lemma b64_no_dot [crate_laws]: "b64_laws X \<Longrightarrow> CHR ''.'' \<notin> set (b64_encode X b)"
  by (simp add: b64_laws_def)

lemma ed25519_sign_verify [crate_laws]:
  assumes "ed25519_laws X" and "length seed = 32"
  shows "length (ed_public X seed) = 32" and "vk_valid X (ed_public X seed)"
    and "length (ed_sign X seed m) = 64"
    and "ed_verify X (ed_public X seed) m (ed_sign X seed m)"
  using assms by (auto simp: ed25519_laws_def)

lemma hmac_length [crate_laws]: "hmac_laws X \<Longrightarrow> length (hmac_sha256 X k m) = 32"
  by (simp add: hmac_laws_def)

text \<open>
  \<open>serde_json::to_vec\<close> and \<open>serde_json::from_slice\<close> at one type of the source.
\<close>

record 'a serde =
  to_vec :: "'a \<Rightarrow> bytes"
  from_slice :: "bytes \<Rightarrow> 'a option"
  de_error :: "bytes \<Rightarrow> string" \<comment> \<open>the text of the error \<open>from_slice\<close> reports\<close>

section \<open>gRPC status values\<close>

datatype Code =
    Code_Cancelled | Code_Unknown | Code_InvalidArgument | Code_DeadlineExceeded | Code_NotFound
  | Code_AlreadyExists | Code_PermissionDenied | Code_ResourceExhausted | Code_FailedPrecondition
  | Code_Aborted | Code_OutOfRange | Code_Unimplemented | Code_Internal | Code_Unavailable
  | Code_DataLoss | Code_Unauthenticated

record Status =
  st_code :: Code
  st_message :: string

definition status_new :: "Code \<Rightarrow> string \<Rightarrow> Status" where
  "status_new c m = \<lparr>st_code = c, st_message = m\<rparr>"

lemma status_new_sel [simp]: "st_code (status_new c m) = c" "st_message (status_new c m) = m"
  by (simp_all add: status_new_def)

section \<open>A concrete instance of the primitives\<close>

text \<open>
  A deterministic instance that satisfies every law above, on which witnesses evaluate. It is a
  stand-in with the crates' interfaces, not their algorithms: two letters per byte for the text
  encodings, padding for the hash functions, and a signature that is the padded message.
\<close>

definition demo_encode :: "bytes \<Rightarrow> string" where
  "demo_encode b = concat (map (\<lambda>x. [char_of (65 + unat x div 16), char_of (65 + unat x mod 16)]) b)"

fun demo_decode :: "string \<Rightarrow> bytes option" where
  "demo_decode [] = Some []"
| "demo_decode [c] = None"
| "demo_decode (c # d # cs) =
     (let h = of_char c - (65 :: nat); l = of_char d - 65
      in if (of_char c :: nat) < 65 \<or> (of_char d :: nat) < 65 \<or> 16 \<le> h \<or> 16 \<le> l then None
         else map_option (\<lambda>bs. of_nat (16 * h + l) # bs) (demo_decode cs))"

definition pad_to :: "nat \<Rightarrow> bytes \<Rightarrow> bytes" where
  "pad_to n b = take n (b @ replicate n 0)"

lemma length_pad_to [simp]: "length (pad_to n b) = n"
  by (simp add: pad_to_def)

definition demo_crates :: crates where
  "demo_crates = \<lparr>hex_encode = demo_encode, hex_decode = demo_decode,
     b64_encode = demo_encode, b64_decode = demo_decode,
     sha256 = (\<lambda>b. b), hmac_sha256 = (\<lambda>k m. pad_to 32 (m @ k)),
     vk_valid = (\<lambda>b. length b = 32), ed_public = (\<lambda>s. s), ed_sign = (\<lambda>s m. pad_to 64 m),
     ed_verify = (\<lambda>k m g. g = pad_to 64 m), ed_verify_strict = (\<lambda>k m g. g = pad_to 64 m)\<rparr>"

lemma unat_u8_less: "unat (x :: u8) < 256"
proof -
  have "unat x < 2 ^ LENGTH(8)" by (rule unsigned_less)
  thus ?thesis by simp
qed

lemma demo_roundtrip: "demo_decode (demo_encode b) = Some b"
proof (induction b)
  case (Cons x b)
  have x: "unat x < 256" by (rule unat_u8_less)
  hence h: "(65 + unat x div 16) mod 256 = 65 + unat x div 16"
    and l: "(65 + unat x mod 16) mod 256 = 65 + unat x mod 16"
    by (auto intro!: mod_less)
  have "of_nat (16 * (unat x div 16) + unat x mod 16) = x"
    by (simp add: mult_div_mod_eq)
  moreover have "unat x div 16 < 16" using x by (simp add: div_less_iff_less_mult)
  ultimately show ?case
    using Cons.IH h l by (simp add: demo_encode_def Let_def)
qed (simp add: demo_encode_def)

lemma demo_encode_no_dot: "CHR ''.'' \<notin> set (demo_encode b)"
proof (induction b)
  case (Cons x b)
  have "unat x < 256" by (rule unat_u8_less)
  hence "65 \<le> (65 + unat x div 16) mod 256" and "65 \<le> (65 + unat x mod 16) mod 256"
    by (simp_all add: div_less_iff_less_mult)
  hence "(of_char (char_of (65 + unat x div 16)) :: nat) \<noteq> of_char CHR ''.''"
    and "(of_char (char_of (65 + unat x mod 16)) :: nat) \<noteq> of_char CHR ''.''"
    by auto
  hence "char_of (65 + unat x div 16) \<noteq> CHR ''.''" and "char_of (65 + unat x mod 16) \<noteq> CHR ''.''"
    by metis+
  with Cons.IH show ?case by (auto simp: demo_encode_def)
qed (simp add: demo_encode_def)

lemma demo_hex [simp]: "hex_laws demo_crates"
  by (simp add: hex_laws_def demo_crates_def demo_roundtrip)

lemma demo_b64 [simp]: "b64_laws demo_crates"
  by (simp add: b64_laws_def demo_crates_def demo_roundtrip demo_encode_no_dot)

lemma demo_ed25519 [simp]: "ed25519_laws demo_crates"
  by (simp add: ed25519_laws_def demo_crates_def)

lemma demo_hmac [simp]: "hmac_laws demo_crates"
  by (simp add: hmac_laws_def demo_crates_def)

end
