(* ===== verification/Domain.thy ===== *)
theory Domain
  imports Prelude
begin

text \<open>
  \<open>src/domain.rs\<close>: chain families and their signature schemes, identifiers, the life cycle of
  sessions and key shares, session and key metadata records, the clock and the payload hash.
\<close>

section \<open>Chains and signature schemes\<close>

datatype Chain = Evm | Solana | Aptos | Sui | Bitcoin

datatype SignatureScheme = EcdsaSecp256k1 | Ed25519Scheme

fun scheme :: "Chain \<Rightarrow> SignatureScheme" where
  "scheme Evm = EcdsaSecp256k1"
| "scheme Bitcoin = EcdsaSecp256k1"
| "scheme Solana = Ed25519Scheme"
| "scheme Aptos = Ed25519Scheme"
| "scheme Sui = Ed25519Scheme"

definition chain_from_proto :: "int \<Rightarrow> Chain option" where
  "chain_from_proto v =
     (if v = 1 then Some Evm else if v = 2 then Some Solana else if v = 3 then Some Aptos
      else if v = 4 then Some Sui else if v = 5 then Some Bitcoin else None)"

fun chain_as_str :: "Chain \<Rightarrow> string" where
  "chain_as_str Evm = ''evm''"
| "chain_as_str Solana = ''solana''"
| "chain_as_str Aptos = ''aptos''"
| "chain_as_str Sui = ''sui''"
| "chain_as_str Bitcoin = ''bitcoin''"

section \<open>Identifiers, life cycles and records\<close>

type_synonym KeyId = string
type_synonym NodeId = string
type_synonym SigningSessionId = string

definition new_session_id :: "world \<Rightarrow> SigningSessionId \<times> world" where
  "new_session_id w = new_v4 w"

datatype SessionStatus = Pending | Denied | Signing | Signed | Failed

datatype KeyShareStatus = Active | Cooling | Retired

record KeyShare =
  ksh_key_id :: KeyId
  ksh_node_id :: NodeId
  ksh_chain :: Chain
  ksh_epoch :: u64
  ksh_status :: KeyShareStatus

record SigningSession =
  ss_id :: SigningSessionId
  ss_key_id :: KeyId
  ss_chain :: Chain
  ss_request_hash :: string
  ss_status :: SessionStatus
  ss_denial_reason :: "string option"
  ss_created_at_unix :: u64

record KeyMetadata =
  km_key_id :: KeyId
  km_chain :: Chain
  km_public_key :: bytes
  km_status :: KeyShareStatus
  km_epoch :: u64

section \<open>Clock and payload hash\<close>

definition unix_now :: "world \<Rightarrow> u64 \<times> world" where
  "unix_now w = (case read_clock w of (t, w') \<Rightarrow> (case t of Some s \<Rightarrow> s | None \<Rightarrow> 0, w'))"

definition sha256_hex :: "crates \<Rightarrow> bytes \<Rightarrow> string" where
  "sha256_hex X data = hex_encode X (sha256 X data)"

section \<open>Properties\<close>

lemma chain_from_proto_SomeD:
  "chain_from_proto v = Some c \<Longrightarrow> v \<in> {1, 2, 3, 4, 5}"
  by (auto simp: chain_from_proto_def split: if_splits)

lemma chain_as_str_inj: "chain_as_str c = chain_as_str d \<longleftrightarrow> c = d"
  by (cases c; cases d) auto

lemma unix_now_simps [simp]:
  "fst (unix_now w) = (case shd (clock w) of Some s \<Rightarrow> s | None \<Rightarrow> 0)"
  "snd (unix_now w) = w\<lparr>clock := stl (clock w)\<rparr>"
  by (simp_all add: unix_now_def read_clock_def)

lemma new_v4_simps [simp]:
  "fst (new_v4 w) = shd (uuids w)"
  "snd (new_v4 w) = w\<lparr>uuids := stl (uuids w)\<rparr>"
  by (simp_all add: new_v4_def)

lemma unix_now_eq:
  "unix_now w = (case shd (clock w) of Some s \<Rightarrow> s | None \<Rightarrow> 0, w\<lparr>clock := stl (clock w)\<rparr>)"
  by (simp add: unix_now_def read_clock_def)

lemma sha256_hex_eq_iff:
  assumes "hex_laws X"
  shows "sha256_hex X a = sha256_hex X b \<longleftrightarrow> sha256 X a = sha256 X b"
proof
  assume "sha256_hex X a = sha256_hex X b"
  hence "hex_decode X (hex_encode X (sha256 X a)) = hex_decode X (hex_encode X (sha256 X b))"
    by (simp add: sha256_hex_def)
  thus "sha256 X a = sha256 X b" using assms by (simp add: crate_laws)
qed (simp add: sha256_hex_def)

end
