(* ===== verification/Stores.thy ===== *)
theory Stores
  imports Domain
begin

text \<open>
  \<open>src/store.rs\<close>: the session store and the used-token store. The traits
  \<open>SigningSessionStore\<close> and \<open>UsedTokenStore\<close> are the locales \<open>session_store\<close> and
  \<open>used_token_store\<close>; the in-memory implementations are maps and interpret them. Each method
  takes its lock once, so a call is one atomic step on the map.
\<close>

section \<open>Session store\<close>

type_synonym SessionStore = "string \<Rightarrow> SigningSession option"

definition session_store_new :: SessionStore where
  "session_store_new = Map.empty"

definition session_insert :: "SessionStore \<Rightarrow> SigningSession \<Rightarrow> SessionStore" where
  "session_insert m s = m(ss_id s \<mapsto> s)"

definition session_get :: "SessionStore \<Rightarrow> SigningSessionId \<Rightarrow> SigningSession option" where
  "session_get m i = m i"

definition session_update_status ::
  "SessionStore \<Rightarrow> SigningSessionId \<Rightarrow> SessionStatus \<Rightarrow> string option \<Rightarrow> SessionStore" where
  "session_update_status m i st denial =
     (case m i of
        Some s \<Rightarrow> m(i \<mapsto> s\<lparr>ss_status := st, ss_denial_reason := denial\<rparr>)
      | None \<Rightarrow> m)"

definition session_len :: "SessionStore \<Rightarrow> nat" where
  "session_len m = card (dom m)"

definition session_is_empty :: "SessionStore \<Rightarrow> bool" where
  "session_is_empty m \<longleftrightarrow> session_len m = 0"

text \<open>What every session store promises its clients.\<close>

locale session_store =
  fixes empty :: "'m"
    and ins :: "'m \<Rightarrow> SigningSession \<Rightarrow> 'm"
    and get :: "'m \<Rightarrow> SigningSessionId \<Rightarrow> SigningSession option"
    and upd :: "'m \<Rightarrow> SigningSessionId \<Rightarrow> SessionStatus \<Rightarrow> string option \<Rightarrow> 'm"
    and len :: "'m \<Rightarrow> nat"
    and inv :: "'m \<Rightarrow> bool"
  assumes get_empty: "get empty i = None"
    and get_ins: "get (ins m s) i = (if i = ss_id s then Some s else get m i)"
    and get_upd: "get (upd m i st d) j =
          (if j = i then map_option (\<lambda>s. s\<lparr>ss_status := st, ss_denial_reason := d\<rparr>) (get m i)
           else get m j)"
    and len_empty: "len empty = 0"
    and len_ins: "inv m \<Longrightarrow>
          len (ins m s) = (if get m (ss_id s) = None then Suc (len m) else len m)"
    and len_upd: "inv m \<Longrightarrow> len (upd m i st d) = len m"
    and inv_empty: "inv empty"
    and inv_ins: "inv m \<Longrightarrow> inv (ins m s)"
    and inv_upd: "inv m \<Longrightarrow> inv (upd m i st d)"
begin

lemma get_upd_same:
  "get m i = Some s \<Longrightarrow> get (upd m i st d) i = Some (s\<lparr>ss_status := st, ss_denial_reason := d\<rparr>)"
  by (simp add: get_upd)

lemma get_upd_other: "j \<noteq> i \<Longrightarrow> get (upd m i st d) j = get m j"
  by (simp add: get_upd)

lemma upd_missing: "get m i = None \<Longrightarrow> get (upd m i st d) j = get m j"
  by (simp add: get_upd)

text \<open>A session keeps its identity fields through every status update.\<close>

lemma upd_keeps_identity:
  assumes "get (upd m i st d) j = Some s'"
  shows "\<exists>s. get m j = Some s \<and> ss_id s' = ss_id s \<and> ss_key_id s' = ss_key_id s \<and>
             ss_chain s' = ss_chain s \<and> ss_request_hash s' = ss_request_hash s"
  using assms by (auto simp: get_upd split: if_splits)

lemma ins_upd_upd:
  "get (upd (upd (ins m s) (ss_id s) st1 d1) (ss_id s) st2 d2) j =
     (if j = ss_id s then Some (s\<lparr>ss_status := st2, ss_denial_reason := d2\<rparr>) else get m j)"
  by (simp add: get_upd get_ins)

lemma ins_upd:
  "get (upd (ins m s) (ss_id s) st d) j =
     (if j = ss_id s then Some (s\<lparr>ss_status := st, ss_denial_reason := d\<rparr>) else get m j)"
  by (simp add: get_upd get_ins)

end

interpretation inmem_sessions: session_store
  session_store_new session_insert session_get session_update_status session_len
  "\<lambda>m. finite (dom m)"
proof unfold_locales
  fix m :: SessionStore and s i st d
  assume fin: "finite (dom m)"
  show "session_len (session_insert m s) =
      (if session_get m (ss_id s) = None then Suc (session_len m) else session_len m)"
    using fin by (auto simp: session_len_def session_insert_def session_get_def insert_absorb domIff)
  show "session_len (session_update_status m i st d) = session_len m"
    using fin by (auto simp: session_len_def session_update_status_def insert_absorb domIff
        split: option.splits)
  show "finite (dom (session_insert m s))"
    using fin by (simp add: session_insert_def)
  show "finite (dom (session_update_status m i st d))"
    using fin by (simp add: session_update_status_def split: option.splits)
qed (auto simp: session_store_new_def session_get_def session_insert_def session_len_def
    session_update_status_def split: option.splits)

section \<open>Used-token store\<close>

type_synonym TokenStore = "string \<Rightarrow> u64 option"

definition token_store_new :: TokenStore where
  "token_store_new = Map.empty"

definition try_use :: "TokenStore \<Rightarrow> string \<Rightarrow> u64 \<Rightarrow> bool \<times> TokenStore" where
  "try_use used token_id expires_at =
     (if used token_id \<noteq> None then (False, used)
      else (True, used(token_id \<mapsto> expires_at)))"

definition prune :: "TokenStore \<Rightarrow> u64 \<Rightarrow> TokenStore" where
  "prune used now =
     (\<lambda>k. case used k of Some ex \<Rightarrow> if now < ex then Some ex else None | None \<Rightarrow> None)"

text \<open>
  The contract of a single-use store: a call succeeds exactly when the token is not spent yet,
  and spends it.
\<close>

locale used_token_store =
  fixes use :: "'u \<Rightarrow> string \<Rightarrow> u64 \<Rightarrow> bool \<times> 'u"
    and spent :: "'u \<Rightarrow> string \<Rightarrow> bool"
  assumes use_ok: "fst (use u k e) \<longleftrightarrow> \<not> spent u k"
    and use_spends: "spent (snd (use u k e)) k' \<longleftrightarrow> k' = k \<or> spent u k'"
begin

text \<open>The outcomes of any sequence of calls, in the order their locks were taken.\<close>

fun run :: "'u \<Rightarrow> (string \<times> u64) list \<Rightarrow> bool list" where
  "run u [] = []"
| "run u ((k, e) # cs) = (case use u k e of (b, u') \<Rightarrow> b # run u' cs)"

definition wins :: "'u \<Rightarrow> (string \<times> u64) list \<Rightarrow> string \<Rightarrow> nat" where
  "wins u cs k = length (filter (\<lambda>(c, b). fst c = k \<and> b) (zip cs (run u cs)))"

lemma wins_exact:
  "wins u cs k = (if \<not> spent u k \<and> k \<in> fst ` set cs then 1 else 0)"
proof (induction cs arbitrary: u)
  case (Cons c cs)
  obtain k' e where c: "c = (k', e)" by (cases c)
  obtain b u' where u': "use u k' e = (b, u')" by (cases "use u k' e")
  have b: "b \<longleftrightarrow> \<not> spent u k'" and sp: "spent u' k \<longleftrightarrow> k = k' \<or> spent u k"
    using use_ok[of u k' e] use_spends[of u k' e k] by (simp_all add: u')
  have "wins u (c # cs) k = (if k' = k \<and> b then Suc (wins u' cs k) else wins u' cs k)"
    by (simp add: wins_def c u')
  also have "wins u' cs k = (if \<not> spent u' k \<and> k \<in> fst ` set cs then 1 else 0)"
    by (rule Cons.IH)
  finally show ?case using b sp c by (auto simp: image_iff)
qed (simp add: wins_def)

end

interpretation inmem_tokens: used_token_store try_use "\<lambda>u k. u k \<noteq> None"
  by unfold_locales (auto simp: try_use_def)

text \<open>The in-memory store's own run of a sequence of calls.\<close>

fun run_uses :: "TokenStore \<Rightarrow> (string \<times> u64) list \<Rightarrow> bool list" where
  "run_uses u [] = []"
| "run_uses u ((k, e) # cs) = (case try_use u k e of (b, u') \<Rightarrow> b # run_uses u' cs)"

lemma run_uses_eq: "run_uses u cs = inmem_tokens.run u cs"
  by (induction u cs rule: run_uses.induct) (simp_all split: prod.splits)

lemma try_use_True_iff: "try_use u k e = (True, u') \<longleftrightarrow> u k = None \<and> u' = u(k \<mapsto> e)"
  by (auto simp: try_use_def)

lemma try_use_False_iff: "try_use u k e = (False, u') \<longleftrightarrow> u k \<noteq> None \<and> u' = u"
  by (auto simp: try_use_def)

lemma prune_Some_iff: "prune u now k = Some e \<longleftrightarrow> u k = Some e \<and> now < e"
  by (auto simp: prune_def split: option.splits)

lemma prune_None_iff: "prune u now k = None \<longleftrightarrow> u k = None \<or> (\<exists>e. u k = Some e \<and> e \<le> now)"
  by (auto simp: prune_def not_less split: option.splits)

text \<open>
  Concurrent calls to \<open>try_use\<close> serialise on the store's lock. However the calls interleave,
  a token that is not spent yet is granted exactly once if any call names it, and a spent token
  is never granted.
\<close>

theorem try_use_exactly_once:
  "length (filter (\<lambda>(c, b). fst c = k \<and> b) (zip cs (run_uses used cs))) =
     (if used k = None \<and> k \<in> fst ` set cs then 1 else 0)"
  using inmem_tokens.wins_exact[of used cs k] by (simp add: inmem_tokens.wins_def run_uses_eq)

text \<open>
  Pruning forgets exactly the tokens whose expiry is not after the pruning time, and such a
  token is granted again: single use holds between two prunings of live entries only.
\<close>

theorem prune_regrants_expired:
  assumes "used k = Some e"
  shows "fst (try_use (prune used now) k e') \<longleftrightarrow> e \<le> now"
  using assms by (auto simp: try_use_def prune_def)

theorem prune_regrants_expired_witness:
  "fst (try_use (prune (Map.empty(''t1'' \<mapsto> 100)) 150) ''t1'' 300) \<and>
   \<not> fst (try_use (prune (Map.empty(''t2'' \<mapsto> 200)) 150) ''t2'' 300)"
  using prune_regrants_expired[of "Map.empty(''t1'' \<mapsto> 100)" "''t1''" 100 150 300]
    prune_regrants_expired[of "Map.empty(''t2'' \<mapsto> 200)" "''t2''" 200 150 300]
  by simp

end
