(* ===== verification/Policy.thy ===== *)
theory Policy
  imports Stores
begin

text \<open>
  \<open>src/policy.rs\<close>: policy decision tokens. A token is \<open>base64url(claims) . base64url(signature)\<close>;
  the verifier checks the Policy Engine's signature over the claims bytes, the binding to
  payload, key and chain, freshness within the allowed skew, and single use. The arithmetic on
  timestamps is the release build's: \<open>u64\<close> additions wrap.
\<close>

section \<open>Claims, denial reasons and the verifier\<close>

record PolicyClaims =
  pc_token_id :: string
  pc_tx_payload_hash :: string
  pc_key_id :: string
  pc_chain :: Chain
  pc_issued_at :: u64
  pc_expires_at :: u64

datatype DenyReason =
    Deny_Malformed | Deny_BadSignature | Deny_PayloadMismatch | Deny_KeyMismatch
  | Deny_ChainMismatch | Deny_Expired | Deny_Replayed

fun deny_to_string :: "DenyReason \<Rightarrow> string" where
  "deny_to_string Deny_Malformed = ''token_malformed''"
| "deny_to_string Deny_BadSignature = ''token_signature_invalid''"
| "deny_to_string Deny_PayloadMismatch = ''tx_payload_hash_mismatch''"
| "deny_to_string Deny_KeyMismatch = ''key_id_mismatch''"
| "deny_to_string Deny_ChainMismatch = ''chain_mismatch''"
| "deny_to_string Deny_Expired = ''token_expired_or_not_yet_valid''"
| "deny_to_string Deny_Replayed = ''token_replayed''"

record Ed25519TokenVerifier =
  tv_policy_pubkey :: bytes
  tv_max_skew_secs :: u64

datatype PubkeyError = PubkeyNotHex | PubkeyNot32Bytes | PubkeyInvalid

definition token_verifier_new ::
  "crates \<Rightarrow> string \<Rightarrow> u64 \<Rightarrow> (Ed25519TokenVerifier, PubkeyError) result" where
  "token_verifier_new X pubkey_hex max_skew =
     and_then (ok_or (hex_decode X pubkey_hex) PubkeyNotHex) (\<lambda>b.
       if length b \<noteq> 32 then Err PubkeyNot32Bytes
       else if \<not> vk_valid X b then Err PubkeyInvalid
       else Ok \<lparr>tv_policy_pubkey = b, tv_max_skew_secs = max_skew\<rparr>)"

section \<open>Verification\<close>

text \<open>Wire format and signature: split, decode, check the signature, parse the claims.\<close>

definition open_token ::
  "crates \<Rightarrow> PolicyClaims serde \<Rightarrow> bytes \<Rightarrow> string \<Rightarrow> (PolicyClaims, DenyReason) result" where
  "open_token X S pk token =
     and_then (ok_or (split_once (CHR ''.'') token) Deny_Malformed) (\<lambda>(claims_b64, sig_b64).
     and_then (ok_or (b64_decode X claims_b64) Deny_Malformed) (\<lambda>claims_bytes.
     and_then (ok_or (b64_decode X sig_b64) Deny_Malformed) (\<lambda>sig_bytes.
       if length sig_bytes \<noteq> 64 then Err Deny_Malformed
       else if \<not> ed_verify X pk claims_bytes sig_bytes then Err Deny_BadSignature
       else ok_or (from_slice S claims_bytes) Deny_Malformed)))"

text \<open>Freshness: not issued in the future and not expired, both within the skew.\<close>

definition token_stale :: "u64 \<Rightarrow> PolicyClaims \<Rightarrow> u64 \<Rightarrow> bool" where
  "token_stale skew c now \<longleftrightarrow>
     now + skew < pc_issued_at c \<or> pc_expires_at c + skew < now"

definition policy_verify ::
  "crates \<Rightarrow> PolicyClaims serde \<Rightarrow> Ed25519TokenVerifier \<Rightarrow>
   string \<Rightarrow> bytes \<Rightarrow> string \<Rightarrow> Chain \<Rightarrow> TokenStore \<Rightarrow> world \<Rightarrow>
   (PolicyClaims, DenyReason) result \<times> TokenStore \<times> world" where
  "policy_verify X S v token payload key_id chain used w =
     (case open_token X S (tv_policy_pubkey v) token of
        Err e \<Rightarrow> (Err e, used, w)
      | Panic \<Rightarrow> (Panic, used, w)
      | Ok claims \<Rightarrow>
          if pc_tx_payload_hash claims \<noteq> sha256_hex X payload then (Err Deny_PayloadMismatch, used, w)
          else if pc_key_id claims \<noteq> key_id then (Err Deny_KeyMismatch, used, w)
          else if pc_chain claims \<noteq> chain then (Err Deny_ChainMismatch, used, w)
          else (case unix_now w of (now, w') \<Rightarrow>
            if token_stale (tv_max_skew_secs v) claims now then (Err Deny_Expired, used, w')
            else (case try_use used (pc_token_id claims) (pc_expires_at claims) of
                (fresh, used') \<Rightarrow>
                  if fresh then (Ok claims, used', w') else (Err Deny_Replayed, used', w'))))"

section \<open>Minting\<close>

definition mint_token :: "crates \<Rightarrow> PolicyClaims serde \<Rightarrow> bytes \<Rightarrow> PolicyClaims \<Rightarrow> string" where
  "mint_token X S seed claims =
     (let claims_bytes = to_vec S claims
      in b64_encode X claims_bytes @ ''.'' @ b64_encode X (ed_sign X seed claims_bytes))"

definition claims_for ::
  "crates \<Rightarrow> bytes \<Rightarrow> string \<Rightarrow> Chain \<Rightarrow> u64 \<Rightarrow> world \<Rightarrow> PolicyClaims \<times> world" where
  "claims_for X payload key_id chain ttl w =
     (case unix_now w of (now, w1) \<Rightarrow> (case new_v4 w1 of (tid, w2) \<Rightarrow>
        (\<lparr>pc_token_id = tid, pc_tx_payload_hash = sha256_hex X payload, pc_key_id = key_id,
          pc_chain = chain, pc_issued_at = now, pc_expires_at = now + ttl\<rparr>, w2)))"

section \<open>Lemmas\<close>

lemma deny_to_string_inj: "deny_to_string a = deny_to_string b \<longleftrightarrow> a = b"
  by (cases a; cases b) auto

lemma open_token_not_Panic [simp]: "open_token X S pk token \<noteq> Panic"
  by (auto simp: open_token_def result_simps split: if_splits prod.splits)

lemma policy_verify_not_Panic [simp]: "fst (policy_verify X S v t p k c used w) \<noteq> Panic"
  by (auto simp: policy_verify_def split: result.splits prod.splits)

lemma open_token_Ok_iff:
  "open_token X S pk token = Ok c \<longleftrightarrow>
     (\<exists>a b cb sb. token = a @ CHR ''.'' # b \<and> CHR ''.'' \<notin> set a \<and> b64_decode X a = Some cb \<and>
        b64_decode X b = Some sb \<and> length sb = 64 \<and> ed_verify X pk cb sb \<and> from_slice S cb = Some c)"
  by (auto simp: open_token_def result_simps split_once_iff)

lemma open_token_OkD:
  assumes "open_token X S pk token = Ok c"
  shows "\<exists>a b cb sb. token = a @ ''.'' @ b \<and> b64_decode X a = Some cb \<and> b64_decode X b = Some sb \<and>
           length sb = 64 \<and> ed_verify X pk cb sb \<and> from_slice S cb = Some c"
  using assms unfolding open_token_def
  by (auto simp: result_simps split: if_splits dest!: split_once_SomeD)

text \<open>Everything an accepted token proves, and the only effect of acceptance on the store.\<close>

lemma policy_verify_OkD:
  assumes "policy_verify X S v token payload key_id chain used w = (Ok c, used', w')"
  shows "open_token X S (tv_policy_pubkey v) token = Ok c"
    and "pc_tx_payload_hash c = sha256_hex X payload"
    and "pc_key_id c = key_id" and "pc_chain c = chain"
    and "\<not> token_stale (tv_max_skew_secs v) c (fst (unix_now w))"
    and "used (pc_token_id c) = None" and "used' = used(pc_token_id c \<mapsto> pc_expires_at c)"
    and "w' = snd (unix_now w)"
  using assms
  by (auto simp: policy_verify_def unix_now_eq try_use_def
      split: result.splits if_splits prod.splits)

lemma policy_verify_Err_store:
  assumes "policy_verify X S v token payload key_id chain used w = (Err e, used', w')"
  shows "used' = used"
  using assms
  by (auto simp: policy_verify_def unix_now_eq try_use_def
      split: result.splits if_splits prod.splits)

lemma policy_verify_ErrD:
  assumes "policy_verify X S v token payload key_id chain used w = (Err Deny_Replayed, used', w')"
  shows "\<exists>c. open_token X S (tv_policy_pubkey v) token = Ok c \<and> used (pc_token_id c) \<noteq> None"
  using assms
  by (auto simp: policy_verify_def unix_now_eq try_use_def open_token_def result_simps
      split: result.splits if_splits prod.splits)

lemma policy_verify_spent:
  assumes "open_token X S (tv_policy_pubkey v) token = Ok c" and "used (pc_token_id c) \<noteq> None"
  shows "\<not> is_ok (fst (policy_verify X S v token payload key_id chain used w))"
  using assms by (auto simp: policy_verify_def try_use_def split: prod.splits)

lemma policy_verify_eq:
  assumes "open_token X S (tv_policy_pubkey v) token = Ok c"
    and "pc_tx_payload_hash c = sha256_hex X payload" and "pc_key_id c = key_id" and "pc_chain c = chain"
    and "\<not> token_stale (tv_max_skew_secs v) c (fst (unix_now w))" and "used (pc_token_id c) = None"
  shows "policy_verify X S v token payload key_id chain used w =
           (Ok c, used(pc_token_id c \<mapsto> pc_expires_at c), snd (unix_now w))"
  using assms by (auto simp: policy_verify_def unix_now_eq try_use_def)

lemma open_minted:
  assumes "b64_laws X" and "ed25519_laws X" and "length seed = 32"
    and "from_slice S (to_vec S c) = Some c"
  shows "open_token X S (ed_public X seed) (mint_token X S seed c) = Ok c"
  using assms by (simp add: open_token_def mint_token_def Let_def crate_laws)

section \<open>Freshness on the natural numbers\<close>

lemma u64_add_no_wrap: "unat a + unat b < 2 ^ 64 \<Longrightarrow> unat (a + b :: u64) = unat a + unat b"
  by (simp add: unat_word_ariths)

lemma max_u64_add: "0 < k \<Longrightarrow> (- 1 :: u64) + k = k - 1"
  by simp

lemma token_stale_wraps:
  assumes "pc_expires_at c = - 1" and "0 < skew" and "skew \<le> now"
  shows "token_stale skew c now"
proof -
  have "skew \<noteq> 0" and "0 < unat skew"
    using assms(2) by (auto simp: word_less_nat_alt)
  hence "skew - 1 < skew" by (simp add: word_less_nat_alt unat_minus_one)
  hence "pc_expires_at c + skew < now" using assms(1,3) by (simp add: add.commute)
  thus ?thesis by (simp add: token_stale_def)
qed

section \<open>Sequences of verifications\<close>

record policy_call =
  cl_token :: string
  cl_payload :: bytes
  cl_key_id :: string
  cl_chain :: Chain

fun verify_all ::
  "crates \<Rightarrow> PolicyClaims serde \<Rightarrow> Ed25519TokenVerifier \<Rightarrow> policy_call list \<Rightarrow>
   TokenStore \<Rightarrow> world \<Rightarrow> PolicyClaims list" where
  "verify_all X S v [] used w = []"
| "verify_all X S v (q # qs) used w =
     (case policy_verify X S v (cl_token q) (cl_payload q) (cl_key_id q) (cl_chain q) used w of
        (Ok c, used', w') \<Rightarrow> c # verify_all X S v qs used' w'
      | (_, used', w') \<Rightarrow> verify_all X S v qs used' w')"

lemma verify_all_grants:
  "distinct (map pc_token_id (verify_all X S v qs used w)) \<and>
   (\<forall>c \<in> set (verify_all X S v qs used w). used (pc_token_id c) = None)"
proof (induction qs arbitrary: used w)
  case (Cons q qs)
  obtain r used' w' where r: "policy_verify X S v (cl_token q) (cl_payload q) (cl_key_id q)
      (cl_chain q) used w = (r, used', w')"
    by (metis prod_cases3)
  show ?case
  proof (cases r)
    case (Ok c)
    note h = policy_verify_OkD[OF r[unfolded Ok]]
    let ?rest = "verify_all X S v qs used' w'"
    have none: "used' k = None \<longleftrightarrow> k \<noteq> pc_token_id c \<and> used k = None" for k
      by (simp add: h(7))
    have "\<forall>c' \<in> set ?rest. pc_token_id c' \<noteq> pc_token_id c \<and> used (pc_token_id c') = None"
      using Cons.IH[of used' w'] by (simp add: none)
    moreover have "distinct (map pc_token_id ?rest)" using Cons.IH by blast
    moreover have "verify_all X S v (q # qs) used w = c # ?rest" using r Ok by simp
    ultimately show ?thesis using h(6) by auto
  next
    case (Err e)
    thus ?thesis using Cons.IH[of used' w'] r policy_verify_Err_store by fastforce
  next
    case Panic
    thus ?thesis using policy_verify_not_Panic r by (metis fst_conv)
  qed
qed simp

section \<open>Properties\<close>

text \<open>
  (C23) The verifier accepts a token with claims \<open>c\<close> exactly when the token is two base64 texts around
  its first dot, the second decodes to 64 bytes that are the Policy Engine's Ed25519 signature of
  what the first decodes to, those bytes parse as \<open>c\<close>, the claims name this payload's hash, this key
  and this chain, they were issued no later than the clock plus the skew and expire no earlier than
  the clock minus it (as 64-bit sums), and their token id is not in the store. Accepting
  enters the id with its expiry into the store; a refusal leaves the store alone.
\<close>

theorem policy_accepts_iff:
  "(fst (policy_verify X S v token payload key_id chain used w) = Ok c \<longleftrightarrow>
     (\<exists>claims_b64 sig_b64 claims_bytes sig_bytes.
        token = claims_b64 @ CHR ''.'' # sig_b64 \<and> CHR ''.'' \<notin> set claims_b64 \<and>
        b64_decode X claims_b64 = Some claims_bytes \<and> b64_decode X sig_b64 = Some sig_bytes \<and>
        length sig_bytes = 64 \<and> ed_verify X (tv_policy_pubkey v) claims_bytes sig_bytes \<and>
        from_slice S claims_bytes = Some c) \<and>
     pc_tx_payload_hash c = hex_encode X (sha256 X payload) \<and> pc_key_id c = key_id \<and> pc_chain c = chain \<and>
     pc_issued_at c \<le> fst (unix_now w) + tv_max_skew_secs v \<and>
     fst (unix_now w) \<le> pc_expires_at c + tv_max_skew_secs v \<and> used (pc_token_id c) = None) \<and>
   fst (snd (policy_verify X S v token payload key_id chain used w)) =
     (case fst (policy_verify X S v token payload key_id chain used w) of
        Ok claims \<Rightarrow> used(pc_token_id claims \<mapsto> pc_expires_at claims) | _ \<Rightarrow> used)"
  (is "(?ok \<longleftrightarrow> ?token \<and> ?rest) \<and> ?store")
proof
  have "?ok \<longleftrightarrow> open_token X S (tv_policy_pubkey v) token = Ok c \<and> ?rest"
  proof
    assume ?ok
    then obtain used' w' where
      "policy_verify X S v token payload key_id chain used w = (Ok c, used', w')"
      by (metis prod.collapse)
    from policy_verify_OkD[OF this] show "open_token X S (tv_policy_pubkey v) token = Ok c \<and> ?rest"
      by (simp add: token_stale_def sha256_hex_def not_less)
  next
    assume h: "open_token X S (tv_policy_pubkey v) token = Ok c \<and> ?rest"
    show ?ok
      by (subst policy_verify_eq[where c = c]) (use h in \<open>simp_all add: token_stale_def sha256_hex_def not_less\<close>)
  qed
  thus "?ok \<longleftrightarrow> ?token \<and> ?rest" unfolding open_token_Ok_iff .
  obtain r used' w' where r: "policy_verify X S v token payload key_id chain used w = (r, used', w')"
    by (rule prod_cases3)
  have "r \<noteq> Panic" using policy_verify_not_Panic[of X S v token payload key_id chain used w] r by simp
  thus ?store
    using policy_verify_OkD(7)[of X S v token payload key_id chain used w _ used' w']
      policy_verify_Err_store[of X S v token payload key_id chain used w _ used' w'] r
    by (cases r) simp_all
qed

text \<open>
  Single use over any history: in every sequence of verifications, whatever tokens,
  payloads, keys and chains the calls present, no two accepted calls carry the same token id,
  and none carries an id that was already spent at the start.
\<close>

theorem policy_tokens_single_use:
  "distinct (map pc_token_id (verify_all X S v qs used w)) \<and>
   set (map pc_token_id (verify_all X S v qs used w)) \<inter> dom used = {}"
  using verify_all_grants[of X S v qs used w] by (auto simp: domIff)

text \<open>
  A token minted by the Policy Engine for a payload, key and chain is accepted for them at
  any later time inside its lifetime, and spends its token id.
\<close>

theorem minted_token_accepted:
  assumes "b64_laws X" and "ed25519_laws X" and "length seed = 32"
    and "claims_for X payload key_id chain ttl w0 = (c, w)"
    and "from_slice S (to_vec S c) = Some c"
    and "tv_policy_pubkey v = ed_public X seed"
    and "fst (unix_now w0) \<le> fst (unix_now w)"
    and "unat (fst (unix_now w)) + unat (tv_max_skew_secs v) < 2 ^ 64"
    and "unat (fst (unix_now w0)) + unat ttl + unat (tv_max_skew_secs v) < 2 ^ 64"
    and "unat (fst (unix_now w)) \<le> unat (fst (unix_now w0)) + unat ttl"
    and "used (pc_token_id c) = None"
  shows "policy_verify X S v (mint_token X S seed c) payload key_id chain used w =
           (Ok c, used(pc_token_id c \<mapsto> pc_expires_at c), snd (unix_now w))"
proof (rule policy_verify_eq)
  have c: "pc_tx_payload_hash c = sha256_hex X payload" "pc_key_id c = key_id" "pc_chain c = chain"
      "pc_issued_at c = fst (unix_now w0)" "pc_expires_at c = fst (unix_now w0) + ttl"
    using assms(4) by (auto simp: claims_for_def unix_now_eq split: prod.splits)
  show "open_token X S (tv_policy_pubkey v) (mint_token X S seed c) = Ok c"
    using assms by (simp add: open_minted)
  have n1: "unat (fst (unix_now w) + tv_max_skew_secs v) =
        unat (fst (unix_now w)) + unat (tv_max_skew_secs v)"
    using assms(8) by (rule u64_add_no_wrap)
  have n2: "unat (fst (unix_now w0) + ttl) = unat (fst (unix_now w0)) + unat ttl"
    using assms(9) by (intro u64_add_no_wrap) linarith
  have n3: "unat (fst (unix_now w0) + ttl + tv_max_skew_secs v) =
        unat (fst (unix_now w0)) + unat ttl + unat (tv_max_skew_secs v)"
    using assms(9) n2 by (subst u64_add_no_wrap) simp_all
  have "unat (fst (unix_now w0)) \<le> unat (fst (unix_now w))"
    using assms(7) by (simp add: word_le_nat_alt)
  thus "\<not> token_stale (tv_max_skew_secs v) c (fst (unix_now w))"
    unfolding token_stale_def c word_less_nat_alt n1 n3 using assms(10) by linarith
qed (use assms in \<open>auto simp: claims_for_def split: prod.splits\<close>)

text \<open>A concrete engine key, claims and store on which the witnesses below evaluate.\<close>

definition demo_seed :: bytes where
  "demo_seed = replicate 32 7"

definition demo_claims :: PolicyClaims where
  "demo_claims = \<lparr>pc_token_id = ''tok'', pc_tx_payload_hash = sha256_hex demo_crates [1, 2],
     pc_key_id = ''k1'', pc_chain = Evm, pc_issued_at = 100, pc_expires_at = 160\<rparr>"

definition demo_claims_serde :: "PolicyClaims \<Rightarrow> PolicyClaims serde" where
  "demo_claims_serde c = \<lparr>to_vec = (\<lambda>_. [1]), from_slice = (\<lambda>_. Some c), de_error = (\<lambda>_. [])\<rparr>"

definition demo_verifier :: Ed25519TokenVerifier where
  "demo_verifier = \<lparr>tv_policy_pubkey = ed_public demo_crates demo_seed, tv_max_skew_secs = 30\<rparr>"

definition demo_world :: "u64 \<Rightarrow> world" where
  "demo_world t = \<lparr>clock = sconst (Some t), uuids = sconst ''tok''\<rparr>"

lemma length_demo_seed [simp]: "length demo_seed = 32"
  by (simp add: demo_seed_def)

lemma demo_world_now [simp]: "unix_now (demo_world t) = (t, demo_world t)"
  by (simp add: unix_now_eq demo_world_def)

lemma demo_open [simp]:
  "open_token demo_crates (demo_claims_serde c) (ed_public demo_crates demo_seed)
     (mint_token demo_crates (demo_claims_serde c) demo_seed c) = Ok c"
  by (rule open_minted) (simp_all add: demo_claims_serde_def)

lemma demo_claims_simps [simp]:
  "pc_token_id demo_claims = ''tok''"
  "pc_tx_payload_hash demo_claims = sha256_hex demo_crates [1, 2]"
  "pc_key_id demo_claims = ''k1''" "pc_chain demo_claims = Evm"
  "pc_issued_at demo_claims = 100" "pc_expires_at demo_claims = 160"
  by (simp_all add: demo_claims_def)

lemma demo_first_use:
  "policy_verify demo_crates (demo_claims_serde demo_claims) demo_verifier
     (mint_token demo_crates (demo_claims_serde demo_claims) demo_seed demo_claims)
     [1, 2] ''k1'' Evm Map.empty (demo_world 100) =
   (Ok demo_claims, Map.empty(''tok'' \<mapsto> 160), demo_world 100)"
  by (subst policy_verify_eq[where c = demo_claims])
    (simp_all add: demo_verifier_def token_stale_def)

theorem minted_token_accepted_witness:
  "policy_verify demo_crates (demo_claims_serde demo_claims) demo_verifier
     (mint_token demo_crates (demo_claims_serde demo_claims) demo_seed demo_claims)
     [1, 2] ''k1'' Evm Map.empty (demo_world 100) =
   (Ok demo_claims, Map.empty(''tok'' \<mapsto> 160), demo_world 100)"
proof -
  have cf: "claims_for demo_crates [1, 2] ''k1'' Evm 60 (demo_world 100) = (demo_claims, demo_world 100)"
    by (simp add: claims_for_def new_v4_def demo_claims_def) (simp add: demo_world_def)
  have sd: "from_slice (demo_claims_serde demo_claims) (to_vec (demo_claims_serde demo_claims) demo_claims)
      = Some demo_claims"
    by (simp add: demo_claims_serde_def)
  have tv: "tv_policy_pubkey demo_verifier = ed_public demo_crates demo_seed"
    by (simp add: demo_verifier_def)
  show ?thesis
    using minted_token_accepted[OF demo_b64 demo_ed25519 length_demo_seed cf sd tv, where used = Map.empty]
    by (simp add: demo_verifier_def)
qed

text \<open>
  (C40) Replay window after pruning: \<open>prune\<close> drops an entry once its expiry is not after the
  pruning time, but the freshness check still accepts the token for the skew beyond its expiry.
  Between the two, a token that was already accepted is accepted again.
\<close>

theorem pruned_token_replays:
  assumes "policy_verify X S v token payload key_id chain used w = (Ok c, used', w')"
    and "pc_expires_at c \<le> pruned_at"
    and "\<not> token_stale (tv_max_skew_secs v) c (fst (unix_now w2))"
  shows "fst (policy_verify X S v token payload key_id chain (prune used' pruned_at) w2) = Ok c"
proof -
  note h = policy_verify_OkD[OF assms(1)]
  have "prune used' pruned_at (pc_token_id c) = None"
    using assms(2) by (simp add: h(7) prune_None_iff)
  thus ?thesis using policy_verify_eq[OF h(1-4) assms(3)] by simp
qed

theorem pruned_token_replays_witness:
  "fst (policy_verify demo_crates (demo_claims_serde demo_claims) demo_verifier
     (mint_token demo_crates (demo_claims_serde demo_claims) demo_seed demo_claims)
     [1, 2] ''k1'' Evm (prune (Map.empty(''tok'' \<mapsto> 160)) 170) (demo_world 170)) = Ok demo_claims"
proof -
  show ?thesis
    using pruned_token_replays[OF demo_first_use, of 170 "demo_world 170"]
    by (simp add: demo_verifier_def token_stale_def)
qed

text \<open>
  Wrap-around of the freshness check: with a non-zero skew, a token whose expiry is the
  largest \<open>u64\<close> is never accepted once the clock has reached the skew, because
  \<open>expires_at + max_skew_secs\<close> wraps to a small value.
\<close>

theorem never_expiring_token_refused:
  assumes "open_token X S (tv_policy_pubkey v) token = Ok c" and "pc_expires_at c = - 1"
    and "0 < tv_max_skew_secs v" and "tv_max_skew_secs v \<le> fst (unix_now w)"
  shows "\<not> is_ok (fst (policy_verify X S v token payload key_id chain used w))"
proof
  assume "is_ok (fst (policy_verify X S v token payload key_id chain used w))"
  then obtain c' used' w' where
    ok: "policy_verify X S v token payload key_id chain used w = (Ok c', used', w')"
    by (metis is_ok_iff prod.collapse)
  note h = policy_verify_OkD[OF ok]
  have "c' = c" using h(1) assms(1) by simp
  thus False using h(5) token_stale_wraps[OF assms(2-4)] by simp
qed

theorem never_expiring_token_refused_witness:
  "\<not> is_ok (fst (policy_verify demo_crates
     (demo_claims_serde (demo_claims\<lparr>pc_expires_at := - 1\<rparr>)) demo_verifier
     (mint_token demo_crates (demo_claims_serde (demo_claims\<lparr>pc_expires_at := - 1\<rparr>)) demo_seed
        (demo_claims\<lparr>pc_expires_at := - 1\<rparr>))
     [1, 2] ''k1'' Evm Map.empty (demo_world 100)))"
  by (rule never_expiring_token_refused[where c = "demo_claims\<lparr>pc_expires_at := - 1\<rparr>"])
    (simp_all add: demo_verifier_def)

end
