(* ===== verification/Wallet.thy ===== *)
theory Wallet
  imports Domain
begin

text \<open>
  \<open>src/wallet.rs\<close> and \<open>src/grpc/json_codec.rs\<close>: resolution of a wallet's keys through Wallet
  Management and the cross-check of the requested key. A client is its \<open>resolve_keys\<close> method;
  \<open>check_key_binding\<close> is the trait's provided method over it. The gRPC channel and the JSON text
  of the wire are parameters.
\<close>

section \<open>Records, errors and the binding check\<close>

record WalletKeyRecord =
  wk_key_ids :: "string list"
  wk_current_key_id :: string

datatype WalletError = W_Unavailable string | W_NotFound | W_KeyMismatch

type_synonym wallet_client = "string \<Rightarrow> (WalletKeyRecord, WalletError) result"

definition check_key_binding ::
  "wallet_client \<Rightarrow> string \<Rightarrow> string \<Rightarrow> (WalletKeyRecord, WalletError) result" where
  "check_key_binding resolve_keys wallet_id key_id =
     and_then (resolve_keys wallet_id) (\<lambda>rec.
       if wk_key_ids rec = [] \<and> wk_current_key_id rec = [] then Err W_NotFound
       else if wk_current_key_id rec \<noteq> key_id \<and> \<not> list_ex (\<lambda>k. k = key_id) (wk_key_ids rec)
       then Err W_KeyMismatch
       else Ok rec)"

section \<open>The JSON codec of the wallet channel\<close>

definition json_encode :: "'a serde \<Rightarrow> 'a \<Rightarrow> bytes \<Rightarrow> bytes" where
  "json_encode S item dst = dst @ to_vec S item"

definition json_decode :: "'a serde \<Rightarrow> bytes \<Rightarrow> ('a option, Status) result" where
  "json_decode S src =
     (if src = [] then Ok None
      else (case from_slice S src of
              Some v \<Rightarrow> Ok (Some v)
            | None \<Rightarrow> Err (status_new Code_Internal (''json decode: '' @ de_error S src))))"

section \<open>The gRPC client\<close>

text \<open>
  A lazily connected channel is its endpoint: the parsed address and the two time limits in seconds.
  \<open>from_shared\<close> is tonic's parser of the address.
\<close>

record Endpoint =
  ep_uri :: string
  ep_connect_timeout :: nat
  ep_timeout :: nat

record GrpcWalletClient =
  gw_channel :: Endpoint

definition grpc_wallet_connect ::
  "(string \<Rightarrow> (string, string) result) \<Rightarrow> string \<Rightarrow> (GrpcWalletClient, WalletError) result" where
  "grpc_wallet_connect from_shared url =
     and_then (map_err W_Unavailable (from_shared url)) (\<lambda>uri.
       Ok \<lparr>gw_channel = \<lparr>ep_uri = uri, ep_connect_timeout = 3, ep_timeout = 5\<rparr>\<rparr>)"

record ResolveKeyIdRequest =
  rk_wallet_id :: string

text \<open>
  \<open>ready\<close> is the outcome of waiting for the channel, \<open>unary\<close> the remote call, \<open>show_status\<close> the
  text of a gRPC status; all three belong to the tonic crate and the remote service.
\<close>

definition grpc_resolve_keys ::
  "(unit, string) result \<Rightarrow> (string \<Rightarrow> ResolveKeyIdRequest \<Rightarrow> (WalletKeyRecord, Status) result) \<Rightarrow>
   (Status \<Rightarrow> string) \<Rightarrow> wallet_client" where
  "grpc_resolve_keys ready unary show_status wallet_id =
     and_then (map_err W_Unavailable ready) (\<lambda>_.
       map_err (\<lambda>status. if st_code status = Code_NotFound then W_NotFound
                          else W_Unavailable (show_status status))
         (unary ''/wallet.WalletService/ResolveKeyID'' \<lparr>rk_wallet_id = wallet_id\<rparr>))"

section \<open>The in-memory mock\<close>

record MockWalletClient =
  mw_records :: "string \<Rightarrow> WalletKeyRecord option"
  mw_outage :: bool

definition mock_wallet_new :: MockWalletClient where
  "mock_wallet_new = \<lparr>mw_records = Map.empty, mw_outage = False\<rparr>"

definition mock_bind :: "MockWalletClient \<Rightarrow> string \<Rightarrow> string list \<Rightarrow> string \<Rightarrow> MockWalletClient" where
  "mock_bind m wallet_id key_ids current =
     m\<lparr>mw_records := (mw_records m)(wallet_id \<mapsto> \<lparr>wk_key_ids = key_ids, wk_current_key_id = current\<rparr>)\<rparr>"

definition mock_set_outage :: "MockWalletClient \<Rightarrow> bool \<Rightarrow> MockWalletClient" where
  "mock_set_outage m down = m\<lparr>mw_outage := down\<rparr>"

definition mock_resolve_keys :: "MockWalletClient \<Rightarrow> wallet_client" where
  "mock_resolve_keys m wallet_id =
     (if mw_outage m then Err (W_Unavailable ''mock outage'')
      else ok_or (mw_records m wallet_id) W_NotFound)"

section \<open>Lemmas\<close>

lemma check_key_binding_OkD:
  assumes "check_key_binding resolve wid kid = Ok rec"
  shows "resolve wid = Ok rec" and "kid = wk_current_key_id rec \<or> kid \<in> set (wk_key_ids rec)"
  using assms by (auto simp: check_key_binding_def result_simps list_ex_iff split: if_splits)

lemma check_key_binding_iff:
  "check_key_binding resolve wid kid = Ok rec \<longleftrightarrow>
     resolve wid = Ok rec \<and> (wk_key_ids rec \<noteq> [] \<or> wk_current_key_id rec \<noteq> []) \<and>
     (kid = wk_current_key_id rec \<or> kid \<in> set (wk_key_ids rec))"
  by (auto simp: check_key_binding_def result_simps list_ex_iff split: if_splits)

text \<open>
  The binding check answers with a record exactly when Wallet Management resolved the
  wallet to a non-empty record that lists the requested key as current or cooling; it fails
  closed on every resolution error, on an empty record, and on a key the record does not list.
\<close>

theorem binding_accepts_iff:
  "check_key_binding resolve wid kid = Ok rec \<longleftrightarrow>
     resolve wid = Ok rec \<and> (wk_key_ids rec \<noteq> [] \<or> wk_current_key_id rec \<noteq> []) \<and>
     (kid = wk_current_key_id rec \<or> kid \<in> set (wk_key_ids rec))"
  by (rule check_key_binding_iff)

text \<open>
  The gRPC client fails closed: it answers with a record only when the channel was ready
  and the remote call succeeded, it reports \<open>NotFound\<close> only for the remote's \<open>NotFound\<close>, and
  every other failure, of the channel or of the call, is an outage.
\<close>

theorem grpc_wallet_fails_closed:
  "(grpc_resolve_keys ready unary sh wid = Ok rec \<longleftrightarrow>
      ready = Ok () \<and> unary ''/wallet.WalletService/ResolveKeyID'' \<lparr>rk_wallet_id = wid\<rparr> = Ok rec) \<and>
   (grpc_resolve_keys ready unary sh wid = Err W_NotFound \<longleftrightarrow>
      ready = Ok () \<and> (\<exists>s. unary ''/wallet.WalletService/ResolveKeyID'' \<lparr>rk_wallet_id = wid\<rparr> = Err s \<and>
                          st_code s = Code_NotFound)) \<and>
   grpc_resolve_keys ready unary sh wid \<noteq> Err W_KeyMismatch"
  by (auto simp: grpc_resolve_keys_def result_simps split: if_splits)

end
