(* ===== verification/Audit_Log.thy ===== *)
theory Audit_Log
  imports Domain Json "HOL-Library.Sublist"
begin

text \<open>
  \<open>src/audit.rs\<close>: the signed audit record of one signing attempt, the signer that builds it, the
  Kafka sink with its envelope, and the asynchronous emitter: a bounded queue filled by the
  request handlers and emptied by one delivery task with bounded retries.
\<close>

section \<open>Records\<close>

datatype AuditResult = Audit_Signed | Audit_Denied | Audit_Failed

record NodeSignature =
  ns_node_id :: string
  ns_signature :: string
  ns_public_key :: string

record SigningAuditRecord =
  ar_record_id :: string
  ar_signing_session_id :: SigningSessionId
  ar_key_id :: KeyId
  ar_chain :: Chain
  ar_request_hash :: string
  ar_participants :: "string list"
  ar_result :: AuditResult
  ar_denial_reason :: "string option"
  ar_signature :: "string option"
  ar_created_at :: u64
  ar_node_signatures :: "NodeSignature list"

definition canonical_bytes :: "SigningAuditRecord serde \<Rightarrow> SigningAuditRecord \<Rightarrow> bytes" where
  "canonical_bytes S r = to_vec S (r\<lparr>ar_node_signatures := []\<rparr>)"

definition node_signature_ok :: "crates \<Rightarrow> bytes \<Rightarrow> NodeSignature \<Rightarrow> bool" where
  "node_signature_ok X b ns =
     (case (hex_decode X (ns_signature ns), hex_decode X (ns_public_key ns)) of
        (Some sig, Some pk) \<Rightarrow>
          if length sig = 64 \<and> length pk = 32 then
            if vk_valid X pk then ed_verify X pk b sig else False
          else False
      | _ \<Rightarrow> False)"

definition audit_verify :: "crates \<Rightarrow> SigningAuditRecord serde \<Rightarrow> SigningAuditRecord \<Rightarrow> bool" where
  "audit_verify X S r =
     (if ar_node_signatures r = [] then False
      else list_all (node_signature_ok X (canonical_bytes S r)) (ar_node_signatures r))"

section \<open>The signer\<close>

record AuditSigner =
  as_node_id :: string
  as_key :: bytes \<comment> \<open>the 32-byte seed of the node's Ed25519 identity key\<close>

datatype SignerError = SeedNotHex | SeedNot32Bytes

text \<open>
  \<open>generated\<close> is the seed \<open>SigningKey::generate(&mut OsRng)\<close> draws when no seed is configured.
\<close>

definition audit_signer_new ::
  "crates \<Rightarrow> bytes \<Rightarrow> string \<Rightarrow> string option \<Rightarrow> (AuditSigner, SignerError) result" where
  "audit_signer_new X generated node_id seed_hex =
     and_then
       (case seed_hex of
          Some h \<Rightarrow>
            and_then (ok_or (hex_decode X h) SeedNotHex) (\<lambda>b.
              if length b = 32 then Ok b else Err SeedNot32Bytes)
        | None \<Rightarrow> Ok generated)
       (\<lambda>key. Ok \<lparr>as_node_id = node_id, as_key = key\<rparr>)"

definition audit_record ::
  "crates \<Rightarrow> SigningAuditRecord serde \<Rightarrow> AuditSigner \<Rightarrow> SigningSessionId \<Rightarrow> KeyId \<Rightarrow> Chain \<Rightarrow> string \<Rightarrow>
   AuditResult \<Rightarrow> string option \<Rightarrow> string option \<Rightarrow> world \<Rightarrow> SigningAuditRecord \<times> world" where
  "audit_record X S sg session_id key_id chain request_hash res denial_reason signature_hex w =
     (let (rid, w1) = new_v4 w;
          (now, w2) = unix_now w1;
          rec = \<lparr>ar_record_id = rid, ar_signing_session_id = session_id, ar_key_id = key_id,
                 ar_chain = chain, ar_request_hash = request_hash,
                 ar_participants = [as_node_id sg], ar_result = res,
                 ar_denial_reason = denial_reason, ar_signature = signature_hex,
                 ar_created_at = now, ar_node_signatures = []\<rparr>;
          sig = ed_sign X (as_key sg) (canonical_bytes S rec);
          ns = \<lparr>ns_node_id = as_node_id sg, ns_signature = hex_encode X sig,
                ns_public_key = hex_encode X (ed_public X (as_key sg))\<rparr>
      in (rec\<lparr>ar_node_signatures := ar_node_signatures rec @ [ns]\<rparr>, w2))"

section \<open>The Kafka sink\<close>

definition AUDIT_TOPIC :: string where
  "AUDIT_TOPIC = ''audit.v1''"

text \<open>
  What the sink uses of other crates: \<open>serde_json\<close> on records and values (\<open>Inl\<close> is the text of its
  error), chrono's timestamp conversion and rendering (\<open>None\<close> out of range), and the producer's
  \<open>send\<close> of topic, key and payload (an error text, or none when the broker acknowledged).
\<close>

record 'k kafka_env =
  kf_to_value :: "SigningAuditRecord \<Rightarrow> string + json"
  kf_value_to_vec :: "json \<Rightarrow> string + bytes"
  kf_from_timestamp :: "int \<Rightarrow> string option"
  kf_utc_now :: "string"
  kf_send :: "string \<Rightarrow> string \<Rightarrow> bytes \<Rightarrow> 'k \<Rightarrow> string option \<times> 'k"

text \<open>
  A producer is known by the settings it was created from; \<open>create\<close> is rdkafka's constructor, which
  may refuse them.
\<close>

type_synonym producer = "(string \<times> string) list"

record KafkaAuditSink =
  ks_producer :: producer
  ks_source :: string

definition kafka_sink_new ::
  "(producer \<Rightarrow> (unit, string) result) \<Rightarrow> string \<Rightarrow> string \<Rightarrow> (KafkaAuditSink, string) result" where
  "kafka_sink_new create brokers source =
     (let producer = [(''bootstrap.servers'', brokers), (''message.timeout.ms'', ''5000'')]
      in and_then (create producer) (\<lambda>_. Ok \<lparr>ks_producer = producer, ks_source = source\<rparr>))"

definition kafka_envelope ::
  "crates \<Rightarrow> 'k kafka_env \<Rightarrow> string \<Rightarrow> string \<Rightarrow> json \<Rightarrow> bytes \<Rightarrow> SigningAuditRecord \<Rightarrow> json" where
  "kafka_envelope X K source i payload payload_bytes r =
     (let payload_hash = ''sha256:'' @ hex_encode X (sha256 X payload_bytes);
          ts = (case kf_from_timestamp K (sint (ar_created_at r)) of
                  Some t \<Rightarrow> t | None \<Rightarrow> kf_utc_now K)
      in JObject
           [(''schema_version'', JString ''1''),
            (''id'', JString i),
            (''ts'', JString ts),
            (''source_service'', JString source),
            (''actor_id'', JString source),
            (''action'', JString ''mpc.sign''),
            (''target_type'', JString ''transaction''),
            (''target_id'', JString (ar_signing_session_id r)),
            (''payload_hash'', JString payload_hash),
            (''payload'', payload)])"

text \<open>The result is the text of the error, or none for \<open>Ok(())\<close>.\<close>

definition kafka_deliver ::
  "crates \<Rightarrow> 'k kafka_env \<Rightarrow> string \<Rightarrow> SigningAuditRecord \<Rightarrow> world \<times> 'k \<Rightarrow> string option \<times> (world \<times> 'k)" where
  "kafka_deliver X K source r s =
     (case kf_to_value K r of
        Inl e \<Rightarrow> (Some e, s)
      | Inr payload \<Rightarrow>
          (case kf_value_to_vec K payload of
             Inl e \<Rightarrow> (Some e, s)
           | Inr payload_bytes \<Rightarrow>
               (let (w, k) = s;
                    (i, w') = new_v4 w
                in case kf_value_to_vec K (kafka_envelope X K source i payload payload_bytes r) of
                     Inl e \<Rightarrow> (Some e, (w', k))
                   | Inr b \<Rightarrow>
                       (let (e, k') = kf_send K AUDIT_TOPIC (ar_record_id r) b k
                        in (map_option (\<lambda>m. ''kafka audit publish: '' @ m) e, (w', k'))))))"

section \<open>The emitter\<close>

text \<open>
  \<open>emit\<close> is \<open>try_send\<close> on a channel of capacity 1024: a full queue drops the record.
\<close>

definition audit_capacity :: nat where
  "audit_capacity = 1024"

definition emit :: "SigningAuditRecord \<Rightarrow> SigningAuditRecord list \<Rightarrow> SigningAuditRecord list" where
  "emit r q = (if length q < audit_capacity then q @ [r] else q)"

text \<open>\<open>start\<close> makes the channel, empty, and hands its receiving end and the sink to the delivery task.\<close>

record AuditEmitter =
  em_sink :: "KafkaAuditSink option"
  em_queue :: "SigningAuditRecord list"

definition emitter_start :: "KafkaAuditSink option \<Rightarrow> AuditEmitter" where
  "emitter_start sink = \<lparr>em_sink = sink, em_queue = []\<rparr>"

text \<open>
  A sink delivers one record: the text of its error, or none for \<open>Ok(())\<close>. The retry loop of the
  delivery task on one record, from a given attempt number: whether the sink accepted the record,
  the milliseconds slept between attempts, and the sink afterwards.
\<close>

type_synonym 'k sink = "SigningAuditRecord \<Rightarrow> 'k \<Rightarrow> string option \<times> 'k"

function deliver_loop ::
  "'k sink \<Rightarrow> SigningAuditRecord \<Rightarrow> nat \<Rightarrow> 'k \<Rightarrow> bool \<times> nat list \<times> 'k" where
  "deliver_loop deliver r attempt k =
     (case deliver r k of
        (None, k') \<Rightarrow> (True, [], k')
      | (Some err, k') \<Rightarrow>
          if attempt < 3 then
            (let (ok, sleeps, k'') = deliver_loop deliver r (attempt + 1) k'
             in (ok, 100 * 2 ^ (attempt + 1) # sleeps, k''))
          else (False, [], k'))"
  by pat_completeness auto
termination
  by (relation "measure (\<lambda>(_, _, attempt, _). 3 - attempt)") auto

declare deliver_loop.simps [simp del]

text \<open>
  The delivery task step by step: it takes the next record from the channel, or makes the next
  attempt at the one it holds, with the attempts so far. Without a sink the record is logged and
  gone. \<open>dl_finished\<close> and \<open>dl_calls\<close> are histories: the records the task is done with and what became
  of them (accepted after a number of refusals, dropped, or only logged), and the calls of the sink
  with their outcome.
\<close>

datatype delivery_outcome = Delivered nat | Dropped | Logged

record 'k delivery =
  dl_flight :: "(SigningAuditRecord \<times> nat) option"
  dl_sink :: 'k
  dl_finished :: "(SigningAuditRecord \<times> delivery_outcome) list"
  dl_calls :: "(SigningAuditRecord \<times> bool) list"

definition delivery_start :: "'k \<Rightarrow> 'k delivery" where
  "delivery_start k = \<lparr>dl_flight = None, dl_sink = k, dl_finished = [], dl_calls = []\<rparr>"

definition delivery_step ::
  "'k sink option \<Rightarrow> SigningAuditRecord list \<Rightarrow> 'k delivery \<Rightarrow> SigningAuditRecord list \<times> 'k delivery" where
  "delivery_step sink q d =
     (case dl_flight d of
        None \<Rightarrow> (case q of [] \<Rightarrow> (q, d) | r # q' \<Rightarrow> (q', d\<lparr>dl_flight := Some (r, 0)\<rparr>))
      | Some (r, attempt) \<Rightarrow>
          (q, case sink of
                None \<Rightarrow> d\<lparr>dl_flight := None, dl_finished := dl_finished d @ [(r, Logged)]\<rparr>
              | Some deliver \<Rightarrow>
                  (case deliver r (dl_sink d) of
                     (None, k) \<Rightarrow> d\<lparr>dl_flight := None, dl_sink := k, dl_calls := dl_calls d @ [(r, True)],
                                     dl_finished := dl_finished d @ [(r, Delivered attempt)]\<rparr>
                   | (Some err, k) \<Rightarrow>
                       if attempt < 3
                       then d\<lparr>dl_flight := Some (r, attempt + 1), dl_sink := k, dl_calls := dl_calls d @ [(r, False)]\<rparr>
                       else d\<lparr>dl_flight := None, dl_sink := k, dl_calls := dl_calls d @ [(r, False)],
                              dl_finished := dl_finished d @ [(r, Dropped)]\<rparr>)))"

text \<open>
  The emitter as a concurrent system: handlers emit while the task is idle, or between two
  attempts at the record it holds. \<open>tk_offered\<close> is the history of the records passed to \<open>emit\<close>,
  each with the number of records the queue held at that time.
\<close>

record 'k task =
  tk_queue :: "SigningAuditRecord list"
  tk_delivery :: "'k delivery"
  tk_offered :: "(SigningAuditRecord \<times> nat) list"

definition task_start :: "'k \<Rightarrow> 'k task" where
  "task_start k = \<lparr>tk_queue = [], tk_delivery = delivery_start k, tk_offered = []\<rparr>"

inductive task_step :: "'k sink option \<Rightarrow> 'k task \<Rightarrow> 'k task \<Rightarrow> bool" for sink where
  task_emit:
    "task_step sink s
       (s\<lparr>tk_queue := emit r (tk_queue s), tk_offered := tk_offered s @ [(r, length (tk_queue s))]\<rparr>)"
| task_deliver:
    "delivery_step sink (tk_queue s) (tk_delivery s) = (q, d)
     \<Longrightarrow> task_step sink s (s\<lparr>tk_queue := q, tk_delivery := d\<rparr>)"

inductive task_reach :: "'k sink option \<Rightarrow> 'k \<Rightarrow> 'k task \<Rightarrow> bool" for sink k0 where
  reach_start: "task_reach sink k0 (task_start k0)"
| reach_step: "\<lbrakk>task_reach sink k0 s; task_step sink s s'\<rbrakk> \<Longrightarrow> task_reach sink k0 s'"

section \<open>Lemmas: records\<close>

lemma canonical_bytes_upd [simp]:
  "canonical_bytes S (r\<lparr>ar_node_signatures := ns\<rparr>) = canonical_bytes S r"
  by (simp add: canonical_bytes_def)

lemma audit_signer_new_key:
  "audit_signer_new X g n h = Ok sg \<Longrightarrow> length g = 32 \<Longrightarrow> length (as_key sg) = 32"
  by (auto simp: audit_signer_new_def result_simps split: option.splits if_splits)

lemma audit_record_fields:
  assumes "audit_record X S sg sid kid ch rh res dr sh w = (r, w')"
  shows "ar_signing_session_id r = sid" "ar_key_id r = kid" "ar_chain r = ch"
    "ar_request_hash r = rh" "ar_result r = res" "ar_denial_reason r = dr" "ar_signature r = sh"
    "ar_participants r = [as_node_id sg]" "ar_record_id r = shd (uuids w)"
    "ar_created_at r = fst (unix_now w)"
    "w' = w\<lparr>clock := stl (clock w), uuids := stl (uuids w)\<rparr>"
  using assms by (auto simp: audit_record_def Let_def new_v4_def unix_now_def read_clock_def)

lemma audit_record_verifies:
  assumes "hex_laws X" "ed25519_laws X" "length (as_key sg) = 32"
    and "audit_record X S sg sid kid ch rh res dr sh w = (r, w')"
  shows "audit_verify X S r"
  using assms
  by (auto simp: audit_record_def Let_def new_v4_def unix_now_def read_clock_def
      audit_verify_def node_signature_ok_def crate_laws canonical_bytes_def)

text \<open>A record without its node signatures is what they are taken over.\<close>

definition unsigned :: "SigningAuditRecord \<Rightarrow> SigningAuditRecord" where
  "unsigned r = r\<lparr>ar_node_signatures := []\<rparr>"

lemma unsigned_eqD:
  "ar_node_signatures r' = ar_node_signatures r \<Longrightarrow> unsigned r' = unsigned r \<Longrightarrow> r' = r"
  by (auto simp: unsigned_def intro!: SigningAuditRecord.equality
      dest: arg_cong[of _ _ ar_record_id] arg_cong[of _ _ ar_signing_session_id] arg_cong[of _ _ ar_key_id]
      arg_cong[of _ _ ar_chain] arg_cong[of _ _ ar_request_hash] arg_cong[of _ _ ar_participants]
      arg_cong[of _ _ ar_result] arg_cong[of _ _ ar_denial_reason] arg_cong[of _ _ ar_signature]
      arg_cong[of _ _ ar_created_at])

text \<open>A signature of one message that verifies for another.\<close>

definition ed_forgery :: "crates \<Rightarrow> bytes \<Rightarrow> bytes \<Rightarrow> bytes \<Rightarrow> bool" where
  "ed_forgery X seed m m' \<longleftrightarrow> m' \<noteq> m \<and> ed_verify X (ed_public X seed) m' (ed_sign X seed m)"

lemma audit_record_signatures:
  assumes "audit_record X S sg sid kid ch rh res dr sh w = (r, w')"
  shows "ar_node_signatures r =
    [\<lparr>ns_node_id = as_node_id sg, ns_signature = hex_encode X (ed_sign X (as_key sg) (canonical_bytes S r)),
      ns_public_key = hex_encode X (ed_public X (as_key sg))\<rparr>]"
  using assms
  by (auto simp: audit_record_def Let_def new_v4_def unix_now_def read_clock_def canonical_bytes_def)

lemma audit_verify_reuse:
  assumes "hex_laws X" "ed25519_laws X" "length (as_key sg) = 32"
    and "audit_record X S sg sid kid ch rh res dr sh w = (r, w')"
    and "ar_node_signatures r' = ar_node_signatures r"
  shows "audit_verify X S r' = ed_verify X (ed_public X (as_key sg)) (canonical_bytes S r')
    (ed_sign X (as_key sg) (canonical_bytes S r))"
  using assms(1-3,5) audit_record_signatures[OF assms(4)]
  by (simp add: audit_verify_def node_signature_ok_def crate_laws)

section \<open>Lemmas: delivery\<close>

text \<open>The sink after a number of deliveries of one record, and whether the next one succeeds.\<close>

fun sink_after :: "'k sink \<Rightarrow> SigningAuditRecord \<Rightarrow> nat \<Rightarrow> 'k \<Rightarrow> 'k" where
  "sink_after deliver r 0 k = k"
| "sink_after deliver r (Suc n) k = sink_after deliver r n (snd (deliver r k))"

definition attempt_ok :: "'k sink \<Rightarrow> SigningAuditRecord \<Rightarrow> 'k \<Rightarrow> nat \<Rightarrow> bool" where
  "attempt_ok deliver r k n \<longleftrightarrow> fst (deliver r (sink_after deliver r n k)) = None"

lemma attempt_ok_simps [simp]:
  "attempt_ok deliver r k 0 \<longleftrightarrow> fst (deliver r k) = None"
  "attempt_ok deliver r k (Suc n) \<longleftrightarrow> attempt_ok deliver r (snd (deliver r k)) n"
  by (simp_all add: attempt_ok_def)

lemma attempt_numerals [simp]:
  "attempt_ok deliver r k (numeral n) = attempt_ok deliver r (snd (deliver r k)) (pred_numeral n)"
  "attempt_ok deliver r k 1 = attempt_ok deliver r (snd (deliver r k)) 0"
  "sink_after deliver r (numeral n) k = sink_after deliver r (pred_numeral n) (snd (deliver r k))"
  "sink_after deliver r 1 k = snd (deliver r k)"
  by (simp_all add: numeral_eq_Suc attempt_ok_def)

lemma deliver_loop_ok: "attempt_ok deliver r k 0 \<Longrightarrow> deliver_loop deliver r a k = (True, [], sink_after deliver r 1 k)"
  by (subst deliver_loop.simps) (auto split: prod.splits)

lemma deliver_loop_retry:
  "\<lbrakk>\<not> attempt_ok deliver r k 0; a < 3\<rbrakk> \<Longrightarrow> deliver_loop deliver r a k =
     (let (ok, sleeps, k') = deliver_loop deliver r (a + 1) (sink_after deliver r 1 k)
      in (ok, 100 * 2 ^ (a + 1) # sleeps, k'))"
  by (subst deliver_loop.simps) (auto split: prod.splits)

lemma deliver_loop_drop:
  "\<lbrakk>\<not> attempt_ok deliver r k 0; \<not> a < 3\<rbrakk> \<Longrightarrow> deliver_loop deliver r a k = (False, [], sink_after deliver r 1 k)"
  by (subst deliver_loop.simps) (auto split: prod.splits)

section \<open>Lemmas: the emitter as a system\<close>

text \<open>What a sink answers to a row of calls, and its state afterwards.\<close>

fun sink_calls :: "'k sink \<Rightarrow> SigningAuditRecord list \<Rightarrow> 'k \<Rightarrow> bool list \<times> 'k" where
  "sink_calls deliver [] k = ([], k)"
| "sink_calls deliver (r # rs) k =
     (let (e, k1) = deliver r k; (bs, k2) = sink_calls deliver rs k1 in ((e = None) # bs, k2))"

lemma sink_calls_snoc:
  "sink_calls deliver (rs @ [r]) k =
     (let (bs, k1) = sink_calls deliver rs k; (e, k2) = deliver r k1 in (bs @ [e = None], k2))"
  by (induction rs arbitrary: k) (simp_all add: case_prod_unfold Let_def)

text \<open>The calls a finished record stands for.\<close>

fun calls_of :: "SigningAuditRecord \<times> delivery_outcome \<Rightarrow> (SigningAuditRecord \<times> bool) list" where
  "calls_of (r, Delivered n) = replicate n (r, False) @ [(r, True)]"
| "calls_of (r, Dropped) = replicate 4 (r, False)"
| "calls_of (r, Logged) = []"

fun outcome_fits :: "'k sink option \<Rightarrow> delivery_outcome \<Rightarrow> bool" where
  "outcome_fits sink (Delivered n) \<longleftrightarrow> sink \<noteq> None \<and> n \<le> 3"
| "outcome_fits sink Dropped \<longleftrightarrow> sink \<noteq> None"
| "outcome_fits sink Logged \<longleftrightarrow> sink = None"

definition in_flight :: "'k delivery \<Rightarrow> SigningAuditRecord list" where
  "in_flight d = (case dl_flight d of None \<Rightarrow> [] | Some (r, n) \<Rightarrow> [r])"

definition delivery_inv :: "'k sink option \<Rightarrow> 'k \<Rightarrow> 'k delivery \<Rightarrow> bool" where
  "delivery_inv sink k0 d \<longleftrightarrow>
     (\<forall>r n. dl_flight d = Some (r, n) \<longrightarrow> n \<le> 3 \<and> (sink = None \<longrightarrow> n = 0)) \<and>
     (\<forall>(r, oc) \<in> set (dl_finished d). outcome_fits sink oc) \<and>
     dl_calls d = concat (map calls_of (dl_finished d)) @
       (case dl_flight d of None \<Rightarrow> [] | Some (r, n) \<Rightarrow> replicate n (r, False)) \<and>
     (case sink of None \<Rightarrow> dl_sink d = k0
      | Some deliver \<Rightarrow> sink_calls deliver (map fst (dl_calls d)) k0 = (map snd (dl_calls d), dl_sink d))"

lemma delivery_step_inv:
  assumes step: "delivery_step sink q d = (q', d')" and inv: "delivery_inv sink k0 d"
  shows "delivery_inv sink k0 d' \<and>
    map fst (dl_finished d') @ in_flight d' @ q' = map fst (dl_finished d) @ in_flight d @ q"
proof (cases "dl_flight d")
  case None
  with step inv show ?thesis
    by (cases q) (auto simp: delivery_step_def delivery_inv_def in_flight_def split: option.splits)
next
  case (Some f)
  obtain r n where f: "dl_flight d = Some (r, n)" using Some by (cases f) auto
  show ?thesis
  proof (cases sink)
    case None
    with step inv f show ?thesis
      by (auto simp: delivery_step_def delivery_inv_def in_flight_def)
  next
    case (Some deliver)
    obtain e k where e: "deliver r (dl_sink d) = (e, k)" by fastforce
    have n: "n \<le> 3" and fits: "\<forall>(r, oc) \<in> set (dl_finished d). outcome_fits sink oc"
      and calls: "dl_calls d = concat (map calls_of (dl_finished d)) @ replicate n (r, False)"
      and replay: "sink_calls deliver (map fst (dl_calls d)) k0 = (map snd (dl_calls d), dl_sink d)"
      using inv f unfolding Some delivery_inv_def option.case by auto
    have d': "q' = q" "dl_sink d' = k" "dl_calls d' = dl_calls d @ [(r, e = None)]"
      using step f Some e by (auto simp: delivery_step_def split: option.splits if_splits)
    have replay': "sink_calls deliver (map fst (dl_calls d')) k0 = (map snd (dl_calls d'), dl_sink d')"
      unfolding d' by (simp add: replay sink_calls_snoc e)
    consider (ok) "e = None" "dl_flight d' = None" "dl_finished d' = dl_finished d @ [(r, Delivered n)]"
      | (retry) "e \<noteq> None" "n < 3" "dl_flight d' = Some (r, Suc n)" "dl_finished d' = dl_finished d"
      | (drop) "e \<noteq> None" "n = 3" "dl_flight d' = None" "dl_finished d' = dl_finished d @ [(r, Dropped)]"
      using step f Some e n by (cases e; cases "n < 3") (auto simp: delivery_step_def)
    thus ?thesis
    proof cases
      case drop
      have "replicate n (r, False) @ [(r, False)] = replicate 4 (r, False)"
        by (simp add: drop(2) numeral_eq_Suc)
      with drop replay' fits f Some calls d'(1,3) show ?thesis
        unfolding delivery_inv_def by (auto simp: in_flight_def)
    qed (use replay' fits f Some n calls d'(1,3) in
        \<open>auto simp: delivery_inv_def in_flight_def replicate_append_same\<close>)
  qed
qed

definition task_inv :: "'k sink option \<Rightarrow> 'k \<Rightarrow> 'k task \<Rightarrow> bool" where
  "task_inv sink k0 s \<longleftrightarrow>
     length (tk_queue s) \<le> audit_capacity \<and> delivery_inv sink k0 (tk_delivery s) \<and>
     map fst (filter (\<lambda>(r, held). held < audit_capacity) (tk_offered s)) =
       map fst (dl_finished (tk_delivery s)) @ in_flight (tk_delivery s) @ tk_queue s"

lemma delivery_step_queue: "delivery_step sink q d = (q', d') \<Longrightarrow> length q' \<le> length q"
  by (auto simp: delivery_step_def split: option.splits list.splits)

lemma task_inv_step:
  assumes "task_step sink s s'" and "task_inv sink k0 s"
  shows "task_inv sink k0 s'"
  using assms
proof cases
  case (task_emit r)
  with assms(2) show ?thesis by (auto simp: task_inv_def emit_def)
next
  case (task_deliver q d)
  with assms(2) delivery_step_inv[OF task_deliver(2)] delivery_step_queue[OF task_deliver(2)]
  show ?thesis by (auto simp: task_inv_def)
qed

lemma task_reach_inv: "task_reach sink k0 s \<Longrightarrow> task_inv sink k0 s"
proof (induction rule: task_reach.induct)
  case reach_start
  show ?case
    by (auto simp: task_start_def delivery_start_def task_inv_def delivery_inv_def in_flight_def split: option.split)
qed (rule task_inv_step)

text \<open>Work left for the task: four attempts and a receive for every queued record.\<close>

definition task_work :: "'k task \<Rightarrow> nat" where
  "task_work s = 5 * length (tk_queue s) +
     (case dl_flight (tk_delivery s) of None \<Rightarrow> 0 | Some (r, n) \<Rightarrow> 4 - n)"

lemma task_progress:
  assumes inv: "task_inv sink k0 s" and w: "0 < task_work s"
  shows "\<exists>s'. task_step sink s s' \<and> task_work s' < task_work s \<and> tk_offered s' = tk_offered s"
proof -
  obtain q d where d: "delivery_step sink (tk_queue s) (tk_delivery s) = (q, d)" by fastforce
  have "dl_flight (tk_delivery s) = Some (r, n) \<Longrightarrow> n \<le> 3" for r n
    using inv by (simp add: task_inv_def delivery_inv_def)
  hence "task_work (s\<lparr>tk_queue := q, tk_delivery := d\<rparr>) < task_work s"
    using w d by (cases "dl_flight (tk_delivery s)"; cases "tk_queue s")
      (force simp: task_work_def delivery_step_def split: option.splits prod.splits if_splits)+
  with task_deliver[OF d] show ?thesis by (metis task.select_convs(3) task.surjective task.update_convs(1,2))
qed

lemma task_drains:
  "task_reach sink k0 s \<Longrightarrow>
    \<exists>s'. task_reach sink k0 s' \<and> task_work s' = 0 \<and> tk_offered s' = tk_offered s"
proof (induction "task_work s" arbitrary: s rule: less_induct)
  case less
  show ?case
  proof (cases "task_work s = 0")
    case False
    then obtain s' where s': "task_step sink s s'" "task_work s' < task_work s" "tk_offered s' = tk_offered s"
      using task_progress[OF task_reach_inv[OF less.prems]] by blast
    with less.hyps[OF s'(2) reach_step[OF less.prems s'(1)]] show ?thesis by simp
  qed (use less.prems in blast)
qed

text \<open>Taken on its own, the task treats the record it holds as the retry loop does.\<close>

abbreviation delivery_steps :: "'k sink \<Rightarrow> nat \<Rightarrow> SigningAuditRecord list \<times> 'k delivery \<Rightarrow> SigningAuditRecord list \<times> 'k delivery" where
  "delivery_steps deliver j \<equiv> (\<lambda>(q, d). delivery_step (Some deliver) q d) ^^ j"

lemma task_runs_loop:
  assumes "dl_flight d = Some (r, attempt)" and "deliver_loop deliver r attempt (dl_sink d) = (ok, sleeps, k')"
  shows "\<exists>j oc d'. delivery_steps deliver j (q, d) = (q, d') \<and> dl_flight d' = None \<and> dl_sink d' = k' \<and>
    dl_finished d' = dl_finished d @ [(r, oc)] \<and> (ok \<longleftrightarrow> oc \<noteq> Dropped)"
  using assms
proof (induction "3 - attempt" arbitrary: attempt d sleeps)
  case 0
  thus ?case
    by (subst (asm) deliver_loop.simps, intro exI[of _ 1])
      (auto simp: delivery_step_def split: prod.splits option.splits)
next
  case (Suc m)
  obtain e k1 where e: "deliver r (dl_sink d) = (e, k1)" by fastforce
  show ?case
  proof (cases e)
    case None
    with Suc.prems e show ?thesis
      by (subst (asm) deliver_loop.simps, intro exI[of _ 1]) (auto simp: delivery_step_def)
  next
    case (Some err)
    let ?d = "d\<lparr>dl_flight := Some (r, attempt + 1), dl_sink := k1, dl_calls := dl_calls d @ [(r, False)]\<rparr>"
    have lt: "attempt < 3" using Suc.hyps(2) by simp
    obtain sl where "deliver_loop deliver r (attempt + 1) k1 = (ok, sl, k')"
      using Suc.prems(2) e Some lt by (subst (asm) deliver_loop.simps) (auto split: prod.splits)
    moreover have "m = 3 - (attempt + 1)" using Suc.hyps(2) by simp
    ultimately obtain j oc d'
      where "delivery_steps deliver j (q, ?d) = (q, d')" "dl_flight d' = None" "dl_sink d' = k'"
        "dl_finished d' = dl_finished d @ [(r, oc)]" "ok \<longleftrightarrow> oc \<noteq> Dropped"
      using Suc.hyps(1)[of "attempt + 1" ?d sl] by auto
    moreover have "delivery_steps deliver (Suc j) (q, d) = delivery_steps deliver j (q, ?d)"
      using Suc.prems(1) e Some lt by (simp add: delivery_step_def funpow_swap1)
    ultimately show ?thesis by metis
  qed
qed

section \<open>A concrete instance\<close>

definition demo_record :: SigningAuditRecord where
  "demo_record = \<lparr>ar_record_id = ''r'', ar_signing_session_id = ''s'', ar_key_id = ''k'',
     ar_chain = Evm, ar_request_hash = ''h'', ar_participants = [''node-0''],
     ar_result = Audit_Signed, ar_denial_reason = None, ar_signature = Some ''00'',
     ar_created_at = 1, ar_node_signatures = []\<rparr>"

definition demo_audit_serde :: "SigningAuditRecord serde" where
  "demo_audit_serde = \<lparr>to_vec = (\<lambda>r. as_bytes (ar_request_hash r)),
     from_slice = (\<lambda>b. Some (demo_record\<lparr>ar_request_hash := map (\<lambda>x. char_of (unat x)) b\<rparr>)),
     de_error = (\<lambda>b. [])\<rparr>"

definition demo_signer :: AuditSigner where
  "demo_signer = \<lparr>as_node_id = ''node-0'', as_key = replicate 32 7\<rparr>"

text \<open>A sink that fails a given number of times and then accepts.\<close>

fun flaky_sink :: "nat sink" where
  "flaky_sink r 0 = (None, 0)"
| "flaky_sink r (Suc n) = (Some ''down'', n)"

section \<open>Properties\<close>

text \<open>
  (C24) A record built by a signer that \<open>AuditSigner::new\<close> accepted verifies, and its fields are exactly
  those of the attempt. It is tamper evident: a record \<open>r'\<close> with the same node signatures but any
  other field changed verifies exactly if the node's signature over the JSON of the one record,
  without its node signatures, is also one over the JSON of the other, an Ed25519 forgery; and
  without its signatures the record does not verify. \<open>serde_json\<close> is relied on to read both records,
  without node signatures, back from what it wrote.
\<close>
theorem audit_record_tamper_evident:
  assumes "hex_laws X" and "ed25519_laws X" and "length generated = 32"
    and "audit_signer_new X generated node_id seed_hex = Ok sg"
    and "audit_record X S sg sid kid ch rh res dr sh w = (r, w')"
    and "ar_node_signatures r' = ar_node_signatures r" and "r' \<noteq> r"
    and "from_slice S (to_vec S (unsigned r)) = Some (unsigned r)"
    and "from_slice S (to_vec S (unsigned r')) = Some (unsigned r')"
  shows "audit_verify X S r \<and> ar_participants r = [node_id] \<and>
    ar_signing_session_id r = sid \<and> ar_key_id r = kid \<and> ar_chain r = ch \<and>
    ar_request_hash r = rh \<and> ar_result r = res \<and> ar_denial_reason r = dr \<and> ar_signature r = sh \<and>
    audit_verify X S r' = ed_forgery X (as_key sg) (to_vec S (unsigned r)) (to_vec S (unsigned r')) \<and>
    \<not> audit_verify X S (unsigned r)"
proof -
  have key: "length (as_key sg) = 32" and "as_node_id sg = node_id"
    using assms(3,4) audit_signer_new_key
    by (auto simp: audit_signer_new_def result_simps split: option.splits if_splits)
  moreover have "unsigned r' \<noteq> unsigned r" using unsigned_eqD[OF assms(6)] assms(7) by blast
  hence "to_vec S (unsigned r') \<noteq> to_vec S (unsigned r)" using assms(8,9) by auto
  ultimately show ?thesis
    using audit_record_fields[OF assms(5)] audit_record_verifies[OF assms(1,2) _ assms(5)]
      audit_verify_reuse[OF assms(1,2) key assms(5,6)]
    by (simp add: audit_verify_def ed_forgery_def unsigned_def canonical_bytes_def)
qed

theorem audit_record_tamper_evident_witness:
  "let w = \<lparr>clock = sconst (Some 1), uuids = sconst ''r''\<rparr>;
       r = fst (audit_record demo_crates demo_audit_serde demo_signer
                  ''s'' ''k'' Evm ''h'' Audit_Signed None (Some ''00'') w)
   in audit_verify demo_crates demo_audit_serde r \<and>
      \<not> audit_verify demo_crates demo_audit_serde (r\<lparr>ar_request_hash := ''x''\<rparr>)"
proof -
  define w where "w = \<lparr>clock = sconst (Some (1 :: u64)), uuids = sconst ''r''\<rparr>"
  obtain r w' where run: "audit_record demo_crates demo_audit_serde demo_signer
      ''s'' ''k'' Evm ''h'' Audit_Signed None (Some ''00'') w = (r, w')" by fastforce
  let ?r' = "r\<lparr>ar_request_hash := ''x''\<rparr>"
  have u: "unsigned r = demo_record"
    using run by (auto simp: w_def audit_record_def new_v4_def unix_now_def read_clock_def Let_def
        unsigned_def demo_record_def demo_signer_def)
  hence u': "unsigned ?r' = demo_record\<lparr>ar_request_hash := ''x''\<rparr>"
    unfolding u[symmetric] unsigned_def by simp
  have cb: "to_vec demo_audit_serde (unsigned r) = [104]" "to_vec demo_audit_serde (unsigned ?r') = [120]"
    using u u' by (simp_all add: demo_audit_serde_def as_bytes_def demo_record_def)
  have new: "audit_signer_new demo_crates (replicate 32 7) ''node-0'' None = Ok demo_signer"
    by (simp add: audit_signer_new_def demo_signer_def)
  have ne: "?r' \<noteq> r" using cb by auto
  have rd: "from_slice demo_audit_serde (to_vec demo_audit_serde (unsigned r)) = Some (unsigned r)"
    "from_slice demo_audit_serde (to_vec demo_audit_serde (unsigned ?r')) = Some (unsigned ?r')"
    unfolding cb unfolding u u' by (simp_all add: demo_audit_serde_def demo_record_def char_of_def bit_Suc_0_iff)
  have "length (replicate 32 (7 :: u8)) = 32" and "ar_node_signatures ?r' = ar_node_signatures r"
    by simp_all
  from audit_record_tamper_evident[OF demo_hex demo_ed25519 this(1) new run this(2) ne rd]
  have "audit_verify demo_crates demo_audit_serde r \<and>
      audit_verify demo_crates demo_audit_serde ?r' = ed_forgery demo_crates (as_key demo_signer) [104] [120]"
    unfolding cb by blast
  moreover have "\<not> ed_forgery demo_crates (as_key demo_signer) [104] [120]"
    by (simp add: ed_forgery_def demo_crates_def pad_to_def)
  ultimately show ?thesis unfolding w_def[symmetric] Let_def run fst_conv by blast
qed

text \<open>
  (C26) The delivery task tries a record at most four times and stops at the first success. Either
  one of the first four attempts is accepted: then the sink was called exactly up to that one, and
  the pauses between the attempts were an initial part of 200, 400 and 800 milliseconds; or all
  four are refused, with all three pauses, and the record is given up. The sink is left in the
  state after exactly these calls.
\<close>
theorem delivery_bounded_retries:
  "(\<exists>m \<le> 3. attempt_ok deliver r k m \<and> (\<forall>i < m. \<not> attempt_ok deliver r k i) \<and>
      deliver_loop deliver r 0 k = (True, take m [200, 400, 800], sink_after deliver r (Suc m) k)) \<or>
   (\<forall>i < 4. \<not> attempt_ok deliver r k i) \<and>
      deliver_loop deliver r 0 k = (False, [200, 400, 800], sink_after deliver r 4 k)"
proof -
  let ?ok = "attempt_ok deliver r k"
  have upto: "(\<forall>i < 1. P i) = P 0" "(\<forall>i < 2. P i) = (P 0 \<and> P 1)" "(\<forall>i < 3. P i) = (P 0 \<and> P 1 \<and> P 2)"
    "(\<forall>i < 4. P i) = (P 0 \<and> P 1 \<and> P 2 \<and> P 3)" for P :: "nat \<Rightarrow> bool"
    by (auto simp: less_Suc_eq eval_nat_numeral)
  note loop = deliver_loop_ok deliver_loop_retry deliver_loop_drop
  consider "?ok 0" | "\<not> ?ok 0" "?ok 1" | "\<not> ?ok 0" "\<not> ?ok 1" "?ok 2"
    | "\<not> ?ok 0" "\<not> ?ok 1" "\<not> ?ok 2" "?ok 3" | "\<not> ?ok 0" "\<not> ?ok 1" "\<not> ?ok 2" "\<not> ?ok 3" by blast
  thus ?thesis
  proof cases
    case 1
    thus ?thesis by (intro disjI1 exI[of _ 0]) (simp add: loop)
  next
    case 2
    thus ?thesis by (intro disjI1 exI[of _ 1]) (simp add: loop upto)
  next
    case 3
    thus ?thesis by (intro disjI1 exI[of _ 2]) (simp add: loop upto)
  next
    case 4
    thus ?thesis by (intro disjI1 exI[of _ 3]) (simp add: loop upto)
  next
    case 5
    thus ?thesis by (intro disjI2) (simp add: loop upto)
  qed
qed

theorem delivery_bounded_retries_witness:
  "deliver_loop flaky_sink demo_record 0 2 = (True, [200, 400], sink_after flaky_sink demo_record 3 2)"
proof -
  have ok: "\<not> attempt_ok flaky_sink demo_record 2 0" "\<not> attempt_ok flaky_sink demo_record 2 1"
    "attempt_ok flaky_sink demo_record 2 2" by (simp_all add: numeral_2_eq_2)
  have "\<not> (\<forall>i < 4. \<not> attempt_ok flaky_sink demo_record 2 i)" using ok(3) by (metis numeral_less_iff semiring_norm(76,78))
  with delivery_bounded_retries[of flaky_sink demo_record 2]
  obtain m where m: "attempt_ok flaky_sink demo_record 2 m" "\<forall>i < m. \<not> attempt_ok flaky_sink demo_record 2 i"
    "deliver_loop flaky_sink demo_record 0 2 = (True, take m [200, 400, 800], sink_after flaky_sink demo_record (Suc m) 2)"
    by blast
  have "m = 2"
  proof (rule linorder_cases[of m 2])
    assume "m < 2"
    hence "m = 0 \<or> m = 1" by auto
    thus ?thesis using m(1) ok(1,2) by blast
  qed (use m(2) ok(3) in auto)
  with m(3) show ?thesis by simp
qed

text \<open>
  (C25) The emitter under every interleaving of handlers and delivery task, with a sink or without. The
  records it took are exactly those offered while the queue held fewer than 1024, in the order in
  which they were offered: each of them is, once, finished, in flight or still queued, in that
  order, so only a record offered to a full queue is refused. What became of a finished record is
  what the sink said: without a sink it was only logged; with one, the calls of the sink were, record
  by record and in order, at most three refusals and an acceptance for a delivered record, four
  refusals for a dropped one, and the refusals so far for the one in flight, and no others.
\<close>
theorem emitter_fifo:
  assumes "task_reach sink k0 s" and "d = tk_delivery s"
  shows "length (tk_queue s) \<le> 1024 \<and>
    map fst (filter (\<lambda>(r, held). held < 1024) (tk_offered s)) =
      map fst (dl_finished d) @ (case dl_flight d of None \<Rightarrow> [] | Some (r, n) \<Rightarrow> [r]) @ tk_queue s \<and>
    dl_calls d = concat (map calls_of (dl_finished d)) @
      (case dl_flight d of None \<Rightarrow> [] | Some (r, n) \<Rightarrow> replicate n (r, False)) \<and>
    (\<forall>(r, oc) \<in> set (dl_finished d). outcome_fits sink oc) \<and>
    (\<forall>deliver. sink = Some deliver \<longrightarrow>
      sink_calls deliver (map fst (dl_calls d)) k0 = (map snd (dl_calls d), dl_sink d))"
  using task_reach_inv[OF assms(1)] assms(2)
  unfolding task_inv_def delivery_inv_def in_flight_def audit_capacity_def by (auto split: option.splits)

lemma demo_task_reach:
  "task_reach (Some flaky_sink) 1
     \<lparr>tk_queue = [], tk_delivery = \<lparr>dl_flight = Some (demo_record, 1), dl_sink = 0, dl_finished = [],
        dl_calls = [(demo_record, False)]\<rparr>, tk_offered = [(demo_record, 0)]\<rparr>"
proof -
  have 1: "task_reach (Some flaky_sink) 1 (task_start 1)" by (rule reach_start)
  note 2 = reach_step[OF 1 task_emit[of "Some flaky_sink" _ demo_record]]
  note 3 = reach_step[OF 2 task_deliver[OF surjective_pairing]]
  note 4 = reach_step[OF 3 task_deliver[OF surjective_pairing]]
  show ?thesis using 4
    by (simp add: task_start_def delivery_start_def emit_def audit_capacity_def delivery_step_def)
qed

theorem emitter_fifo_witness:
  "\<exists>s. task_reach (Some flaky_sink) 1 s \<and> dl_flight (tk_delivery s) = Some (demo_record, 1) \<and>
     map fst (filter (\<lambda>(r, held). held < 1024) (tk_offered s)) = [demo_record] \<and>
     dl_calls (tk_delivery s) = [(demo_record, False)]"
  using emitter_fifo[OF demo_task_reach refl] demo_task_reach by fastforce

text \<open>
  Liveness of the emitter: from every reachable state, without further requests, the task
  can finish every record it took, in order, whatever the sink answers.
\<close>
theorem emitter_drains:
  assumes "task_reach sink k0 s"
  shows "\<exists>s'. task_reach sink k0 s' \<and> tk_queue s' = [] \<and> dl_flight (tk_delivery s') = None \<and>
    tk_offered s' = tk_offered s \<and>
    map fst (dl_finished (tk_delivery s')) = map fst (filter (\<lambda>(r, held). held < 1024) (tk_offered s))"
proof -
  obtain s' where s': "task_reach sink k0 s'" "task_work s' = 0" "tk_offered s' = tk_offered s"
    using task_drains[OF assms] by blast
  have inv: "task_inv sink k0 s'" by (rule task_reach_inv[OF s'(1)])
  hence q: "tk_queue s' = []" and f: "dl_flight (tk_delivery s') = None"
    using s'(2) by (fastforce simp: task_work_def task_inv_def delivery_inv_def split: option.splits)+
  with s' inv show ?thesis by (auto simp: task_inv_def in_flight_def audit_capacity_def)
qed

theorem emitter_drains_witness:
  "\<exists>s'. task_reach (Some flaky_sink) 1 s' \<and> tk_queue s' = [] \<and>
     map fst (dl_finished (tk_delivery s')) = [demo_record]"
  using emitter_drains[OF demo_task_reach] by auto

end
