(* ===== verification/Curve.thy ===== *)
theory Curve
  imports Domain
begin

text \<open>
  \<open>src/engine/threshold/curve.rs\<close>: the \<open>Curve\<close> trait as a record of operations, and its two
  implementations. Scalars are the elements of a field; points are the elements of an abelian
  group. The functions of k256 and curve25519-dalek are parameters with their documented laws.
\<close>

section \<open>The trait\<close>

text \<open>
  Randomness drawn from \<open>OsRng\<close> is a stream of scalars; \<open>scalar_random\<close> takes the next one.
  \<open>curve_sign\<close> may draw from it (the Ed25519 nonce) and may panic (secp256k1's \<open>expect\<close>).
\<close>

type_synonym 's rng = "'s stream"

record 's curve =
  curve_name :: string
  scalar_zero :: 's
  scalar_one :: 's
  scalar_from_u64 :: "u64 \<Rightarrow> 's"
  scalar_add :: "'s \<Rightarrow> 's \<Rightarrow> 's"
  scalar_sub :: "'s \<Rightarrow> 's \<Rightarrow> 's"
  scalar_mul :: "'s \<Rightarrow> 's \<Rightarrow> 's"
  scalar_invert :: "'s \<Rightarrow> 's option"
  scalar_to_bytes :: "'s \<Rightarrow> bytes"
  scalar_from_bytes :: "bytes \<Rightarrow> 's option"
  public_from_scalar :: "'s \<Rightarrow> bytes"
  aggregate_public :: "bytes list \<Rightarrow> bytes option"
  curve_sign :: "'s \<Rightarrow> bytes \<Rightarrow> 's rng \<Rightarrow> (bytes, unit) result \<times> 's rng"
  curve_verify :: "bytes \<Rightarrow> bytes \<Rightarrow> bytes \<Rightarrow> bool"

definition scalar_random :: "'s rng \<Rightarrow> 's \<times> 's rng" where
  "scalar_random g = (shd g, stl g)"

lemma scalar_random_simps [simp]: "fst (scalar_random g) = shd g" "snd (scalar_random g) = stl g"
  by (simp_all add: scalar_random_def)

section \<open>secp256k1\<close>

text \<open>
  The functions of k256: scalars, the projective point group, SEC1 encoding, and ECDSA. The
  operators on scalars and points are those of the field and of the group.
\<close>

record ('s, 'p) k256 =
  k_from_u64 :: "u64 \<Rightarrow> 's"
  k_invert :: "'s \<Rightarrow> 's option"
  k_to_repr :: "'s \<Rightarrow> bytes"
  k_from_repr :: "bytes \<Rightarrow> 's option"
  k_base_mul :: "'s \<Rightarrow> 'p"
  k_encode :: "'p \<Rightarrow> bytes"
  k_public_from_sec1 :: "bytes \<Rightarrow> 'p option"
  k_signing_key_ok :: "bytes \<Rightarrow> bool"
  k_ecdsa_sign :: "bytes \<Rightarrow> bytes \<Rightarrow> bytes"
  k_vk_from_sec1_ok :: "bytes \<Rightarrow> bool"
  k_sig_from_slice_ok :: "bytes \<Rightarrow> bool"
  k_ecdsa_verify :: "bytes \<Rightarrow> bytes \<Rightarrow> bytes \<Rightarrow> bool"

definition secp_scalar_from_bytes :: "('s, 'p) k256 \<Rightarrow> bytes \<Rightarrow> 's option" where
  "secp_scalar_from_bytes K b = (if length b = 32 then k_from_repr K b else None)"

definition secp_public_from_scalar :: "('s, 'p) k256 \<Rightarrow> 's \<Rightarrow> bytes" where
  "secp_public_from_scalar K secret = k_encode K (k_base_mul K secret)"

text \<open>Both implementations sum the decoded points and stop at the first one that fails.\<close>

fun sum_points :: "(bytes \<Rightarrow> 'p option) \<Rightarrow> 'p :: ab_group_add \<Rightarrow> bytes list \<Rightarrow> 'p option" where
  "sum_points dec acc [] = Some acc"
| "sum_points dec acc (b # bs) =
     (case dec b of None \<Rightarrow> None | Some p \<Rightarrow> sum_points dec (acc + p) bs)"

definition secp_aggregate_public :: "('s, 'p :: ab_group_add) k256 \<Rightarrow> bytes list \<Rightarrow> bytes option" where
  "secp_aggregate_public K points =
     map_option (k_encode K) (sum_points (k_public_from_sec1 K) 0 points)"

definition secp_sign ::
  "('s, 'p) k256 \<Rightarrow> 's \<Rightarrow> bytes \<Rightarrow> 's rng \<Rightarrow> (bytes, unit) result \<times> 's rng" where
  "secp_sign K secret msg g =
     (if k_signing_key_ok K (k_to_repr K secret)
      then (Ok (k_ecdsa_sign K (k_to_repr K secret) msg), g)
      else (Panic, g))"

definition secp_verify :: "('s, 'p) k256 \<Rightarrow> bytes \<Rightarrow> bytes \<Rightarrow> bytes \<Rightarrow> bool" where
  "secp_verify K public_key msg sig =
     (if \<not> k_vk_from_sec1_ok K public_key then False
      else if \<not> k_sig_from_slice_ok K sig then False
      else k_ecdsa_verify K public_key msg sig)"

definition Secp256k1 :: "('s :: field, 'p :: ab_group_add) k256 \<Rightarrow> 's curve" where
  "Secp256k1 K = \<lparr>curve_name = ''secp256k1'', scalar_zero = 0, scalar_one = 1,
     scalar_from_u64 = k_from_u64 K, scalar_add = (+), scalar_sub = (-), scalar_mul = (*),
     scalar_invert = k_invert K, scalar_to_bytes = k_to_repr K,
     scalar_from_bytes = secp_scalar_from_bytes K,
     public_from_scalar = secp_public_from_scalar K,
     aggregate_public = secp_aggregate_public K, curve_sign = secp_sign K,
     curve_verify = secp_verify K\<rparr>"

text \<open>
  Documented behaviour of k256: \<open>invert\<close> fails exactly at zero, \<open>from(u64)\<close> is the canonical
  embedding, representations round-trip, the generator has the order of the scalar field, SEC1
  public keys exclude the identity, a signing key is any non-zero scalar, and ECDSA signatures
  verify under the signer's public key.
\<close>

definition k256_laws :: "('s :: field, 'p :: ab_group_add) k256 \<Rightarrow> bool" where
  "k256_laws K \<longleftrightarrow>
     (\<forall>n. k_from_u64 K n = of_nat (unat n)) \<and>
     (\<forall>a. k_invert K a = (if a = 0 then None else Some (inverse a))) \<and>
     (\<forall>a. length (k_to_repr K a) = 32 \<and> k_from_repr K (k_to_repr K a) = Some a) \<and>
     (\<forall>a b. k_base_mul K (a + b) = k_base_mul K a + k_base_mul K b) \<and>
     (\<forall>a. k_base_mul K a = 0 \<longleftrightarrow> a = 0) \<and>
     (\<forall>p. k_public_from_sec1 K (k_encode K p) = (if p = 0 then None else Some p)) \<and>
     (\<forall>a. k_signing_key_ok K (k_to_repr K a) \<longleftrightarrow> a \<noteq> 0) \<and>
     (\<forall>a. a \<noteq> 0 \<longrightarrow> k_vk_from_sec1_ok K (k_encode K (k_base_mul K a)) \<and>
        (\<forall>m. k_sig_from_slice_ok K (k_ecdsa_sign K (k_to_repr K a) m) \<and>
             k_ecdsa_verify K (k_encode K (k_base_mul K a)) m (k_ecdsa_sign K (k_to_repr K a) m)))"

section \<open>edwards25519\<close>

record ('s, 'p) dalek =
  d_from_u64 :: "u64 \<Rightarrow> 's"
  d_invert :: "'s \<Rightarrow> 's"
  d_to_bytes :: "'s \<Rightarrow> bytes"
  d_from_bytes_mod_order :: "bytes \<Rightarrow> 's"
  d_from_bytes_mod_order_wide :: "bytes \<Rightarrow> 's"
  d_base_mul :: "'s \<Rightarrow> 'p"
  d_compress :: "'p \<Rightarrow> bytes"
  d_decompress :: "bytes \<Rightarrow> 'p option"
  d_sha512 :: "bytes \<Rightarrow> bytes"

definition ed_scalar_from_bytes :: "('s, 'p) dalek \<Rightarrow> bytes \<Rightarrow> 's option" where
  "ed_scalar_from_bytes D b = (if length b = 32 then Some (d_from_bytes_mod_order D b) else None)"

definition ed_public_from_scalar :: "('s, 'p) dalek \<Rightarrow> 's \<Rightarrow> bytes" where
  "ed_public_from_scalar D secret = d_compress D (d_base_mul D secret)"

definition ed_decode_point :: "('s, 'p) dalek \<Rightarrow> bytes \<Rightarrow> 'p option" where
  "ed_decode_point D b = (if length b = 32 then d_decompress D b else None)"

definition ed_aggregate_public :: "('s, 'p :: ab_group_add) dalek \<Rightarrow> bytes list \<Rightarrow> bytes option" where
  "ed_aggregate_public D points = map_option (d_compress D) (sum_points (ed_decode_point D) 0 points)"

definition ed_curve_sign ::
  "('s :: field, 'p) dalek \<Rightarrow> 's \<Rightarrow> bytes \<Rightarrow> 's rng \<Rightarrow> (bytes, unit) result \<times> 's rng" where
  "ed_curve_sign D secret msg g =
     (let a_bytes = d_compress D (d_base_mul D secret);
          (r, g') = scalar_random g;
          r_point = d_compress D (d_base_mul D r);
          wide = d_sha512 D (r_point @ a_bytes @ msg);
          k = d_from_bytes_mod_order_wide D wide;
          s = r + k * secret
      in (Ok (r_point @ d_to_bytes D s), g'))"

definition ed_curve_verify :: "crates \<Rightarrow> bytes \<Rightarrow> bytes \<Rightarrow> bytes \<Rightarrow> bool" where
  "ed_curve_verify X public_key msg sig =
     (if length public_key \<noteq> 32 then False
      else if length sig \<noteq> 64 then False
      else if \<not> vk_valid X public_key then False
      else ed_verify X public_key msg sig)"

type_synonym ('s, 'p) ed_env = "crates \<times> ('s, 'p) dalek"

definition Ed25519 :: "('s :: field, 'p :: ab_group_add) ed_env \<Rightarrow> 's curve" where
  "Ed25519 XD = (case XD of (X, D) \<Rightarrow> \<lparr>curve_name = ''ed25519'', scalar_zero = 0, scalar_one = 1,
     scalar_from_u64 = d_from_u64 D, scalar_add = (+), scalar_sub = (-), scalar_mul = (*),
     scalar_invert = (\<lambda>a. Some (d_invert D a)), scalar_to_bytes = d_to_bytes D,
     scalar_from_bytes = ed_scalar_from_bytes D,
     public_from_scalar = ed_public_from_scalar D,
     aggregate_public = ed_aggregate_public D, curve_sign = ed_curve_sign D,
     curve_verify = ed_curve_verify X\<rparr>)"

text \<open>
  Documented behaviour of curve25519-dalek and ed25519-dalek: \<open>invert\<close> is the field inverse and
  sends zero to zero, point compression round-trips on 32 bytes, and the verifier accepts a key
  \<open>A = a B\<close> and a signature \<open>(R, s)\<close> exactly when \<open>R\<close> encodes \<open>s B - k A\<close>, where \<open>k\<close> is the
  hash of \<open>R\<close>, \<open>A\<close> and the message reduced modulo the group order (RFC 8032, 5.1.7).
\<close>

definition dalek_laws :: "('s :: field, 'p :: ab_group_add) ed_env \<Rightarrow> bool" where
  "dalek_laws XD \<longleftrightarrow> (case XD of (X, D) \<Rightarrow>
     (\<forall>n. d_from_u64 D n = of_nat (unat n)) \<and>
     (\<forall>a. d_invert D a = inverse a) \<and>
     (\<forall>a. length (d_to_bytes D a) = 32 \<and> d_from_bytes_mod_order D (d_to_bytes D a) = a) \<and>
     (\<forall>a b. d_base_mul D (a + b) = d_base_mul D a + d_base_mul D b) \<and>
     (\<forall>p. length (d_compress D p) = 32 \<and> d_decompress D (d_compress D p) = Some p) \<and>
     (\<forall>a. vk_valid X (d_compress D (d_base_mul D a))) \<and>
     (\<forall>a m R s. length R = 32 \<longrightarrow>
        ed_verify X (d_compress D (d_base_mul D a)) m (R @ d_to_bytes D s) =
          (let k = d_from_bytes_mod_order_wide D
                     (d_sha512 D (R @ d_compress D (d_base_mul D a) @ m))
           in d_compress D (d_base_mul D (s - k * a)) = R)))"

section \<open>The contract of a curve\<close>

text \<open>
  What sharing and the cluster rely on. A provider is a family of curves indexed by the crate
  functions it is built from, lawful under the crates' documented behaviour. \<open>usable\<close> are the
  scalars the curve can hold as a key: all but zero for secp256k1, all for Ed25519.
\<close>

locale curve_family =
  fixes C :: "'x \<Rightarrow> 's :: field curve"
    and lawful :: "'x \<Rightarrow> bool"
    and usable :: "'s \<Rightarrow> bool"
  assumes zero: "lawful x \<Longrightarrow> scalar_zero (C x) = 0"
    and one: "lawful x \<Longrightarrow> scalar_one (C x) = 1"
    and from_u64: "lawful x \<Longrightarrow> scalar_from_u64 (C x) n = of_nat (unat n)"
    and add: "lawful x \<Longrightarrow> scalar_add (C x) a b = a + b"
    and sub: "lawful x \<Longrightarrow> scalar_sub (C x) a b = a - b"
    and mul: "lawful x \<Longrightarrow> scalar_mul (C x) a b = a * b"
    and invert: "lawful x \<Longrightarrow> a \<noteq> 0 \<Longrightarrow> scalar_invert (C x) a = Some (inverse a)"
    and bytes_roundtrip: "lawful x \<Longrightarrow> scalar_from_bytes (C x) (scalar_to_bytes (C x) a) = Some a"
    and aggregate: "lawful x \<Longrightarrow>
      aggregate_public (C x) (map (public_from_scalar (C x)) as) =
        (if list_all usable as then Some (public_from_scalar (C x) (sum_list as)) else None)"
    and sign_ok: "lawful x \<Longrightarrow> usable a \<Longrightarrow> \<exists>sig. fst (curve_sign (C x) a m g) = Ok sig \<and>
      curve_verify (C x) (public_from_scalar (C x) a) m sig"
    and sign_sound: "lawful x \<Longrightarrow> fst (curve_sign (C x) a m g) = Ok sig \<Longrightarrow>
      curve_verify (C x) (public_from_scalar (C x) a) m sig"
begin

lemmas field_ops = zero one from_u64 add sub mul

end

lemma sum_points_map:
  assumes "\<And>a. a \<in> set as \<Longrightarrow> dec (enc (f a)) = Some (f a)"
    and "\<And>a b. f (a + b) = f a + (f b :: 'p :: ab_group_add)"
  shows "sum_points dec (f z) (map (\<lambda>a. enc (f a)) as) = Some (f (z + sum_list (as :: 's :: field list)))"
  using assms(1)
  by (induction as arbitrary: z) (simp_all add: assms(2)[symmetric] add.assoc)

lemma base_mul_zero:
  assumes "\<And>a b :: 's :: field. f (a + b) = f a + (f b :: 'p :: ab_group_add)"
  shows "f 0 = 0"
  using assms[of 0 0] by simp

lemma sum_points_None: "\<exists>b \<in> set bs. dec b = None \<Longrightarrow> sum_points dec acc bs = None"
  by (induction bs arbitrary: acc) (auto split: option.splits)

lemma secp_aggregate_None:
  assumes K: "k256_laws K" and z: "\<not> list_all (\<lambda>a. a \<noteq> 0) as"
  shows "secp_aggregate_public K (map (secp_public_from_scalar K) as) = None"
proof -
  have "0 \<in> set as" using z by (auto simp: list_all_iff)
  moreover have "k_public_from_sec1 K (secp_public_from_scalar K 0) = None"
    using K by (simp add: k256_laws_def secp_public_from_scalar_def)
  ultimately show ?thesis
    by (force simp: secp_aggregate_public_def intro!: sum_points_None)
qed

lemma secp_aggregate:
  assumes K: "k256_laws K" and nz: "\<forall>a \<in> set as. a \<noteq> 0"
  shows "secp_aggregate_public K (map (secp_public_from_scalar K) as) =
    Some (secp_public_from_scalar K (sum_list as))"
proof -
  have add: "k_base_mul K (a + b) = k_base_mul K a + k_base_mul K b" for a b
    using K by (simp add: k256_laws_def)
  have "k_public_from_sec1 K (k_encode K (k_base_mul K a)) = Some (k_base_mul K a)"
    if "a \<in> set as" for a using K nz that by (simp add: k256_laws_def)
  from sum_points_map[where f = "k_base_mul K" and enc = "k_encode K" and z = 0 and as = as, OF this add]
  show ?thesis using base_mul_zero[where f = "k_base_mul K", OF add]
    by (simp add: secp_aggregate_public_def secp_public_from_scalar_def[abs_def])
qed

lemma secp_sign_ok:
  assumes "k256_laws K" and "a \<noteq> 0"
  shows "\<exists>sig. fst (secp_sign K a m g) = Ok sig \<and> secp_verify K (secp_public_from_scalar K a) m sig"
  using assms by (auto simp: secp_sign_def secp_verify_def secp_public_from_scalar_def k256_laws_def)

lemma secp_sign_sound:
  assumes "k256_laws K" and "fst (secp_sign K a m g) = Ok sig"
  shows "secp_verify K (secp_public_from_scalar K a) m sig"
  using assms
  by (auto simp: secp_sign_def secp_verify_def secp_public_from_scalar_def k256_laws_def split: if_splits)

interpretation secp: curve_family Secp256k1 k256_laws "\<lambda>a. a \<noteq> 0"
  by unfold_locales
    (simp_all add: Secp256k1_def secp_aggregate secp_aggregate_None secp_sign_ok secp_sign_sound list_all_iff,
     simp_all add: k256_laws_def secp_scalar_from_bytes_def)

lemma ed_aggregate:
  assumes D: "dalek_laws (X, D)"
  shows "ed_aggregate_public D (map (ed_public_from_scalar D) as) =
    Some (ed_public_from_scalar D (sum_list as))"
proof -
  have add: "d_base_mul D (a + b) = d_base_mul D a + d_base_mul D b" for a b
    using D by (simp add: dalek_laws_def)
  have "ed_decode_point D (d_compress D (d_base_mul D a)) = Some (d_base_mul D a)" for a
    using D by (simp add: dalek_laws_def ed_decode_point_def)
  from sum_points_map[where f = "d_base_mul D" and enc = "d_compress D" and z = 0 and as = as, OF this add]
  show ?thesis using base_mul_zero[where f = "d_base_mul D", OF add]
    by (simp add: ed_aggregate_public_def ed_public_from_scalar_def[abs_def])
qed

lemma ed_sign_ok:
  assumes "dalek_laws (X, D)"
  shows "\<exists>sig. fst (ed_curve_sign D a m g) = Ok sig \<and>
    ed_curve_verify X (ed_public_from_scalar D a) m sig"
  using assms
  by (simp add: dalek_laws_def ed_curve_sign_def ed_curve_verify_def ed_public_from_scalar_def
      Let_def scalar_random_def)

lemma ed_sign_sound:
  assumes "dalek_laws (X, D)" and "fst (ed_curve_sign D a m g) = Ok sig"
  shows "ed_curve_verify X (ed_public_from_scalar D a) m sig"
  using ed_sign_ok[OF assms(1), of a m g] assms(2) by auto

interpretation ed: curve_family Ed25519 dalek_laws "\<lambda>a. True"
  by unfold_locales
    (auto simp: Ed25519_def ed_aggregate ed_sign_ok list_all_iff intro: ed_sign_sound,
     auto simp: dalek_laws_def ed_scalar_from_bytes_def)


text \<open>One of the two curves of the source, over crates that behave as documented.\<close>

definition lawful_curve ::
  "('s :: field, 'p :: ab_group_add) k256 \<Rightarrow> ('s, 'q :: ab_group_add) ed_env \<Rightarrow> 's curve \<Rightarrow> bool" where
  "lawful_curve K XD C \<longleftrightarrow> C = Secp256k1 K \<and> k256_laws K \<or> C = Ed25519 XD \<and> dalek_laws XD"

lemma lawful_curve_cases [consumes 1]:
  assumes "lawful_curve K XD C"
  obtains "C = Secp256k1 K" "k256_laws K" | "C = Ed25519 XD" "dalek_laws XD"
  using assms by (auto simp: lawful_curve_def)

end
