(* ===== verification/Prime_Field.thy ===== *)
theory Prime_Field
  imports Curve
begin

text \<open>
  A small prime field, the integers modulo five, on which the witnesses of the threshold
  component evaluate: it serves as scalar field and as point group of a concrete instance of the
  k256 and dalek parameters that satisfies all their laws.
\<close>

section \<open>The field of five elements\<close>

datatype gf5 = G0 | G1 | G2 | G3 | G4

fun gf5_nat :: "gf5 \<Rightarrow> nat" where
  "gf5_nat G0 = 0" | "gf5_nat G1 = 1" | "gf5_nat G2 = 2" | "gf5_nat G3 = 3" | "gf5_nat G4 = 4"

definition gf5_of :: "nat \<Rightarrow> gf5" where
  "gf5_of n = (let k = n mod 5 in if k = 0 then G0 else if k = 1 then G1 else if k = 2 then G2
     else if k = 3 then G3 else G4)"

instantiation gf5 :: field
begin

definition zero_gf5 :: gf5 where "zero_gf5 = G0"
definition one_gf5 :: gf5 where "one_gf5 = G1"
definition plus_gf5 :: "gf5 \<Rightarrow> gf5 \<Rightarrow> gf5" where "plus_gf5 a b = gf5_of (gf5_nat a + gf5_nat b)"
definition times_gf5 :: "gf5 \<Rightarrow> gf5 \<Rightarrow> gf5" where "times_gf5 a b = gf5_of (gf5_nat a * gf5_nat b)"
definition uminus_gf5 :: "gf5 \<Rightarrow> gf5" where "uminus_gf5 a = gf5_of (5 - gf5_nat a)"
definition minus_gf5 :: "gf5 \<Rightarrow> gf5 \<Rightarrow> gf5" where "minus_gf5 a b = gf5_of (gf5_nat a + (5 - gf5_nat b))"
definition inverse_gf5 :: "gf5 \<Rightarrow> gf5" where "inverse_gf5 a = gf5_of (gf5_nat a ^ 3)"
definition divide_gf5 :: "gf5 \<Rightarrow> gf5 \<Rightarrow> gf5" where
  "divide_gf5 a b = gf5_of (gf5_nat a * gf5_nat b ^ 3)"

lemmas gf5_defs = zero_gf5_def one_gf5_def plus_gf5_def times_gf5_def uminus_gf5_def
  minus_gf5_def inverse_gf5_def divide_gf5_def gf5_of_def Let_def

instance
proof
  fix a b c :: gf5
  show "a * b * c = a * (b * c)" by (cases a; cases b; cases c) (simp_all add: gf5_defs)
  show "a * b = b * a" by (cases a; cases b) (simp_all add: gf5_defs)
  show "1 * a = a" by (cases a) (simp_all add: gf5_defs)
  show "a + b + c = a + (b + c)" by (cases a; cases b; cases c) (simp_all add: gf5_defs)
  show "a + b = b + a" by (cases a; cases b) (simp_all add: gf5_defs)
  show "0 + a = a" by (cases a) (simp_all add: gf5_defs)
  show "- a + a = 0" by (cases a) (simp_all add: gf5_defs)
  show "a - b = a + - b" by (cases a; cases b) (simp_all add: gf5_defs)
  show "(a + b) * c = a * c + b * c" by (cases a; cases b; cases c) (simp_all add: gf5_defs)
  show "(0 :: gf5) \<noteq> 1" by (simp add: gf5_defs)
  show "a \<noteq> 0 \<Longrightarrow> inverse a * a = 1" by (cases a) (simp_all add: gf5_defs)
  show "a div b = a * inverse b" by (cases a; cases b) (simp_all add: gf5_defs)
  show "inverse (0 :: gf5) = 0" by (simp add: gf5_defs)
qed

end

lemma gf5_of_nat: "of_nat n = gf5_of n"
proof (induction n)
  case (Suc n)
  have "n mod 5 < 5" by simp
  hence "n mod 5 \<in> {0, 1, 2, 3, 4}" by auto
  thus ?case using Suc by (auto simp: gf5_defs mod_Suc)
qed (simp add: gf5_defs)

lemma gf5_numerals:
  "(0 :: gf5) = G0" "(1 :: gf5) = G1" "(2 :: gf5) = G2" "(3 :: gf5) = G3" "(4 :: gf5) = G4"
  using gf5_of_nat[of 2] gf5_of_nat[of 3] gf5_of_nat[of 4] by (simp_all add: gf5_defs)

lemma gf5_of_nat_nat: "gf5_of (gf5_nat a) = a"
  by (cases a) (simp_all add: gf5_of_def)

section \<open>Concrete k256 and dalek parameters\<close>

definition gf5_bytes :: "gf5 \<Rightarrow> bytes" where
  "gf5_bytes a = of_nat (gf5_nat a) # replicate 31 0"

definition gf5_from_bytes :: "bytes \<Rightarrow> gf5" where
  "gf5_from_bytes b = (case b of [] \<Rightarrow> 0 | x # xs \<Rightarrow> gf5_of (unat x))"

lemma gf5_bytes_roundtrip [simp]: "gf5_from_bytes (gf5_bytes a) = a"
  by (cases a) (simp_all add: gf5_from_bytes_def gf5_bytes_def gf5_of_def Let_def)

lemma length_gf5_bytes [simp]: "length (gf5_bytes a) = 32"
  by (simp add: gf5_bytes_def)

lemma gf5_bytes_inj [simp]: "gf5_bytes a = gf5_bytes b \<longleftrightarrow> a = b"
  by (metis gf5_bytes_roundtrip)

definition demo_k256 :: "(gf5, gf5) k256" where
  "demo_k256 = \<lparr>k_from_u64 = (\<lambda>n. of_nat (unat n)),
     k_invert = (\<lambda>a. if a = 0 then None else Some (inverse a)),
     k_to_repr = gf5_bytes, k_from_repr = (\<lambda>b. Some (gf5_from_bytes b)),
     k_base_mul = (\<lambda>a. a), k_encode = gf5_bytes,
     k_public_from_sec1 = (\<lambda>b. if gf5_from_bytes b = 0 then None else Some (gf5_from_bytes b)),
     k_signing_key_ok = (\<lambda>b. gf5_from_bytes b \<noteq> 0),
     k_ecdsa_sign = (\<lambda>sk m. sk @ m), k_vk_from_sec1_ok = (\<lambda>b. True),
     k_sig_from_slice_ok = (\<lambda>b. True), k_ecdsa_verify = (\<lambda>pk m sig. sig = pk @ m)\<rparr>"

lemma demo_k256_laws [simp]: "k256_laws demo_k256"
  by (simp add: k256_laws_def demo_k256_def)

definition demo_dalek :: "(gf5, gf5) dalek" where
  "demo_dalek = \<lparr>d_from_u64 = (\<lambda>n. of_nat (unat n)), d_invert = inverse,
     d_to_bytes = gf5_bytes, d_from_bytes_mod_order = gf5_from_bytes,
     d_from_bytes_mod_order_wide = gf5_from_bytes, d_base_mul = (\<lambda>a. a),
     d_compress = gf5_bytes, d_decompress = (\<lambda>b. Some (gf5_from_bytes b)),
     d_sha512 = (\<lambda>b. take 64 b)\<rparr>"

definition demo_ed_crates :: crates where
  "demo_ed_crates = demo_crates\<lparr>ed_verify := (\<lambda>pk m sig.
     gf5_bytes (gf5_from_bytes (drop 32 sig) -
       gf5_from_bytes (take 64 (take 32 sig @ pk @ m)) * gf5_from_bytes pk) = take 32 sig)\<rparr>"

lemma demo_dalek_laws [simp]: "dalek_laws (demo_ed_crates, demo_dalek)"
  by (simp add: dalek_laws_def demo_dalek_def demo_ed_crates_def demo_crates_def)

end
