(* ===== verification/Interpolation.thy ===== *)
theory Interpolation
  imports Prelude
begin

text \<open>
  Polynomials over a field as coefficient lists, constant term first: evaluation, synthetic
  division, the bound on the number of roots, existence of an interpolating polynomial through
  given points, and Lagrange interpolation as a sum over a finite set of points. The threshold
  component's sharing and reconstruction rest on these facts.
\<close>

section \<open>Evaluation\<close>

fun peval :: "'a :: field list \<Rightarrow> 'a \<Rightarrow> 'a" where
  "peval [] x = 0"
| "peval (c # cs) x = c + x * peval cs x"

lemma peval_append: "peval (xs @ ys) x = peval xs x + x ^ length xs * peval ys x"
  by (induction xs) (auto simp: algebra_simps)

lemma peval_zero_arg [simp]: "peval (c # cs) 0 = c"
  by simp

lemma peval_replicate_0 [simp]: "peval (replicate n 0) x = 0"
  by (induction n) auto

lemma horner_eq_peval: "foldl (\<lambda>acc c. acc * x + c) a (rev cs) = peval cs x + a * x ^ length cs"
  by (induction cs) (auto simp: algebra_simps)

text \<open>Coefficientwise sum of two lists of the same length.\<close>

definition padd :: "'a :: field list \<Rightarrow> 'a list \<Rightarrow> 'a list" where
  "padd p q = map2 (+) p q"

lemma length_padd [simp]: "length (padd p q) = min (length p) (length q)"
  by (simp add: padd_def)

lemma peval_padd: "length p = length q \<Longrightarrow> peval (padd p q) x = peval p x + peval q x"
  by (induction p q rule: list_induct2) (auto simp: padd_def algebra_simps)

definition pscale :: "'a :: field \<Rightarrow> 'a list \<Rightarrow> 'a list" where
  "pscale a p = map ((*) a) p"

lemma length_pscale [simp]: "length (pscale a p) = length p"
  by (simp add: pscale_def)

lemma peval_pscale: "peval (pscale a p) x = a * peval p x"
  by (induction p) (auto simp: pscale_def algebra_simps)

section \<open>Synthetic division and roots\<close>

fun pquot :: "'a :: field list \<Rightarrow> 'a \<Rightarrow> 'a list" where
  "pquot [] a = []"
| "pquot [c] a = []"
| "pquot (c # cs) a = peval cs a # pquot cs a"

lemma length_pquot [simp]: "length (pquot cs a) = length cs - 1"
  by (induction cs a rule: pquot.induct) auto

lemma pquot_division: "peval cs x = peval cs a + (x - a) * peval (pquot cs a) x"
proof (induction cs a rule: pquot.induct)
  case (3 c d ds a)
  let ?cs = "d # ds"
  have "peval (c # ?cs) x = c + x * (peval ?cs a + (x - a) * peval (pquot ?cs a) x)"
    using "3.IH" by simp
  also have "\<dots> = (c + a * peval ?cs a) + (x - a) * (peval ?cs a + x * peval (pquot ?cs a) x)"
    by (simp add: algebra_simps)
  finally show ?case by simp
qed auto

lemma pquot_zero:
  "\<lbrakk>\<forall>c \<in> set (pquot cs a). c = 0; peval cs a = 0\<rbrakk> \<Longrightarrow> \<forall>c \<in> set cs. c = 0"
  by (induction cs a rule: pquot.induct) auto

lemma peval_roots:
  "\<lbrakk>finite S; length cs \<le> card S; \<forall>x \<in> S. peval cs x = 0\<rbrakk> \<Longrightarrow> \<forall>c \<in> set cs. c = 0"
proof (induction "length cs" arbitrary: cs S)
  case (Suc n)
  then obtain a where a: "a \<in> S" by (metis card_eq_0_iff ex_in_conv le_zero_eq old.nat.distinct(1))
  have root: "peval (pquot cs a) x = 0" if "x \<in> S - {a}" for x
  proof -
    have "(x - a) * peval (pquot cs a) x = 0"
      using pquot_division[of cs x a] Suc.prems(3) a that by simp
    thus ?thesis using that by simp
  qed
  have "length (pquot cs a) \<le> card (S - {a})"
    using Suc.hyps(2) Suc.prems(1,2) a by simp
  with Suc.hyps(1)[of "pquot cs a" "S - {a}"] Suc.hyps(2) Suc.prems(1) root
  have "\<forall>c \<in> set (pquot cs a). c = 0" by simp
  thus ?case using pquot_zero Suc.prems(3) a by blast
qed simp

lemma peval_unique:
  assumes "length cs = length ds" and "finite S" and "length cs \<le> card S"
    and "\<forall>x \<in> S. peval cs x = peval ds x"
  shows "cs = ds"
proof -
  let ?d = "padd cs (pscale (- 1) ds)"
  have "\<forall>c \<in> set ?d. c = 0"
    using assms by (intro peval_roots[OF assms(2)]) (auto simp: peval_padd peval_pscale)
  hence "\<forall>i < length cs. cs ! i - ds ! i = 0"
    using assms(1) by (auto simp: padd_def pscale_def all_set_conv_all_nth)
  thus ?thesis using assms(1) by (intro nth_equalityI) auto
qed

section \<open>Existence of an interpolating polynomial\<close>

text \<open>The product of \<open>x - a\<close> over a list of points.\<close>

fun pprod :: "'a :: field list \<Rightarrow> 'a list" where
  "pprod [] = [1]"
| "pprod (a # as) = padd (0 # pprod as) (pscale (- a) (pprod as) @ [0])"

lemma length_pprod [simp]: "length (pprod as) = Suc (length as)"
  by (induction as) auto

lemma peval_pprod: "peval (pprod as) x = (\<Prod>a\<leftarrow>as. x - a)"
  by (induction as)
    (auto simp: peval_padd peval_append peval_pscale algebra_simps)

lemma interpolant_exists:
  "\<lbrakk>distinct (map fst pts)\<rbrakk> \<Longrightarrow>
   \<exists>cs. length cs = length pts \<and> (\<forall>(x, y) \<in> set pts. peval cs x = y)"
proof (induction pts)
  case (Cons p pts)
  obtain a b where p: "p = (a, b)" by force
  obtain cs where cs: "length cs = length pts" "\<forall>(x, y) \<in> set pts. peval cs x = y"
    using Cons by auto
  let ?P = "pprod (map fst pts)"
  let ?k = "(b - peval cs a) / peval ?P a"
  have nz: "peval ?P a \<noteq> 0"
    using Cons.prems p by (force simp: peval_pprod prod_list_zero_iff)
  have z: "peval ?P x = 0" if "(x, y) \<in> set pts" for x y
    using that by (force simp: peval_pprod prod_list_zero_iff)
  let ?cs = "padd (cs @ [0]) (pscale ?k ?P)"
  have ev: "peval ?cs x = peval cs x + ?k * peval ?P x" for x
    using cs(1) by (simp add: peval_padd peval_append peval_pscale)
  have "\<forall>(x, y) \<in> set (p # pts). peval ?cs x = y"
    using cs(2) z nz unfolding ev p by auto
  thus ?case using cs(1) by (intro exI[of _ ?cs]) simp
qed simp

text \<open>
  Through as many points as there are free coefficients, away from zero, and with a given
  constant term, there is exactly one polynomial.
\<close>

lemma interpolant_unique:
  assumes d: "distinct (0 # xs)" and ys: "length ys = length xs"
  shows "\<exists>!rs. length rs = length xs \<and> map (peval (s # rs)) xs = (ys :: 'a :: field list)"
proof -
  let ?pts = "(0, s) # zip xs ys"
  have "map fst ?pts = 0 # xs" using ys by simp
  then obtain cs where cs: "length cs = length ?pts" "\<forall>(a, y) \<in> set ?pts. peval cs a = y"
    using interpolant_exists[of ?pts] d by metis
  then obtain rs where rs: "cs = s # rs" by (cases cs) auto
  have len: "length rs = length xs" using cs(1) rs ys by simp
  have ok: "map (peval (s # rs)) xs = ys"
  proof (intro nth_equalityI)
    fix k assume "k < length (map (peval (s # rs)) xs)"
    hence k: "k < length xs" by simp
    hence "(xs ! k, ys ! k) \<in> set (zip xs ys)" using ys by (auto simp: set_zip)
    thus "map (peval (s # rs)) xs ! k = ys ! k" using cs(2) k rs by auto
  qed (simp add: ys)
  have "rs' = rs" if "length rs' = length xs" and "map (peval (s # rs')) xs = ys" for rs'
  proof -
    have "\<forall>a \<in> set (0 # xs). peval (s # rs') a = peval (s # rs) a"
      using that(2) ok by (metis map_eq_conv peval_zero_arg set_ConsD)
    moreover have "length (s # rs') \<le> card (set (0 # xs))"
      unfolding distinct_card[OF d] using that(1) by simp
    ultimately have "s # rs' = s # rs"
      using peval_unique[of "s # rs'" "s # rs" "set (0 # xs)"] that(1) len by simp
    thus ?thesis by simp
  qed
  with len ok show ?thesis by blast
qed

section \<open>Lagrange interpolation\<close>

definition lagr :: "'a :: field set \<Rightarrow> 'a \<Rightarrow> 'a \<Rightarrow> 'a" where
  "lagr S z a = (\<Prod>m \<in> S - {a}. (z - m) / (a - m))"

lemma lagr_insert:
  assumes "finite S" "b \<notin> S" "a \<in> S"
  shows "lagr (insert b S) z a = lagr S z a * ((z - b) / (a - b))"
proof -
  have "insert b S - {a} = insert b (S - {a})" using assms by auto
  thus ?thesis using assms by (simp add: lagr_def mult.commute)
qed

lemma lagr_insert_self: "b \<notin> S \<Longrightarrow> lagr (insert b S) z b = (\<Prod>m \<in> S. (z - m) / (b - m))"
  by (simp add: lagr_def)

lemma neville_term:
  fixes u v p q l :: "'a :: field"
  shows "p \<noteq> 0 \<Longrightarrow> q \<noteq> 0 \<Longrightarrow> (q - p) * (l * (v / q) * (u / p)) = v * (l * (u / p)) - u * (l * (v / q))"
  by (simp add: field_simps)

lemma neville:
  assumes "finite S" "a \<notin> S" "b \<notin> S" "a \<noteq> b"
  shows "(a - b) * (\<Sum>x \<in> insert a (insert b S). lagr (insert a (insert b S)) z x) =
    (z - b) * (\<Sum>x \<in> insert a S. lagr (insert a S) z x) -
    (z - a) * (\<Sum>x \<in> insert b S. lagr (insert b S) z x)"
proof -
  let ?Pa = "\<Prod>m \<in> S. (z - m) / (a - m)" and ?Pb = "\<Prod>m \<in> S. (z - m) / (b - m)"
  have la: "lagr (insert a (insert b S)) z a = (z - b) / (a - b) * ?Pa"
    using assms by (subst lagr_insert_self) auto
  have lb: "lagr (insert a (insert b S)) z b = (z - a) / (b - a) * ?Pb"
    using assms lagr_insert_self[of b "insert a S"] by (simp add: insert_commute)
  have ls: "(a - b) * lagr (insert a (insert b S)) z x =
      (z - b) * lagr (insert a S) z x - (z - a) * lagr (insert b S) z x" if x: "x \<in> S" for x
  proof -
    have nz: "x - a \<noteq> 0" "x - b \<noteq> 0" using assms x by auto
    have "lagr (insert a (insert b S)) z x = lagr S z x * ((z - b) / (x - b)) * ((z - a) / (x - a))"
      using assms x by (simp add: lagr_insert)
    moreover have "lagr (insert a S) z x = lagr S z x * ((z - a) / (x - a))"
      and "lagr (insert b S) z x = lagr S z x * ((z - b) / (x - b))"
      using assms x by (simp_all add: lagr_insert)
    ultimately show ?thesis using neville_term[OF nz, of "lagr S z x" "z - b" "z - a"] by simp
  qed
  have la': "(a - b) * lagr (insert a (insert b S)) z a = (z - b) * ?Pa"
    using la assms(4) by simp
  have "lagr (insert a (insert b S)) z b = - ((z - a) / (a - b) * ?Pb)"
    using lb by (metis minus_diff_eq minus_divide_right mult_minus_left)
  hence lb': "(a - b) * lagr (insert a (insert b S)) z b = - ((z - a) * ?Pb)"
    using assms(4) by simp
  have "(a - b) * (\<Sum>x \<in> insert a (insert b S). lagr (insert a (insert b S)) z x) =
      (z - b) * ?Pa - (z - a) * ?Pb + (\<Sum>x \<in> S. (a - b) * lagr (insert a (insert b S)) z x)"
    using assms(1-4) by (simp add: distrib_left sum_distrib_left la' lb')
  also have "(\<Sum>x \<in> S. (a - b) * lagr (insert a (insert b S)) z x) =
      (z - b) * (\<Sum>x \<in> S. lagr (insert a S) z x) - (z - a) * (\<Sum>x \<in> S. lagr (insert b S) z x)"
    using ls by (simp add: sum_subtractf sum_distrib_left cong: sum.cong)
  also have "(z - b) * ?Pa - (z - a) * ?Pb +
      ((z - b) * (\<Sum>x \<in> S. lagr (insert a S) z x) - (z - a) * (\<Sum>x \<in> S. lagr (insert b S) z x)) =
      (z - b) * (?Pa + (\<Sum>x \<in> S. lagr (insert a S) z x)) -
      (z - a) * (?Pb + (\<Sum>x \<in> S. lagr (insert b S) z x))"
    by (simp only: distrib_left diff_conv_add_uminus minus_add_distrib add_ac)
  finally show ?thesis using assms by (simp add: lagr_insert_self)
qed

lemma lagr_sum_one:
  "\<lbrakk>finite S; S \<noteq> {}\<rbrakk> \<Longrightarrow> (\<Sum>x \<in> S. lagr S z x) = 1"
proof (induction "card S" arbitrary: S rule: less_induct)
  case less
  obtain a T where a: "S = insert a T" "a \<notin> T" using less.prems(2) by (meson mk_disjoint_insert ex_in_conv)
  show ?case
  proof (cases "T = {}")
    case True thus ?thesis using a by (simp add: lagr_def)
  next
    case False
    then obtain b U where b: "T = insert b U" "b \<notin> U" by (meson mk_disjoint_insert ex_in_conv)
    have fin: "finite U" and ab: "a \<notin> U" "a \<noteq> b" using less.prems(1) a b by auto
    have "(\<Sum>x \<in> insert a U. lagr (insert a U) z x) = 1"
      and "(\<Sum>x \<in> insert b U. lagr (insert b U) z x) = 1"
      using less.hyps[of "insert a U"] less.hyps[of "insert b U"] fin a b ab by auto
    hence "(a - b) * (\<Sum>x \<in> S. lagr S z x) = a - b"
      using neville[OF fin ab(1) b(2) ab(2), of z] unfolding a(1) b(1) by simp
    thus ?thesis using ab(2) by simp
  qed
qed

text \<open>Interpolation at any point recovers every polynomial with at most as many coefficients.\<close>

lemma lagrange_interpolation:
  "\<lbrakk>finite S; length cs \<le> card S\<rbrakk> \<Longrightarrow> (\<Sum>x \<in> S. peval cs x * lagr S z x) = peval cs z"
proof (induction "card S" arbitrary: S cs)
  case 0
  thus ?case by simp
next
  case (Suc n)
  obtain a T where a: "S = insert a T" "a \<notin> T"
    using Suc.hyps(2) by (metis card_Suc_eq)
  have fin: "finite T" using Suc.prems(1) a by simp
  let ?q = "pquot cs a"
  have IH: "(\<Sum>x \<in> T. peval ?q x * lagr T z x) = peval ?q z"
    using Suc.hyps(1)[of T ?q] Suc.hyps(2) Suc.prems a fin by auto
  have "(\<Sum>x \<in> S. peval cs x * lagr S z x) =
      (\<Sum>x \<in> S. peval cs a * lagr S z x + (x - a) * peval ?q x * lagr S z x)"
    by (intro sum.cong refl, subst pquot_division[of cs _ a]) (simp add: algebra_simps)
  also have "\<dots> = peval cs a * (\<Sum>x \<in> S. lagr S z x) + (\<Sum>x \<in> S. (x - a) * peval ?q x * lagr S z x)"
    by (simp add: sum.distrib sum_distrib_left)
  also have "(\<Sum>x \<in> S. lagr S z x) = 1" using Suc.prems(1) a by (intro lagr_sum_one) auto
  also have "(\<Sum>x \<in> S. (x - a) * peval ?q x * lagr S z x) =
      (\<Sum>x \<in> T. (x - a) * peval ?q x * lagr S z x)"
    using a fin by simp
  also have "\<dots> = (\<Sum>x \<in> T. (z - a) * (peval ?q x * lagr T z x))"
  proof (intro sum.cong refl)
    fix x assume x: "x \<in> T"
    hence "x - a \<noteq> 0" using a by auto
    hence "(x - a) * (peval ?q x * (lagr T z x * ((z - a) / (x - a)))) =
        (z - a) * (peval ?q x * lagr T z x)" by simp
    thus "(x - a) * peval ?q x * lagr S z x = (z - a) * (peval ?q x * lagr T z x)"
      using lagr_insert[OF fin a(2) x, of z] a by (simp add: mult.assoc)
  qed
  also have "\<dots> = (z - a) * peval ?q z" using IH by (simp flip: sum_distrib_left)
  finally show ?case using pquot_division[of cs z a] by simp
qed

end
