(* ===== verification/Shamir.thy ===== *)
theory Shamir
  imports Prime_Field Interpolation
begin

text \<open>
  \<open>src/engine/threshold/shamir.rs\<close>: splitting a scalar into shares of a random polynomial,
  sharing zero for the proactive refresh, and reconstruction by Lagrange interpolation at zero.
  The laws are proved once for every lawful curve family and hold for both curves of the source.
\<close>

section \<open>Operations\<close>

type_synonym 's share = "u64 \<times> 's"

fun draw_scalars :: "nat \<Rightarrow> 's rng \<Rightarrow> 's list \<times> 's rng" where
  "draw_scalars 0 g = ([], g)"
| "draw_scalars (Suc k) g =
     (let (c, g1) = scalar_random g; (cs, g2) = draw_scalars k g1 in (c # cs, g2))"

definition eval_all :: "'s curve \<Rightarrow> 's list \<Rightarrow> nat \<Rightarrow> 's share list" where
  "eval_all C coeffs n =
     map (\<lambda>i. let x = scalar_from_u64 C i;
                  acc = foldl (\<lambda>acc c. scalar_add C (scalar_mul C acc x) c) (scalar_zero C) (rev coeffs)
              in (i, acc))
       (map of_nat [1..<Suc n])"

definition split ::
  "'s curve \<Rightarrow> 's \<Rightarrow> nat \<Rightarrow> nat \<Rightarrow> 's rng \<Rightarrow> ('s share list, unit) result \<times> 's rng" where
  "split C secret t n g =
     (if 1 \<le> t \<and> t \<le> n then
        (let (cs, g') = draw_scalars (t - 1) g in (Ok (eval_all C (secret # cs) n), g'))
      else (Panic, g))"

definition split_zero ::
  "'s curve \<Rightarrow> nat \<Rightarrow> nat \<Rightarrow> 's rng \<Rightarrow> ('s share list, unit) result \<times> 's rng" where
  "split_zero C t n g = split C (scalar_zero C) t n g"

definition lagrange_step :: "'s curve \<Rightarrow> nat \<Rightarrow> 's \<Rightarrow> 's \<times> 's \<Rightarrow> nat \<times> 's share \<Rightarrow> 's \<times> 's" where
  "lagrange_step C j xj_s nd e =
     (case nd of (num, den) \<Rightarrow> case e of (m, (xm, ym)) \<Rightarrow>
        if m = j then (num, den)
        else (let xm_s = scalar_from_u64 C xm;
                  neg_xm = scalar_sub C (scalar_zero C) xm_s
              in (scalar_mul C num neg_xm, scalar_mul C den (scalar_sub C xj_s xm_s))))"

fun reconstruct_loop ::
  "'s curve \<Rightarrow> 's share list \<Rightarrow> (nat \<times> 's share) list \<Rightarrow> 's \<Rightarrow> 's option" where
  "reconstruct_loop C shares [] secret = Some secret"
| "reconstruct_loop C shares ((j, (xj, yj)) # rest) secret =
     (let xj_s = scalar_from_u64 C xj;
          (num, den) = foldl (lagrange_step C j xj_s) (scalar_one C, scalar_one C) (enumerate 0 shares)
      in case scalar_invert C den of
           None \<Rightarrow> None
         | Some den_inv \<Rightarrow>
             (let lagrange = scalar_mul C num den_inv
              in reconstruct_loop C shares rest
                   (scalar_add C secret (scalar_mul C yj lagrange))))"

definition reconstruct :: "'s curve \<Rightarrow> 's share list \<Rightarrow> 's option" where
  "reconstruct C shares = reconstruct_loop C shares (enumerate 0 shares) (scalar_zero C)"

section \<open>Lemmas: splitting\<close>

lemma draw_scalars_eq [simp]: "draw_scalars k g = (stake k g, sdrop k g)"
  by (induction k arbitrary: g) (simp_all add: Let_def scalar_random_def)

lemma split_Ok_iff: "fst (split C s t n g) = Ok sh \<longleftrightarrow>
    1 \<le> t \<and> t \<le> n \<and> sh = eval_all C (s # stake (t - 1) g) n"
  by (auto simp: split_def)

lemma split_not_Err: "fst (split C s t n g) \<noteq> Err e"
  by (simp add: split_def)

text \<open>The field element a share index stands for.\<close>

definition ix :: "u64 \<Rightarrow> 's :: field" where
  "ix i = of_nat (unat i)"

text \<open>All shares of a list lie on one polynomial.\<close>

definition on_poly :: "'s :: field list \<Rightarrow> 's share list \<Rightarrow> bool" where
  "on_poly cs sh \<longleftrightarrow> (\<forall>(i, y) \<in> set sh. y = peval cs (ix i))"

text \<open>Share indices up to \<open>n\<close> are different field elements, as the order of both curves gives.\<close>

definition indices_distinct :: "'s :: field itself \<Rightarrow> nat \<Rightarrow> bool" where
  "indices_distinct T n \<longleftrightarrow> n < 2 ^ 64 \<and> inj_on (of_nat :: nat \<Rightarrow> 's) {0..n}"

lemma unat_u64_of_nat: "i < 2 ^ 64 \<Longrightarrow> unat (of_nat i :: u64) = i"
  by (simp add: unat_of_nat)

lemma ix_of_nat: "i < 2 ^ 64 \<Longrightarrow> ix (of_nat i) = of_nat i"
  by (simp add: ix_def unat_u64_of_nat)

lemma ix_inj_on:
  assumes "indices_distinct TYPE('s :: field) n"
  shows "inj_on (ix :: u64 \<Rightarrow> 's) (of_nat ` {0..n})"
  using assms unfolding indices_distinct_def inj_on_def
  by (auto simp: ix_of_nat)

lemma on_polyD: "on_poly cs sh \<Longrightarrow> p \<in> set sh \<Longrightarrow> snd p = peval cs (ix (fst p))"
  by (cases p) (auto simp: on_poly_def)

lemma on_poly_inj: "on_poly cs sh \<Longrightarrow> inj_on fst (set sh)"
  by (intro inj_onI prod_eqI) (simp_all add: on_polyD)

lemma on_poly_subset: "on_poly cs sh \<Longrightarrow> set sub \<subseteq> set sh \<Longrightarrow> on_poly cs sub"
  by (auto simp: on_poly_def)

lemma distinct_ix:
  assumes d: "indices_distinct TYPE('s :: field) n" and "distinct (map fst sh)"
    and "fst ` set sh \<subseteq> of_nat ` {1..n}"
  shows "distinct (map (\<lambda>p. ix (fst p) :: 's) sh)"
proof -
  have "fst ` set sh \<subseteq> of_nat ` {0..n}" using assms(3) by fastforce
  hence "inj_on (ix :: u64 \<Rightarrow> 's) (set (map fst sh))"
    using ix_inj_on[OF d] by (auto intro: inj_on_subset)
  hence "distinct (map ix (map fst sh) :: 's list)"
    using assms(2) by (simp only: distinct_map)
  thus ?thesis by (simp add: comp_def)
qed

section \<open>Laws of every lawful curve\<close>

lemma prod_list_filter_enum:
  assumes d: "distinct (map f xs)" and j: "j < length xs"
  shows "(\<Prod>p\<leftarrow>filter (\<lambda>p. fst p \<noteq> j) (enumerate 0 xs). h (f (snd p))) =
    (\<Prod>a \<in> f ` set xs - {f (xs ! j)}. (h a :: 'a :: comm_monoid_mult))"
proof -
  let ?L = "filter (\<lambda>p. fst p \<noteq> j) (enumerate 0 xs)"
  have dx: "distinct xs" and inj: "inj_on f (set xs)" using d by (auto simp: distinct_map)
  have mem: "(m, a) \<in> set ?L \<longleftrightarrow> m < length xs \<and> m \<noteq> j \<and> a = xs ! m" for m a
    by (auto simp: in_set_enumerate_eq)
  have "inj_on (\<lambda>p. f (snd p)) (set ?L)"
  proof (intro inj_onI)
    fix p q assume p: "p \<in> set ?L" and q: "q \<in> set ?L" and eq: "f (snd p) = f (snd q)"
    obtain m a m' a' where pq: "p = (m, a)" "q = (m', a')" by fastforce
    have m: "m < length xs" "a = xs ! m" and m': "m' < length xs" "a' = xs ! m'"
      using p q mem unfolding pq by blast+
    hence "a = a'" using eq inj unfolding pq inj_on_def by simp
    thus "p = q" using m m' dx by (simp add: pq nth_eq_iff_index_eq)
  qed
  moreover have "(\<lambda>p. f (snd p)) ` set ?L = f ` set xs - {f (xs ! j)}" (is "?A = ?B")
  proof
    show "?A \<subseteq> ?B"
    proof
      fix b assume "b \<in> ?A"
      then obtain m where m: "m < length xs" "b = f (xs ! m)" "m \<noteq> j" using mem by force
      hence "map f xs ! m \<noteq> map f xs ! j" using d j by (simp add: distinct_conv_nth)
      thus "b \<in> ?B" using m j by simp
    qed
    show "?B \<subseteq> ?A"
    proof
      fix b assume "b \<in> ?B"
      hence "b \<in> f ` set xs" "b \<noteq> f (xs ! j)" by auto
      then obtain m where m: "m < length xs" "b = f (xs ! m)" "m \<noteq> j"
        by (metis (no_types) imageE in_set_conv_nth)
      hence "(m, xs ! m) \<in> set ?L" using mem by blast
      thus "b \<in> ?A" using m(2) by force
    qed
  qed
  ultimately have "(\<Prod>p \<in> set ?L. h (f (snd p))) = (\<Prod>a \<in> ?B. h a)"
    using prod.reindex[of "\<lambda>p. f (snd p)" "set ?L" h] by (simp only: comp_def)
  moreover have "distinct ?L" by (simp add: distinct_enumerate)
  ultimately show ?thesis by (simp flip: prod.distinct_set_conv_list)
qed

context curve_family
begin

lemma from_u64_ix: "lawful x \<Longrightarrow> scalar_from_u64 (C x) n = ix n"
  by (simp add: from_u64 ix_def)

lemmas share_ops = zero one from_u64_ix add sub mul

lemma eval_all_eq:
  assumes "lawful x"
  shows "eval_all (C x) cs n = map (\<lambda>i. (of_nat i, peval cs (ix (of_nat i)))) [1..<Suc n]"
  using horner_eq_peval[of _ 0 cs] assms
  by (simp add: eval_all_def share_ops del: upt_Suc)

lemma on_poly_eval_all: "lawful x \<Longrightarrow> on_poly cs (eval_all (C x) cs n)"
  by (auto simp: on_poly_def eval_all_eq)

lemma eval_all_indices:
  assumes "lawful x" and "n < 2 ^ 64"
  shows "map fst (eval_all (C x) cs n) = map of_nat [1..<Suc n]"
    and "fst ` set (eval_all (C x) cs n) \<subseteq> of_nat ` {1..n}"
  using assms(1) by (auto simp: eval_all_eq simp del: upt_Suc)

lemma lagrange_fold:
  assumes "lawful x"
  shows "foldl (lagrange_step (C x) j (ix xj)) (a, b) L =
    (a * (\<Prod>p\<leftarrow>filter (\<lambda>p. fst p \<noteq> j) L. 0 - ix (fst (snd p))),
     b * (\<Prod>p\<leftarrow>filter (\<lambda>p. fst p \<noteq> j) L. ix xj - ix (fst (snd p))))"
  by (induction L arbitrary: a b)
    (auto simp: lagrange_step_def share_ops[OF assms] mult.assoc Let_def)

lemma lagrange_coefficient:
  assumes x: "lawful x" and d: "distinct (map (\<lambda>p. ix (fst p) :: 's) sh)"
    and j: "(j, (xj, yj)) \<in> set (enumerate 0 sh)"
    and nd: "foldl (lagrange_step (C x) j (ix xj)) (1, 1) (enumerate 0 sh) = (num, den)"
  shows "den \<noteq> 0" and "num * inverse den = lagr ((\<lambda>p. ix (fst p)) ` set sh) 0 (ix xj)"
proof -
  let ?S = "(\<lambda>p. ix (fst p) :: 's) ` set sh"
  have jl: "j < length sh" and xj: "xj = fst (sh ! j)"
    using j by (auto simp: in_set_enumerate_eq dest: arg_cong[where f = fst])
  note pr = prod_list_filter_enum[OF d jl]
  have num: "num = (\<Prod>a \<in> ?S - {ix xj}. 0 - a)"
    and den: "den = (\<Prod>a \<in> ?S - {ix xj}. ix xj - a)"
    using nd pr[of "\<lambda>a. 0 - a"] pr[of "\<lambda>a. ix xj - a"] unfolding lagrange_fold[OF x] xj by auto
  show "den \<noteq> 0" unfolding den by auto
  show "num * inverse den = lagr ?S 0 (ix xj)"
    unfolding num den lagr_def prod_dividef by (simp only: divide_inverse)
qed

lemma reconstruct_loop_eq:
  assumes x: "lawful x" and d: "distinct (map (\<lambda>p. ix (fst p) :: 's) sh)"
    and R: "set R \<subseteq> set (enumerate 0 sh)"
  shows "reconstruct_loop (C x) sh R s =
    Some (s + (\<Sum>p\<leftarrow>R. snd (snd p) * lagr ((\<lambda>p. ix (fst p)) ` set sh) 0 (ix (fst (snd p)))))"
  using R
proof (induction R arbitrary: s)
  case (Cons p R)
  obtain j xj yj where p: "p = (j, (xj, yj))" by (metis prod.exhaust)
  obtain num den where nd: "foldl (lagrange_step (C x) j (ix xj)) (1, 1) (enumerate 0 sh) = (num, den)"
    by fastforce
  have "(j, (xj, yj)) \<in> set (enumerate 0 sh)" using Cons.prems p by simp
  note co = lagrange_coefficient[OF x d this nd]
  have "reconstruct_loop (C x) sh (p # R) s =
      reconstruct_loop (C x) sh R (s + yj * (num * inverse den))"
    using nd co(1) by (simp add: p share_ops[OF x] invert[OF x])
  thus ?case using Cons co(2) by (simp add: p add.assoc)
qed simp

text \<open>Enough shares of one polynomial reconstruct its constant term, in any order.\<close>

lemma reconstruct_poly:
  assumes x: "lawful x" and d: "distinct (map (\<lambda>p. ix (fst p) :: 's) sh)"
    and on: "on_poly cs sh" and len: "length cs \<le> length sh"
  shows "reconstruct (C x) sh = Some (peval cs 0)"
proof -
  let ?f = "\<lambda>p. ix (fst p) :: 's"
  let ?S = "?f ` set sh"
  have dx: "distinct sh" and inj: "inj_on ?f (set sh)" using d by (auto simp: distinct_map)
  have "reconstruct (C x) sh = Some (\<Sum>p\<leftarrow>enumerate 0 sh. snd (snd p) * lagr ?S 0 (?f (snd p)))"
    using reconstruct_loop_eq[OF x d subset_refl] by (simp add: reconstruct_def share_ops[OF x])
  also have "(\<Sum>p\<leftarrow>enumerate 0 sh. snd (snd p) * lagr ?S 0 (?f (snd p))) =
      (\<Sum>q\<leftarrow>sh. snd q * lagr ?S 0 (?f q))"
    by (metis (mono_tags, lifting) comp_apply list.map_comp map_eq_conv map_snd_enumerate)
  also have "\<dots> = (\<Sum>q \<in> set sh. snd q * lagr ?S 0 (?f q))"
    using dx by (simp add: sum.distinct_set_conv_list)
  also have "\<dots> = (\<Sum>q \<in> set sh. peval cs (?f q) * lagr ?S 0 (?f q))"
    using on by (intro sum.cong refl) (auto simp: on_poly_def)
  also have "\<dots> = (\<Sum>a \<in> ?S. peval cs a * lagr ?S 0 a)"
    using inj by (simp add: sum.reindex)
  also have "\<dots> = peval cs 0"
    using len distinct_card[OF d] by (intro lagrange_interpolation) auto
  finally show ?thesis .
qed

lemma split_reconstruct:
  assumes x: "lawful x" and ids: "indices_distinct TYPE('s) n"
    and sp: "fst (split (C x) s t n g) = Ok sh"
    and sub: "set sub \<subseteq> set sh" "distinct sub" "t \<le> length sub"
  shows "reconstruct (C x) sub = Some s"
proof -
  let ?cs = "s # stake (t - 1) g"
  have t: "1 \<le> t" and sh: "sh = eval_all (C x) ?cs n" using sp by (auto simp: split_Ok_iff)
  have n: "n < 2 ^ 64" using ids by (simp add: indices_distinct_def)
  have on: "on_poly ?cs sub" using on_poly_subset[OF on_poly_eval_all[OF x] sub(1)[unfolded sh]] .
  have "distinct (map fst sub)" using sub(2) on_poly_inj[OF on] by (simp add: distinct_map)
  moreover have "fst ` set sub \<subseteq> of_nat ` {1..n}"
    using sub(1) eval_all_indices(2)[OF x n, of ?cs] unfolding sh by blast
  ultimately have "distinct (map (\<lambda>p. ix (fst p) :: 's) sub)" by (rule distinct_ix[OF ids])
  from reconstruct_poly[OF x this on] show ?thesis using t sub(3) by simp
qed

text \<open>Any fewer shares are consistent with every secret, for exactly one choice of randomness.\<close>

lemma split_secrecy:
  assumes x: "lawful x" and ids: "indices_distinct TYPE('s) n"
    and t: "1 \<le> t" "t \<le> n"
    and I: "distinct I" "set I \<subseteq> {1..n}" "length I = t - 1" and ys: "length ys = t - 1"
  shows "\<exists>!rs. length rs = t - 1 \<and>
    (\<exists>sh. fst (split (C x) s t n (rs @- g)) = Ok sh \<and>
          map (\<lambda>i. sh ! (i - 1)) I = zip (map of_nat I) ys)"
proof -
  have n: "n < 2 ^ 64" and inj: "inj_on (of_nat :: nat \<Rightarrow> 's) {0..n}"
    using ids by (auto simp: indices_distinct_def)
  let ?xs = "map (of_nat :: nat \<Rightarrow> 's) I"
  have nth: "eval_all (C x) (s # rs) n ! (i - 1) = (of_nat i, peval (s # rs) (of_nat i))"
    if "i \<in> {1..n}" for i rs
  proof -
    have "[1..<Suc n] ! (i - 1) = i" and "i - 1 < length [1..<Suc n]" using that by (auto simp del: upt_Suc)
    thus ?thesis using that n by (simp add: eval_all_eq[OF x] ix_of_nat del: upt_Suc)
  qed
  have shares: "map (\<lambda>i. eval_all (C x) (s # rs) n ! (i - 1)) I = zip (map of_nat I) ys \<longleftrightarrow>
      map (peval (s # rs)) ?xs = ys" for rs
  proof -
    have "map (\<lambda>i. eval_all (C x) (s # rs) n ! (i - 1)) I =
        map (\<lambda>i. (of_nat i, peval (s # rs) (of_nat i))) I"
      using I(2) nth by (intro map_cong refl) auto
    thus ?thesis using I(3) ys by (simp add: list_eq_iff_nth_eq)
  qed
  have "inj_on (of_nat :: nat \<Rightarrow> 's) (set (0 # I))"
    using I(2) by (intro inj_on_subset[OF inj]) auto
  moreover have "distinct (0 # I)" using I(1,2) by auto
  ultimately have "distinct (map (of_nat :: nat \<Rightarrow> 's) (0 # I))" by (simp only: distinct_map)
  hence "\<exists>!rs. length rs = t - 1 \<and> map (peval (s # rs)) ?xs = ys"
    using interpolant_unique[of ?xs ys s] I(3) ys by simp
  moreover have "(\<exists>sh. fst (split (C x) s t n (r @- g)) = Ok sh \<and>
          map (\<lambda>i. sh ! (i - 1)) I = zip (map of_nat I) ys) \<longleftrightarrow>
      map (peval (s # r)) ?xs = ys" if "length r = t - 1" for r
    using that t shares[of r] by (auto simp: split_Ok_iff stake_shift)
  ultimately show ?thesis by (simp cong: conj_cong)
qed

end

section \<open>Lemmas: duplicate indices\<close>

lemma prod_list_zero: "(a :: 's :: field) \<in> set xs \<Longrightarrow> a = 0 \<Longrightarrow> prod_list xs = 0"
  by (simp add: prod_list_zero_iff)

lemma secp_duplicate_denominator:
  assumes K: "k256_laws K" and jm: "j < length sh" "m < length sh" "j \<noteq> m"
    and eq: "fst (sh ! j) = fst (sh ! m)"
  shows "snd (foldl (lagrange_step (Secp256k1 K) j (ix (fst (sh ! j)))) (1, 1) (enumerate 0 sh)) = 0"
proof -
  have "(m, sh ! m) \<in> set (filter (\<lambda>p. fst p \<noteq> j) (enumerate 0 sh))"
    using jm by (simp add: in_set_enumerate_eq)
  hence "0 \<in> set (map (\<lambda>p. ix (fst (sh ! j)) - ix (fst (snd p)))
      (filter (\<lambda>p. fst p \<noteq> j) (enumerate 0 sh)))"
    using eq by force
  thus ?thesis unfolding secp.lagrange_fold[OF K] by (simp add: prod_list_zero_iff)
qed

lemma secp_reconstruct_loop_None:
  assumes K: "k256_laws K" and jm: "j < length sh" "m < length sh" "j \<noteq> m"
    and eq: "fst (sh ! j) = fst (sh ! m)" and R: "(j, sh ! j) \<in> set R"
  shows "reconstruct_loop (Secp256k1 K) sh R s = None"
  using R
proof (induction R arbitrary: s)
  case (Cons p R)
  obtain i xi yi where p: "p = (i, (xi, yi))" by (metis prod.exhaust)
  have inv: "scalar_invert (Secp256k1 K) 0 = None"
    using K by (simp add: Secp256k1_def k256_laws_def)
  show ?case
  proof (cases "p = (j, sh ! j)")
    case True
    thus ?thesis
      using secp_duplicate_denominator[OF K jm eq] inv
      by (cases "sh ! j") (simp add: secp.share_ops[OF K] case_prod_unfold)
  next
    case False
    hence "(j, sh ! j) \<in> set R" using Cons.prems by auto
    hence "reconstruct_loop (Secp256k1 K) sh R s' = None" for s' by (rule Cons.IH)
    thus ?thesis by (simp add: p case_prod_unfold Let_def split: option.splits)
  qed
qed simp

lemma ed_reconstruct_loop_Some: "reconstruct_loop (Ed25519 XD) sh R s \<noteq> None"
proof (induction R arbitrary: s)
  case (Cons p R)
  obtain X D where XD: "XD = (X, D)" by force
  have "scalar_invert (Ed25519 XD) a = Some (d_invert D a)" for a
    by (simp add: XD Ed25519_def)
  with Cons show ?case by (cases p) (auto simp: case_prod_unfold Let_def)
qed simp

lemma lawful_split_reconstruct:
  assumes "lawful_curve K XD (C :: 's :: field curve)" and "indices_distinct TYPE('s) n"
    and "fst (split C s t n g) = Ok sh"
    and "set sub \<subseteq> set sh" and "distinct sub" and "t \<le> length sub"
  shows "reconstruct C sub = Some s"
  using assms(1)
  by (cases rule: lawful_curve_cases)
    (use assms secp.split_reconstruct ed.split_reconstruct in metis)+

lemma demo_indices: "indices_distinct TYPE(gf5) 3"
proof -
  have "{0..3 :: nat} = {0, 1, 2, 3}" by auto
  thus ?thesis by (simp add: indices_distinct_def gf5_of_nat gf5_of_def)
qed

lemma upt_1_3: "[1..<Suc 3] = [1, 2, 3]"
  by (simp add: eval_nat_numeral)

lemma demo_ix: "ix 1 = G1" "ix 2 = G2" "ix 3 = G3"
  by (simp_all add: ix_of_nat[of 1, simplified] ix_of_nat[of 2, simplified]
      ix_of_nat[of 3, simplified] gf5_numerals)

lemma demo_shares:
  "fst (split (Secp256k1 demo_k256) G3 2 3 (sconst G3)) = Ok [(1, G1), (2, G4), (3, G2)]"
proof -
  have "eval_all (Secp256k1 demo_k256) [G3, G3] 3 = [(1, G1), (2, G4), (3, G2)]"
    by (simp only: secp.eval_all_eq[OF demo_k256_laws] upt_1_3 list.map peval.simps)
      (simp add: demo_ix, simp add: gf5_defs)
  thus ?thesis by (simp add: split_Ok_iff numeral_2_eq_2)
qed

section \<open>Properties\<close>

text \<open>
  (C8) Any \<open>t\<close> or more different shares of a split, in any order, reconstruct the secret, on both
  curves.
\<close>
theorem any_quorum_reconstructs:
  assumes "lawful_curve K XD (C :: 's :: field curve)" and "indices_distinct TYPE('s) n"
    and "fst (split C secret t n g) = Ok shares"
    and "set sub \<subseteq> set shares" and "distinct sub" and "t \<le> length sub"
  shows "reconstruct C sub = Some secret"
  using assms by (rule lawful_split_reconstruct)

theorem any_quorum_reconstructs_witness:
  "reconstruct (Secp256k1 demo_k256) [(3, G2), (1, G1)] = Some G3"
  using any_quorum_reconstructs[of demo_k256 "(demo_ed_crates, demo_dalek)"
      "Secp256k1 demo_k256" 3 G3 2 "sconst G3" _ "[(3, G2), (1, G1)]", OF _ demo_indices demo_shares]
  by (simp add: lawful_curve_def)

text \<open>
  (C9) Secrecy of the sharing: whatever \<open>t - 1\<close> parties hold, every secret explains their shares,
  and each secret does so for exactly one choice of the random coefficients. With uniform
  coefficients the shares of \<open>t - 1\<close> parties are therefore independent of the secret.
\<close>
theorem fewer_shares_reveal_nothing:
  assumes "lawful_curve K XD (C :: 's :: field curve)" and "indices_distinct TYPE('s) n"
    and "1 \<le> t" and "t \<le> n"
    and "distinct parties" and "set parties \<subseteq> {1..n}" and "length parties = t - 1"
    and "length held = t - 1"
  shows "\<exists>!coefficients. length coefficients = t - 1 \<and>
    (\<exists>shares. fst (split C secret t n (coefficients @- g)) = Ok shares \<and>
       map (\<lambda>i. shares ! (i - 1)) parties = zip (map of_nat parties) held)"
  using assms(1)
  by (cases rule: lawful_curve_cases)
    (simp_all only: secp.split_secrecy[OF _ assms(2-8)] ed.split_secrecy[OF _ assms(2-8)])

theorem fewer_shares_reveal_nothing_witness:
  "\<exists>!coefficients. length coefficients = 1 \<and>
    (\<exists>shares. fst (split (Ed25519 (demo_ed_crates, demo_dalek)) G4 2 3 (coefficients @- sconst 0)) =
        Ok shares \<and> map (\<lambda>i. shares ! (i - 1)) [2] = zip (map of_nat [2]) [G0])"
  using fewer_shares_reveal_nothing[of demo_k256 "(demo_ed_crates, demo_dalek)"
      "Ed25519 (demo_ed_crates, demo_dalek)" 3 2 "[2]" "[G0]" G4 "sconst 0"] demo_indices
  by (simp add: lawful_curve_def)

text \<open>
  Duplicate share indices are rejected on secp256k1 only. The Ed25519 implementation never
  returns \<open>None\<close>, because its inversion maps zero to zero instead of failing: a repeated index
  yields some scalar, not an error.
\<close>
theorem duplicate_indices_rejected_on_secp_only:
  "(k256_laws K \<and> \<not> distinct (map fst shares) \<longrightarrow> reconstruct (Secp256k1 K) shares = None) \<and>
   reconstruct (Ed25519 XD) shares' \<noteq> None"
proof (intro conjI impI)
  assume A: "k256_laws K \<and> \<not> distinct (map fst shares)"
  then obtain j m where "j < length shares" "m < length shares" "j \<noteq> m"
      "fst (shares ! j) = fst (shares ! m)"
    by (auto simp: distinct_conv_nth)
  moreover have "(j, shares ! j) \<in> set (enumerate 0 shares)"
    using calculation(1) by (simp add: in_set_enumerate_eq)
  ultimately show "reconstruct (Secp256k1 K) shares = None"
    using A secp_reconstruct_loop_None by (metis reconstruct_def)
qed (simp add: reconstruct_def ed_reconstruct_loop_Some)

theorem duplicate_indices_rejected_on_secp_only_witness:
  "reconstruct (Secp256k1 demo_k256) [(1, G2), (1, G3)] = None \<and>
   reconstruct (Ed25519 (demo_ed_crates, demo_dalek)) [(1, G2), (1, G3)] \<noteq> None"
  using duplicate_indices_rejected_on_secp_only[of demo_k256 "[(1, G2), (1, G3)]"
      "(demo_ed_crates, demo_dalek)" "[(1, G2), (1, G3)]"]
  by simp

end
