(* ===== verification/Cluster.thy ===== *)
theory Cluster
  imports Shamir
begin

text \<open>
  \<open>src/engine/threshold/cluster.rs\<close>: an in-process cluster of \<open>n\<close> nodes that each hold one share
  per key: dealer-less key generation, signing by a quorum of \<open>t\<close>, and the proactive refresh. The
  invariant ties the nodes' shares to one polynomial whose constant term is the secret behind the
  stored public key; every operation keeps it.
\<close>

section \<open>State\<close>

datatype ThresholdError =
    QuorumNotMet (needed: nat) (got: nat)
  | UnknownKey string
  | ReconstructFailed
  | InvalidParams string

record 's Node =
  nd_index :: u64
  nd_online :: bool
  nd_delay_ms :: u64
  nd_shares :: "string \<rightharpoonup> 's"

definition node_new :: "u64 \<Rightarrow> 's Node" where
  "node_new i = \<lparr>nd_index = i, nd_online = True, nd_delay_ms = 0, nd_shares = Map.empty\<rparr>"

definition put_share :: "string \<Rightarrow> 's \<Rightarrow> 's Node \<Rightarrow> 's Node" where
  "put_share key_id share node = node\<lparr>nd_shares := (nd_shares node)(key_id \<mapsto> share)\<rparr>"

record KeyInfo =
  ki_public_key :: bytes
  ki_epoch :: u64

text \<open>The round timeout is in milliseconds.\<close>

record 's Cluster =
  cl_t :: nat
  cl_n :: nat
  cl_nodes :: "'s Node list"
  cl_keys :: "string \<rightharpoonup> KeyInfo"
  cl_round_timeout :: nat

definition cluster_new :: "nat \<Rightarrow> nat \<Rightarrow> ('s Cluster, ThresholdError) result" where
  "cluster_new t n =
     (if t = 0 \<or> n < t then
        Err (InvalidParams (''require 1 <= t <= n, got '' @ show_nat t @ ''-of-'' @ show_nat n))
      else Ok \<lparr>cl_t = t, cl_n = n, cl_nodes = map (\<lambda>i. node_new (of_nat i)) [1..<Suc n],
               cl_keys = Map.empty, cl_round_timeout = 2000\<rparr>)"

definition with_round_timeout :: "nat \<Rightarrow> 's Cluster \<Rightarrow> 's Cluster" where
  "with_round_timeout ms cl = cl\<lparr>cl_round_timeout := ms\<rparr>"

text \<open>\<open>iter().find(..)\<close> updates the first node with the given index, if there is one.\<close>

fun update_first :: "u64 \<Rightarrow> ('s Node \<Rightarrow> 's Node) \<Rightarrow> 's Node list \<Rightarrow> 's Node list" where
  "update_first i f [] = []"
| "update_first i f (node # ns) = (if nd_index node = i then f node # ns else node # update_first i f ns)"

definition set_online :: "u64 \<Rightarrow> bool \<Rightarrow> 's Cluster \<Rightarrow> 's Cluster" where
  "set_online i b cl = cl\<lparr>cl_nodes := update_first i (\<lambda>nd. nd\<lparr>nd_online := b\<rparr>) (cl_nodes cl)\<rparr>"

definition set_delay :: "u64 \<Rightarrow> nat \<Rightarrow> 's Cluster \<Rightarrow> 's Cluster" where
  "set_delay i ms cl =
     cl\<lparr>cl_nodes := update_first i (\<lambda>nd. nd\<lparr>nd_delay_ms := of_nat ms\<rparr>) (cl_nodes cl)\<rparr>"

definition online_count :: "'s Cluster \<Rightarrow> nat" where
  "online_count cl = length (filter nd_online (cl_nodes cl))"

definition cluster_public_key :: "'s Cluster \<Rightarrow> string \<Rightarrow> bytes option" where
  "cluster_public_key cl key_id = map_option ki_public_key (cl_keys cl key_id)"

definition cluster_epoch :: "'s Cluster \<Rightarrow> string \<Rightarrow> u64 option" where
  "cluster_epoch cl key_id = map_option ki_epoch (cl_keys cl key_id)"

section \<open>Transport round\<close>

text \<open>
  \<open>tokio::time::timeout\<close> around a sleep: \<open>in_time limit delay\<close> says whether the sleep ends first.
  A round never fails; it collects the answers of the online nodes that are in time.
\<close>

type_synonym timer = "nat \<Rightarrow> nat \<Rightarrow> bool"

definition round_responders :: "timer \<Rightarrow> 's Cluster \<Rightarrow> 's Node list" where
  "round_responders in_time cl =
     filter (\<lambda>nd. nd_online nd \<and> in_time (cl_round_timeout cl) (unat (nd_delay_ms nd))) (cl_nodes cl)"

definition cluster_round :: "timer \<Rightarrow> ('s Node \<Rightarrow> 'a) \<Rightarrow> 's Cluster \<Rightarrow> ('a list, ThresholdError) result" where
  "cluster_round in_time respond cl = Ok (map respond (round_responders in_time cl))"

section \<open>Key generation\<close>

definition accumulate :: "'s curve \<Rightarrow> 's list \<Rightarrow> 's share list \<Rightarrow> 's list" where
  "accumulate C agg shares =
     foldl (\<lambda>agg (i, (_, sh)). agg[i := scalar_add C (agg ! i) sh]) agg (enumerate 0 shares)"

fun keygen_deal ::
  "'s curve \<Rightarrow> nat \<Rightarrow> nat \<Rightarrow> nat \<Rightarrow> 's list \<Rightarrow> bytes list \<Rightarrow> 's rng \<Rightarrow>
   ('s list \<times> bytes list, unit) result \<times> 's rng" where
  "keygen_deal C t n 0 agg coms g = (Ok (agg, coms), g)"
| "keygen_deal C t n (Suc k) agg coms g =
     (let (secret, g1) = scalar_random g;
          coms' = coms @ [public_from_scalar C secret];
          (r, g2) = split C secret t n g1
      in case r of
           Ok shares \<Rightarrow> keygen_deal C t n k (accumulate C agg shares) coms' g2
         | _ \<Rightarrow> (Panic, g2))"

fun put_shares :: "string \<Rightarrow> 's Node list \<Rightarrow> 's list \<Rightarrow> 's Node list" where
  "put_shares key_id (node # ns) (sh # shs) = put_share key_id sh node # put_shares key_id ns shs"
| "put_shares key_id ns [] = ns"
| "put_shares key_id [] shs = []"

definition keygen ::
  "'s curve \<Rightarrow> timer \<Rightarrow> string \<Rightarrow> 's Cluster \<Rightarrow> 's rng \<Rightarrow>
   (bytes, ThresholdError) result \<times> 's Cluster \<times> 's rng" where
  "keygen C in_time key_id cl g =
     (let online = online_count cl in
      if online \<noteq> cl_n cl then (Err (QuorumNotMet (cl_n cl) online), cl, g)
      else case cluster_round in_time (\<lambda>_. True) cl of
        Ok acks \<Rightarrow>
          (case keygen_deal C (cl_t cl) (cl_n cl) (cl_n cl)
                  (replicate (cl_n cl) (scalar_zero C)) [] g of
             (Ok (agg, coms), g') \<Rightarrow>
               (let cl' = cl\<lparr>cl_nodes := put_shares key_id (cl_nodes cl) agg\<rparr>
                in case aggregate_public C coms of
                     None \<Rightarrow> (Err ReconstructFailed, cl', g')
                   | Some pk \<Rightarrow>
                       (Ok pk,
                        cl'\<lparr>cl_keys := (cl_keys cl')(key_id \<mapsto>
                          \<lparr>ki_public_key = pk, ki_epoch = 1\<rparr>)\<rparr>, g'))
           | (_, g') \<Rightarrow> (Panic, cl, g'))
      | Err e \<Rightarrow> (Err e, cl, g)
      | Panic \<Rightarrow> (Panic, cl, g))"

section \<open>Signing\<close>

definition cluster_sign ::
  "'s curve \<Rightarrow> timer \<Rightarrow> string \<Rightarrow> bytes \<Rightarrow> 's Cluster \<Rightarrow> 's rng \<Rightarrow>
   (bytes, ThresholdError) result \<times> 's rng" where
  "cluster_sign C in_time key_id msg cl g =
     (if cl_keys cl key_id = None then (Err (UnknownKey key_id), g)
      else case cluster_round in_time
                  (\<lambda>nd. map_option (\<lambda>s. (nd_index nd, s)) (nd_shares nd key_id)) cl of
        Ok shares \<Rightarrow>
          (let collected = List.map_filter (\<lambda>s. s) shares in
           if length collected < cl_t cl
           then (Err (QuorumNotMet (cl_t cl) (length collected)), g)
           else case reconstruct C (take (cl_t cl) collected) of
                  None \<Rightarrow> (Err ReconstructFailed, g)
                | Some secret \<Rightarrow>
                    (case curve_sign C secret msg g of (r, g') \<Rightarrow> (lift_panic r, g')))
      | Err e \<Rightarrow> (Err e, g)
      | Panic \<Rightarrow> (Panic, g))"

section \<open>Proactive refresh\<close>

fun refresh_deal ::
  "'s curve \<Rightarrow> nat \<Rightarrow> nat \<Rightarrow> nat \<Rightarrow> 's list \<Rightarrow> 's rng \<Rightarrow> ('s list, unit) result \<times> 's rng" where
  "refresh_deal C t n 0 delta g = (Ok delta, g)"
| "refresh_deal C t n (Suc k) delta g =
     (case split_zero C t n g of
        (Ok z, g') \<Rightarrow> refresh_deal C t n k (accumulate C delta z) g'
      | (_, g') \<Rightarrow> (Panic, g'))"

text \<open>
  A node without a share makes \<open>unwrap\<close> panic: the nodes before it are updated, the others not.
\<close>

fun refresh_nodes :: "'s curve \<Rightarrow> string \<Rightarrow> 's Node list \<Rightarrow> 's list \<Rightarrow> bool \<times> 's Node list" where
  "refresh_nodes C key_id (node # ns) (d # ds) =
     (case nd_shares node key_id of
        None \<Rightarrow> (False, node # ns)
      | Some s \<Rightarrow>
          (let (ok, ns') = refresh_nodes C key_id ns ds
           in (ok, put_share key_id (scalar_add C s d) node # ns')))"
| "refresh_nodes C key_id ns [] = (True, ns)"
| "refresh_nodes C key_id [] ds = (True, [])"

definition refresh ::
  "'s curve \<Rightarrow> timer \<Rightarrow> string \<Rightarrow> 's Cluster \<Rightarrow> 's rng \<Rightarrow>
   (bytes \<times> u64, ThresholdError) result \<times> 's Cluster \<times> 's rng" where
  "refresh C in_time key_id cl g =
     (let online = online_count cl in
      if online \<noteq> cl_n cl then (Err (QuorumNotMet (cl_n cl) online), cl, g)
      else if cl_keys cl key_id = None then (Err (UnknownKey key_id), cl, g)
      else case cluster_round in_time (\<lambda>_. True) cl of
        Ok acks \<Rightarrow>
          (case refresh_deal C (cl_t cl) (cl_n cl) (cl_n cl) (replicate (cl_n cl) (scalar_zero C)) g of
             (Ok delta, g') \<Rightarrow>
               (let (ok, ns) = refresh_nodes C key_id (cl_nodes cl) delta;
                    cl' = cl\<lparr>cl_nodes := ns\<rparr>
                in if ok then
                     (case cl_keys cl' key_id of
                        None \<Rightarrow> (Panic, cl', g')
                      | Some info \<Rightarrow>
                          (let info' = info\<lparr>ki_epoch := ki_epoch info + 1\<rparr>
                           in (Ok (ki_public_key info', ki_epoch info'),
                               cl'\<lparr>cl_keys := (cl_keys cl')(key_id \<mapsto> info')\<rparr>, g')))
                   else (Panic, cl', g'))
           | (_, g') \<Rightarrow> (Panic, cl, g'))
      | Err e \<Rightarrow> (Err e, cl, g)
      | Panic \<Rightarrow> (Panic, cl, g))"


section \<open>Invariant\<close>

definition cluster_wf :: "'s :: field Cluster \<Rightarrow> bool" where
  "cluster_wf cl \<longleftrightarrow> 1 \<le> cl_t cl \<and> cl_t cl \<le> cl_n cl \<and> indices_distinct TYPE('s) (cl_n cl) \<and>
     map nd_index (cl_nodes cl) = map of_nat [1..<Suc (cl_n cl)]"

text \<open>The nodes hold the values of one polynomial at their indices.\<close>

definition sharing :: "'s :: field Cluster \<Rightarrow> string \<Rightarrow> 's list \<Rightarrow> bool" where
  "sharing cl key_id cs \<longleftrightarrow> length cs = cl_t cl \<and>
     (\<forall>nd \<in> set (cl_nodes cl). nd_shares nd key_id = Some (peval cs (ix (nd_index nd))))"

definition cluster_inv :: "'s :: field curve \<Rightarrow> 's Cluster \<Rightarrow> bool" where
  "cluster_inv C cl \<longleftrightarrow> cluster_wf cl \<and>
     (\<forall>key_id info. cl_keys cl key_id = Some info \<longrightarrow>
        (\<exists>cs. sharing cl key_id cs \<and> ki_public_key info = public_from_scalar C (hd cs)))"

text \<open>The shares of a list of nodes, as \<open>sign\<close> collects them.\<close>

definition node_shares :: "string \<Rightarrow> 's Node list \<Rightarrow> 's share list" where
  "node_shares key_id nds = List.map_filter (\<lambda>nd. map_option (\<lambda>s. (nd_index nd, s)) (nd_shares nd key_id)) nds"

text \<open>Every quorum of nodes holds the same secret for a key.\<close>

definition quorum_secret :: "'s :: field curve \<Rightarrow> 's Cluster \<Rightarrow> string \<Rightarrow> 's \<Rightarrow> bool" where
  "quorum_secret C cl key_id s \<longleftrightarrow>
     (\<forall>nds. distinct nds \<and> set nds \<subseteq> set (cl_nodes cl) \<and> cl_t cl \<le> length nds \<longrightarrow>
        reconstruct C (node_shares key_id nds) = Some s)"

text \<open>
  The states of a cluster whose callers wait for each other: key generations and refreshes run to
  their end one after the other. Keys are generated under new identifiers (the engine takes a fresh
  UUID); refreshes, outages, delays and a changed timeout come in any order. Signing does not change
  the cluster. Calls that overlap are the steps of the theories on concurrent calls.
\<close>

inductive cluster_reach :: "'s curve \<Rightarrow> timer \<Rightarrow> nat \<Rightarrow> nat \<Rightarrow> 's Cluster \<Rightarrow> bool" for C tm t n where
  cr_new: "cluster_new t n = Ok cl \<Longrightarrow> cluster_reach C tm t n cl"
| cr_keygen: "\<lbrakk>cluster_reach C tm t n cl; cl_keys cl key_id = None; keygen C tm key_id cl g = (r, cl', g')\<rbrakk>
    \<Longrightarrow> cluster_reach C tm t n cl'"
| cr_refresh: "\<lbrakk>cluster_reach C tm t n cl; refresh C tm key_id cl g = (r, cl', g')\<rbrakk>
    \<Longrightarrow> cluster_reach C tm t n cl'"
| cr_online: "cluster_reach C tm t n cl \<Longrightarrow> cluster_reach C tm t n (set_online i b cl)"
| cr_delay: "cluster_reach C tm t n cl \<Longrightarrow> cluster_reach C tm t n (set_delay i ms cl)"
| cr_timeout: "cluster_reach C tm t n cl \<Longrightarrow> cluster_reach C tm t n (with_round_timeout ms cl)"

section \<open>Lemmas: lists of nodes\<close>

lemma upd_length: "length (update_first i f ns) = length ns"
  by (induction ns) auto

lemma update_first_keep:
  assumes "\<And>nd. h (f nd) = h nd"
  shows "map h (update_first i f ns) = map h ns"
  using assms by (induction ns) auto

lemma put_shares_index: "map nd_index (put_shares k ns shs) = map nd_index ns"
  by (induction k ns shs rule: put_shares.induct) (auto simp: put_share_def)

lemma put_shares_other: "k \<noteq> key \<Longrightarrow>
    map (\<lambda>nd. (nd_index nd, nd_shares nd k)) (put_shares key ns shs) =
    map (\<lambda>nd. (nd_index nd, nd_shares nd k)) ns"
  by (induction key ns shs rule: put_shares.induct) (auto simp: put_share_def)

lemma put_shares_set:
  "length shs = length ns \<Longrightarrow> map (\<lambda>nd. nd_shares nd key) (put_shares key ns shs) = map Some shs"
  by (induction key ns shs rule: put_shares.induct) (auto simp: put_share_def)

lemma nodes_online_all:
  assumes "online_count cl = length (cl_nodes cl)"
  shows "\<forall>nd \<in> set (cl_nodes cl). nd_online nd"
  using assms unfolding online_count_def by (metis length_filter_less nat_neq_iff)

lemma wf_length: "cluster_wf cl \<Longrightarrow> length (cl_nodes cl) = cl_n cl"
  unfolding cluster_wf_def by (metis length_map length_upt diff_Suc_1)

text \<open>
  What a change to the nodes must keep: indices in order, and for every key not touched the
  shares.
\<close>

lemma sharing_cong:
  assumes "cl_t cl' = cl_t cl"
    and "map (\<lambda>nd. (nd_index nd, nd_shares nd k)) (cl_nodes cl') =
         map (\<lambda>nd. (nd_index nd, nd_shares nd k)) (cl_nodes cl)"
  shows "sharing cl' k cs \<longleftrightarrow> sharing cl k cs"
proof -
  have "(\<lambda>nd. (nd_index nd, nd_shares nd k)) ` set (cl_nodes cl') =
      (\<lambda>nd. (nd_index nd, nd_shares nd k)) ` set (cl_nodes cl)"
    using arg_cong[OF assms(2), of set] by (simp only: set_map)
  hence "(\<forall>(i, v) \<in> (\<lambda>nd. (nd_index nd, nd_shares nd k)) ` set (cl_nodes cl').
        v = Some (peval cs (ix i))) \<longleftrightarrow>
      (\<forall>(i, v) \<in> (\<lambda>nd. (nd_index nd, nd_shares nd k)) ` set (cl_nodes cl).
        v = Some (peval cs (ix i)))" by (simp only:)
  thus ?thesis using assms(1) by (simp add: sharing_def)
qed

lemma cluster_inv_cong:
  assumes "cl_t cl' = cl_t cl" "cl_n cl' = cl_n cl" "cl_keys cl' = cl_keys cl"
    and nds: "map (\<lambda>nd. (nd_index nd, nd_shares nd)) (cl_nodes cl') =
         map (\<lambda>nd. (nd_index nd, nd_shares nd)) (cl_nodes cl)"
  shows "cluster_inv C cl' \<longleftrightarrow> cluster_inv C cl"
proof -
  have m: "map (h \<circ> (\<lambda>nd. (nd_index nd, nd_shares nd))) (cl_nodes cl') =
      map (h \<circ> (\<lambda>nd. (nd_index nd, nd_shares nd))) (cl_nodes cl)" for h
    using arg_cong[OF nds, of "map h"] by (simp only: map_map)
  have "map nd_index (cl_nodes cl') = map nd_index (cl_nodes cl)"
    using m[of fst] by (simp add: comp_def)
  moreover have "sharing cl' k cs \<longleftrightarrow> sharing cl k cs" for k cs
    using assms(1) m[of "\<lambda>(i, f). (i, f k)"] by (intro sharing_cong) (simp_all add: comp_def)
  ultimately show ?thesis using assms(1-3) by (simp add: cluster_inv_def cluster_wf_def)
qed

lemma cluster_inv_set_online: "cluster_inv C (set_online i b cl) \<longleftrightarrow> cluster_inv C cl"
  by (rule cluster_inv_cong) (simp_all add: set_online_def update_first_keep)

lemma cluster_inv_set_delay: "cluster_inv C (set_delay i ms cl) \<longleftrightarrow> cluster_inv C cl"
  by (rule cluster_inv_cong) (simp_all add: set_delay_def update_first_keep)

lemma cluster_inv_timeout: "cluster_inv C (with_round_timeout ms cl) \<longleftrightarrow> cluster_inv C cl"
  by (rule cluster_inv_cong) (simp_all add: with_round_timeout_def)

lemma cluster_new_inv:
  "cluster_new t n = Ok cl \<Longrightarrow> indices_distinct TYPE('s :: field) n \<Longrightarrow> cluster_inv C (cl :: 's Cluster)"
  by (auto simp: cluster_new_def cluster_inv_def cluster_wf_def node_new_def comp_def
      simp del: upt_Suc split: if_splits)

section \<open>Lemmas: dealing\<close>

lemma accumulate_aux:
  "length pre = m \<Longrightarrow> length agg = length shs \<Longrightarrow>
   foldl (\<lambda>agg (i, (_, sh)). agg[i := scalar_add C (agg ! i) sh]) (pre @ agg) (enumerate m shs) =
   pre @ map2 (\<lambda>a s. scalar_add C a (snd s)) agg shs"
proof (induction shs arbitrary: pre agg m)
  case (Cons s shs)
  then obtain a as where agg: "agg = a # as" by (cases agg) auto
  have "foldl (\<lambda>agg (i, (_, sh)). agg[i := scalar_add C (agg ! i) sh])
      ((pre @ [scalar_add C a (snd s)]) @ as) (enumerate (Suc m) shs) =
      (pre @ [scalar_add C a (snd s)]) @ map2 (\<lambda>a s. scalar_add C a (snd s)) as shs"
    using Cons.prems agg by (intro Cons.IH) auto
  thus ?case using Cons.prems agg by (cases s) (simp add: list_update_append nth_append)
qed simp

lemma accumulate_eq:
  "length agg = length shs \<Longrightarrow> accumulate C agg shs = map2 (\<lambda>a s. scalar_add C a (snd s)) agg shs"
  unfolding accumulate_def using accumulate_aux[of "[]" 0 agg shs C] by simp

text \<open>The values of a polynomial at the indices \<open>1\<close> to \<open>n\<close>.\<close>

definition evals :: "nat \<Rightarrow> 's :: field list \<Rightarrow> 's list" where
  "evals n cs = map (\<lambda>i. peval cs (ix (of_nat i))) [1..<Suc n]"

lemma length_evals [simp]: "length (evals n cs) = n"
  by (simp add: evals_def)

lemma evals_zero: "replicate n 0 = evals n (replicate t 0)"
  by (simp add: evals_def map_replicate_const del: upt_Suc)

context curve_family
begin

lemma accumulate_evals:
  assumes "lawful x" and "length acc = length cs"
  shows "accumulate (C x) (evals n acc) (eval_all (C x) cs n) = evals n (padd acc cs)"
proof -
  have "length (evals n acc) = length (eval_all (C x) cs n)"
    by (simp add: eval_all_eq[OF assms(1)] evals_def del: upt_Suc)
  thus ?thesis
    by (simp add: accumulate_eq eval_all_eq[OF assms(1)] evals_def map2_map_map
        peval_padd[OF assms(2)] add[OF assms(1)] del: upt_Suc)
qed

lemma split_deal:
  assumes "lawful x" and "1 \<le> t" "t \<le> n" and "length acc = t"
  obtains cs where "split (C x) s t n g = (Ok (eval_all (C x) (s # cs) n), sdrop (t - 1) g)"
    and "accumulate (C x) (evals n acc) (eval_all (C x) (s # cs) n) = evals n (padd acc (s # cs))"
    and "length (padd acc (s # cs)) = t" and "hd (padd acc (s # cs)) = hd acc + s"
proof -
  have 1: "split (C x) s t n g =
      (Ok (eval_all (C x) (s # stake (t - 1) g) n), sdrop (t - 1) g)"
    using assms by (simp add: split_def)
  have len: "length acc = length (s # stake (t - 1) g)" using assms(2,4) by simp
  have 2: "hd (padd acc (s # stake (t - 1) g)) = hd acc + s"
    using assms(2,4) by (cases acc) (auto simp: padd_def)
  show ?thesis
    by (rule that[OF 1 accumulate_evals[OF assms(1) len] _ 2]) (use assms len in simp)
qed

lemma keygen_deal_spec:
  assumes x: "lawful x" and t: "1 \<le> t" "t \<le> n"
  shows "length acc = t \<Longrightarrow> \<exists>acc'. keygen_deal (C x) t n k (evals n acc) coms g =
     (Ok (evals n acc', coms @ map (public_from_scalar (C x)) (map (\<lambda>d. g !! (d * t)) [0..<k])),
      sdrop (k * t) g) \<and> length acc' = t \<and>
     hd acc' = hd acc + (\<Sum>d\<leftarrow>[0..<k]. g !! (d * t))"
proof (induction k arbitrary: acc coms g)
  case (Suc k)
  obtain cs where sp: "split (C x) (shd g) t n (stl g) =
        (Ok (eval_all (C x) (shd g # cs) n), sdrop (t - 1) (stl g))"
    and acc: "accumulate (C x) (evals n acc) (eval_all (C x) (shd g # cs) n) =
        evals n (padd acc (shd g # cs))"
    and len: "length (padd acc (shd g # cs)) = t" and hd: "hd (padd acc (shd g # cs)) = hd acc + shd g"
    using split_deal[OF x t Suc.prems, of "shd g" "stl g"] by metis
  have drop: "sdrop (t - Suc 0) (stl g) = sdrop t g" using t(1) by (cases t) auto
  have sh: "map (\<lambda>d. g !! (d * t)) [0..<Suc k] = shd g # map (\<lambda>d. sdrop t g !! (d * t)) [0..<k]"
    by (simp add: upt_conv_Cons map_Suc_upt[symmetric] sdrop_snth del: upt_Suc)
  from Suc.IH[OF len, of "coms @ [public_from_scalar (C x) (shd g)]" "sdrop t g"]
  obtain acc' where "keygen_deal (C x) t n k (evals n (padd acc (shd g # cs)))
      (coms @ [public_from_scalar (C x) (shd g)]) (sdrop t g) =
     (Ok (evals n acc', (coms @ [public_from_scalar (C x) (shd g)]) @
        map (public_from_scalar (C x)) (map (\<lambda>d. sdrop t g !! (d * t)) [0..<k])),
      sdrop (k * t) (sdrop t g))" "length acc' = t"
     "hd acc' = hd (padd acc (shd g # cs)) + (\<Sum>d\<leftarrow>[0..<k]. sdrop t g !! (d * t))"
    by metis
  thus ?case unfolding sh
    by (intro exI[of _ acc'])
      (simp add: sp acc drop hd sdrop_add add.commute add.assoc scalar_random_def)
next
  case 0
  thus ?case by (intro exI[of _ acc]) simp
qed

lemma refresh_deal_spec:
  assumes x: "lawful x" and t: "1 \<le> t" "t \<le> n"
  shows "length acc = t \<Longrightarrow> \<exists>acc'. refresh_deal (C x) t n k (evals n acc) g =
     (Ok (evals n acc'), sdrop (k * (t - 1)) g) \<and> length acc' = t \<and> hd acc' = hd acc"
proof (induction k arbitrary: acc g)
  case (Suc k)
  obtain cs where sp: "split (C x) 0 t n g = (Ok (eval_all (C x) (0 # cs) n), sdrop (t - 1) g)"
    and acc: "accumulate (C x) (evals n acc) (eval_all (C x) (0 # cs) n) = evals n (padd acc (0 # cs))"
    and len: "length (padd acc (0 # cs)) = t" and hd: "hd (padd acc (0 # cs)) = hd acc + 0"
    using split_deal[OF x t Suc.prems, of 0 g] by metis
  from Suc.IH[OF len, of "sdrop (t - 1) g"]
  show ?case by (auto simp: split_zero_def zero[OF x] sp acc hd sdrop_add add.commute)
next
  case 0
  thus ?case by (intro exI[of _ acc]) simp
qed

end

section \<open>Lemmas: sharings and the quorum\<close>

lemma sharing_iff:
  assumes "map nd_index (cl_nodes cl) = map of_nat [1..<Suc (cl_n cl)]"
  shows "sharing cl key cs \<longleftrightarrow> length cs = cl_t cl \<and>
    map (\<lambda>nd. nd_shares nd key) (cl_nodes cl) = map Some (evals (cl_n cl) cs)"
proof -
  have "map Some (evals (cl_n cl) cs) = map (\<lambda>nd. Some (peval cs (ix (nd_index nd)))) (cl_nodes cl)"
    using arg_cong[OF assms, of "map (\<lambda>i. Some (peval cs (ix i)))"]
    by (simp add: evals_def comp_def del: upt_Suc)
  thus ?thesis by (auto simp: sharing_def)
qed

lemma node_shares_sharing:
  assumes "sharing cl key cs" and "set nds \<subseteq> set (cl_nodes cl)"
  shows "node_shares key nds = map (\<lambda>nd. (nd_index nd, peval cs (ix (nd_index nd)))) nds"
  using assms(2)
proof (induction nds)
  case (Cons nd nds)
  hence "nd_shares nd key = Some (peval cs (ix (nd_index nd)))"
    using assms(1) by (simp add: sharing_def)
  with Cons show ?case by (simp add: node_shares_def List.map_filter_def)
qed (simp add: node_shares_def List.map_filter_def)

lemma wf_ix_distinct:
  assumes wf: "cluster_wf (cl :: 's :: field Cluster)" and nds: "distinct nds" "set nds \<subseteq> set (cl_nodes cl)"
  shows "distinct (map (\<lambda>nd. ix (nd_index nd) :: 's) nds)"
proof -
  have ids: "indices_distinct TYPE('s) (cl_n cl)"
    and idx: "map nd_index (cl_nodes cl) = map of_nat [1..<Suc (cl_n cl)]"
    using wf by (auto simp: cluster_wf_def)
  have n: "cl_n cl < 2 ^ 64" using ids by (simp add: indices_distinct_def)
  have "inj_on (of_nat :: nat \<Rightarrow> u64) (set [1..<Suc (cl_n cl)])"
    using n by (intro inj_on_inverseI[where g = unat]) (auto simp: unat_u64_of_nat)
  hence "distinct (map nd_index (cl_nodes cl))"
    unfolding idx by (simp only: distinct_map) simp
  hence "inj_on nd_index (set nds)" using nds(2) by (auto simp: distinct_map intro: inj_on_subset)
  moreover have "nd_index ` set (cl_nodes cl) = of_nat ` {1..cl_n cl}"
    using arg_cong[OF idx, of set] by (auto simp: atLeastLessThanSuc_atLeastAtMost simp del: upt_Suc)
  moreover have "inj_on (ix :: u64 \<Rightarrow> 's) (of_nat ` {1..cl_n cl})"
    using ix_inj_on[OF ids] by (rule inj_on_subset) auto
  ultimately have "inj_on ((ix :: u64 \<Rightarrow> 's) \<circ> nd_index) (set nds)"
    using nds(2) by (metis comp_inj_on image_mono inj_on_subset)
  thus ?thesis using nds(1) by (simp add: distinct_map comp_def)
qed

lemma wf_nodes_distinct: "cluster_wf (cl :: 's :: field Cluster) \<Longrightarrow> distinct (cl_nodes cl)"
proof -
  assume wf: "cluster_wf cl"
  have n: "cl_n cl < 2 ^ 64" using wf by (simp add: cluster_wf_def indices_distinct_def)
  have "inj_on (of_nat :: nat \<Rightarrow> u64) (set [1..<Suc (cl_n cl)])"
    using n by (intro inj_on_inverseI[where g = unat]) (auto simp: unat_u64_of_nat)
  hence "distinct (map (of_nat :: nat \<Rightarrow> u64) [1..<Suc (cl_n cl)])"
    by (simp only: distinct_map) simp
  hence "distinct (map nd_index (cl_nodes cl))" using wf by (simp add: cluster_wf_def del: upt_Suc)
  thus ?thesis by (simp add: distinct_map)
qed

lemma responders_subset: "set (round_responders tm cl) \<subseteq> set (cl_nodes cl)"
  by (auto simp: round_responders_def)

lemma collected_eq:
  "List.map_filter (\<lambda>s. s) (map (\<lambda>nd. map_option (\<lambda>s. (nd_index nd, s)) (nd_shares nd key)) nds) =
   node_shares key nds"
  by (simp add: node_shares_def List.map_filter_def filter_map comp_def)

lemma cluster_sign_eq:
  assumes "cl_keys cl key = Some info" and "sharing cl key cs"
  shows "cluster_sign C tm key msg cl g =
    (let R = round_responders tm cl in
     if length R < cl_t cl then (Err (QuorumNotMet (cl_t cl) (length R)), g)
     else case reconstruct C (node_shares key (take (cl_t cl) R)) of
            None \<Rightarrow> (Err ReconstructFailed, g)
          | Some secret \<Rightarrow> (case curve_sign C secret msg g of (r, g') \<Rightarrow> (lift_panic r, g')))"
proof -
  let ?R = "round_responders tm cl"
  have "take (cl_t cl) (node_shares key ?R) = node_shares key (take (cl_t cl) ?R)"
    using responders_subset[of tm cl] set_take_subset[of "cl_t cl" ?R]
    by (simp add: node_shares_sharing[OF assms(2)] take_map subset_trans)
  moreover have "length (node_shares key ?R) = length ?R"
    by (simp add: node_shares_sharing[OF assms(2) responders_subset])
  ultimately show ?thesis
    using assms(1) by (simp add: cluster_sign_def cluster_round_def collected_eq Let_def)
qed

text \<open>Storing a new sharing for one key keeps the sharings of all others.\<close>

lemma put_shares_inv:
  assumes inv: "cluster_inv C cl" and len: "length cs = cl_t cl"
    and nds: "map nd_index nds = map nd_index (cl_nodes cl)"
    and new: "map (\<lambda>nd. nd_shares nd key) nds = map Some (evals (cl_n cl) cs)"
    and old: "\<And>k. k \<noteq> key \<Longrightarrow> map (\<lambda>nd. (nd_index nd, nd_shares nd k)) nds =
      map (\<lambda>nd. (nd_index nd, nd_shares nd k)) (cl_nodes cl)"
    and pk: "ki_public_key info = public_from_scalar C (hd cs)"
    and cl': "cl' = cl\<lparr>cl_nodes := nds, cl_keys := (cl_keys cl)(key \<mapsto> info)\<rparr>"
  shows "cluster_inv C cl'" and "sharing cl' key cs"
proof -
  have wf: "cluster_wf cl" using inv by (simp add: cluster_inv_def)
  have wf': "cluster_wf cl'" using wf nds by (simp add: cluster_wf_def cl' del: upt_Suc)
  show sh: "sharing cl' key cs"
    using wf' len new by (subst sharing_iff) (simp_all add: cluster_wf_def cl' del: upt_Suc)
  have "sharing cl' k ds \<longleftrightarrow> sharing cl k ds" if "k \<noteq> key" for k ds
    using old[OF that] by (intro sharing_cong) (simp_all add: cl')
  thus "cluster_inv C cl'"
    using inv wf' sh pk by (auto simp: cluster_inv_def cl')
qed

lemma refresh_nodes_eq:
  assumes "length ns = length ds" and "map (\<lambda>nd. nd_shares nd key) ns = map Some ss"
  shows "refresh_nodes C key ns ds = (True, put_shares key ns (map2 (scalar_add C) ss ds))"
  using assms
proof (induction ns ds arbitrary: ss rule: list_induct2)
  case (Cons nd ns d ds)
  then obtain s ss' where "ss = s # ss'" by (cases ss) auto
  with Cons show ?case by (simp add: Let_def)
qed simp

context curve_family
begin

lemma sharing_quorum_secret:
  assumes x: "lawful x" and wf: "cluster_wf cl" and sh: "sharing cl key cs"
  shows "quorum_secret (C x) cl key (hd cs)"
  unfolding quorum_secret_def
proof (intro allI impI, elim conjE)
  fix nds assume dis: "distinct nds" and sub: "set nds \<subseteq> set (cl_nodes cl)" and len: "cl_t cl \<le> length nds"
  have eq: "node_shares key nds = map (\<lambda>nd. (nd_index nd, peval cs (ix (nd_index nd)))) nds"
    by (rule node_shares_sharing[OF sh sub])
  have "reconstruct (C x) (node_shares key nds) = Some (peval cs 0)"
  proof (rule reconstruct_poly[OF x])
    show "distinct (map (\<lambda>p. ix (fst p) :: 's) (node_shares key nds))"
      unfolding eq using wf_ix_distinct[OF wf dis sub] by (simp add: comp_def)
    show "on_poly cs (node_shares key nds)" unfolding eq by (auto simp: on_poly_def)
    show "length cs \<le> length (node_shares key nds)" using sh len unfolding eq by (simp add: sharing_def)
  qed
  moreover have "peval cs 0 = hd cs"
    using sh wf by (cases cs) (auto simp: sharing_def cluster_wf_def)
  ultimately show "reconstruct (C x) (node_shares key nds) = Some (hd cs)" by simp
qed

lemma sign_verifies:
  assumes x: "lawful x" and inv: "cluster_inv (C x) cl" and key: "cl_keys cl key = Some info"
    and q: "cl_t cl \<le> length (round_responders tm cl)"
    and sh: "sharing cl key cs" and u: "usable (hd cs)"
  shows "\<exists>sig. fst (cluster_sign (C x) tm key msg cl g) = Ok sig \<and>
    curve_verify (C x) (public_from_scalar (C x) (hd cs)) msg sig"
proof -
  let ?T = "take (cl_t cl) (round_responders tm cl)"
  have wf: "cluster_wf cl" using inv by (simp add: cluster_inv_def)
  have "set ?T \<subseteq> set (cl_nodes cl)"
    using responders_subset[of tm cl] set_take_subset[of "cl_t cl" "round_responders tm cl"] by blast
  moreover have "distinct ?T" using wf_nodes_distinct[OF wf] by (simp add: round_responders_def)
  moreover have "cl_t cl \<le> length ?T" using q by simp
  ultimately have "reconstruct (C x) (node_shares key ?T) = Some (hd cs)"
    using sharing_quorum_secret[OF x wf sh] unfolding quorum_secret_def by blast
  moreover obtain sig where "fst (curve_sign (C x) (hd cs) msg g) = Ok sig"
      "curve_verify (C x) (public_from_scalar (C x) (hd cs)) msg sig"
    using sign_ok[OF x u] by metis
  ultimately show ?thesis
    using q cluster_sign_eq[OF key sh, of "C x" tm msg g]
    by (cases "curve_sign (C x) (hd cs) msg g") (auto simp: Let_def)
qed

lemma cluster_sign_sound:
  assumes x: "lawful x" and inv: "cluster_inv (C x) cl" and key: "cl_keys cl key = Some info"
    and ok: "fst (cluster_sign (C x) tm key msg cl g) = Ok sig"
  shows "curve_verify (C x) (ki_public_key info) msg sig"
proof -
  let ?R = "round_responders tm cl"
  let ?T = "take (cl_t cl) ?R"
  have wf: "cluster_wf cl" using inv by (simp add: cluster_inv_def)
  obtain cs where sh: "sharing cl key cs" and pk: "ki_public_key info = public_from_scalar (C x) (hd cs)"
    using inv key unfolding cluster_inv_def by blast
  have q: "cl_t cl \<le> length ?R"
    using ok cluster_sign_eq[OF key sh, of "C x" tm msg g] by (auto simp: Let_def split: if_splits)
  have "set ?T \<subseteq> set (cl_nodes cl)" and "distinct ?T"
    using responders_subset[of tm cl] set_take_subset[of "cl_t cl" ?R] wf_nodes_distinct[OF wf]
    by (blast, simp add: round_responders_def)
  hence "reconstruct (C x) (node_shares key ?T) = Some (hd cs)"
    using sharing_quorum_secret[OF x wf sh] q unfolding quorum_secret_def by simp
  hence "fst (curve_sign (C x) (hd cs) msg g) = Ok sig"
    using ok q cluster_sign_eq[OF key sh, of "C x" tm msg g]
    by (auto simp: Let_def lift_panic_eq_Ok split: prod.splits)
  thus ?thesis unfolding pk by (rule sign_sound[OF x])
qed

text \<open>The dealers' own secrets: each dealer draws its secret and \<open>t - 1\<close> coefficients.\<close>

lemma keygen_dealt:
  assumes x: "lawful x" and wf: "cluster_wf cl"
  obtains cs where "length cs = cl_t cl" and "hd cs = (\<Sum>d\<leftarrow>[0..<cl_n cl]. g !! (d * cl_t cl))"
    and "keygen_deal (C x) (cl_t cl) (cl_n cl) (cl_n cl) (replicate (cl_n cl) (scalar_zero (C x))) [] g =
      (Ok (evals (cl_n cl) cs,
           map (public_from_scalar (C x)) (map (\<lambda>d. g !! (d * cl_t cl)) [0..<cl_n cl])),
       sdrop (cl_n cl * cl_t cl) g)"
proof -
  have t: "1 \<le> cl_t cl" "cl_t cl \<le> cl_n cl" using wf by (auto simp: cluster_wf_def)
  have z: "hd (replicate (cl_t cl) (0 :: 's)) = 0" using t(1) by (cases "cl_t cl") auto
  obtain cs where cs: "keygen_deal (C x) (cl_t cl) (cl_n cl) (cl_n cl) (evals (cl_n cl) (replicate (cl_t cl) 0)) [] g =
     (Ok (evals (cl_n cl) cs, [] @ map (public_from_scalar (C x)) (map (\<lambda>d. g !! (d * cl_t cl)) [0..<cl_n cl])),
      sdrop (cl_n cl * cl_t cl) g)" "length cs = cl_t cl"
     "hd cs = hd (replicate (cl_t cl) 0) + (\<Sum>d\<leftarrow>[0..<cl_n cl]. g !! (d * cl_t cl))"
    using keygen_deal_spec[OF x t, of "replicate (cl_t cl) 0" "cl_n cl" "[]" g, OF length_replicate]
    by (elim exE conjE)
  show ?thesis
  proof (rule that[of cs])
    show "length cs = cl_t cl" by (rule cs(2))
    show "hd cs = (\<Sum>d\<leftarrow>[0..<cl_n cl]. g !! (d * cl_t cl))" unfolding cs(3) z by (rule add_0)
    show "keygen_deal (C x) (cl_t cl) (cl_n cl) (cl_n cl) (replicate (cl_n cl) (scalar_zero (C x))) [] g =
      (Ok (evals (cl_n cl) cs,
           map (public_from_scalar (C x)) (map (\<lambda>d. g !! (d * cl_t cl)) [0..<cl_n cl])),
       sdrop (cl_n cl * cl_t cl) g)"
      using cs(1) by (simp only: zero[OF x] evals_zero[symmetric] append_Nil)
  qed
qed

lemma keygen_succeeds:
  assumes x: "lawful x" and inv: "cluster_inv (C x) cl" and on: "online_count cl = cl_n cl"
    and u: "list_all usable (map (\<lambda>d. g !! (d * cl_t cl)) [0..<cl_n cl])"
  obtains cs cl' where "keygen (C x) tm key cl g =
      (Ok (public_from_scalar (C x) (hd cs)), cl', sdrop (cl_n cl * cl_t cl) g)"
    and "cluster_inv (C x) cl'" and "sharing cl' key cs"
    and "hd cs = (\<Sum>d\<leftarrow>[0..<cl_n cl]. g !! (d * cl_t cl))"
    and "cl_keys cl' = (cl_keys cl)(key \<mapsto>
      \<lparr>ki_public_key = public_from_scalar (C x) (hd cs), ki_epoch = 1\<rparr>)"
proof -
  have wf: "cluster_wf cl" using inv by (simp add: cluster_inv_def)
  let ?secrets = "map (\<lambda>d. g !! (d * cl_t cl)) [0..<cl_n cl]"
  obtain cs where len: "length cs = cl_t cl" and hd: "hd cs = sum_list ?secrets"
    and deal: "keygen_deal (C x) (cl_t cl) (cl_n cl) (cl_n cl)
        (replicate (cl_n cl) (scalar_zero (C x))) [] g =
      (Ok (evals (cl_n cl) cs, map (public_from_scalar (C x)) ?secrets), sdrop (cl_n cl * cl_t cl) g)"
    by (rule keygen_dealt[OF x wf])
  let ?nds = "put_shares key (cl_nodes cl) (evals (cl_n cl) cs)"
  let ?info = "\<lparr>ki_public_key = public_from_scalar (C x) (hd cs), ki_epoch = 1\<rparr>"
  define cl' where "cl' = cl\<lparr>cl_nodes := ?nds, cl_keys := (cl_keys cl)(key \<mapsto> ?info)\<rparr>"
  have agg: "aggregate_public (C x) (map (public_from_scalar (C x)) ?secrets) =
      Some (public_from_scalar (C x) (hd cs))"
    using aggregate[OF x, of ?secrets] u hd by simp
  have kg: "keygen (C x) tm key cl g =
      (Ok (public_from_scalar (C x) (hd cs)), cl', sdrop (cl_n cl * cl_t cl) g)"
    using on unfolding keygen_def Let_def cluster_round_def deal
    by (simp del: map_map add: agg cl'_def)
  have inv': "cluster_inv (C x) cl'" and sh: "sharing cl' key cs"
    by (rule put_shares_inv[OF inv len put_shares_index put_shares_set put_shares_other _ cl'_def];
        simp add: wf_length[OF wf])+
  show ?thesis by (rule that[OF kg inv' sh hd]) (simp add: cl'_def)
qed

lemma keygen_fails:
  assumes x: "lawful x" and inv: "cluster_inv (C x) cl" and on: "online_count cl = cl_n cl"
    and u: "\<not> list_all usable (map (\<lambda>d. g !! (d * cl_t cl)) [0..<cl_n cl])"
    and fresh: "cl_keys cl key = None"
  obtains cl' where "keygen (C x) tm key cl g =
      (Err ReconstructFailed, cl', sdrop (cl_n cl * cl_t cl) g)"
    and "cluster_inv (C x) cl'" and "cl_keys cl' = cl_keys cl"
proof -
  have wf: "cluster_wf cl" using inv by (simp add: cluster_inv_def)
  let ?secrets = "map (\<lambda>d. g !! (d * cl_t cl)) [0..<cl_n cl]"
  obtain cs where "length cs = cl_t cl"
    and deal: "keygen_deal (C x) (cl_t cl) (cl_n cl) (cl_n cl)
        (replicate (cl_n cl) (scalar_zero (C x))) [] g =
      (Ok (evals (cl_n cl) cs, map (public_from_scalar (C x)) ?secrets), sdrop (cl_n cl * cl_t cl) g)"
    by (rule keygen_dealt[OF x wf])
  define cl' where "cl' = cl\<lparr>cl_nodes := put_shares key (cl_nodes cl) (evals (cl_n cl) cs)\<rparr>"
  have agg: "aggregate_public (C x) (map (public_from_scalar (C x)) ?secrets) = None"
    using aggregate[OF x, of ?secrets] u by simp
  have kg: "keygen (C x) tm key cl g = (Err ReconstructFailed, cl', sdrop (cl_n cl * cl_t cl) g)"
    using on unfolding keygen_def Let_def cluster_round_def deal
    by (simp del: map_map add: agg cl'_def)
  have "sharing cl' k ds \<longleftrightarrow> sharing cl k ds" if "k \<noteq> key" for k ds
    using put_shares_other[OF that] by (intro sharing_cong) (simp_all add: cl'_def)
  moreover have "cluster_wf cl'" using wf by (simp add: cluster_wf_def cl'_def put_shares_index del: upt_Suc)
  ultimately have "cluster_inv (C x) cl'"
    using inv fresh by (auto simp: cluster_inv_def cl'_def) (metis option.distinct(1))
  with kg show ?thesis by (rule that) (simp add: cl'_def)
qed

text \<open>The zero-sharings of a refresh add up to the values of one polynomial with constant term zero.\<close>

lemma refresh_dealt:
  assumes x: "lawful x" and wf: "cluster_wf cl"
  obtains zs where "length zs = cl_t cl" and "hd zs = 0"
    and "refresh_deal (C x) (cl_t cl) (cl_n cl) (cl_n cl) (replicate (cl_n cl) (scalar_zero (C x))) g =
      (Ok (evals (cl_n cl) zs), sdrop (cl_n cl * (cl_t cl - 1)) g)"
proof -
  have t: "1 \<le> cl_t cl" "cl_t cl \<le> cl_n cl" using wf by (auto simp: cluster_wf_def)
  have z: "hd (replicate (cl_t cl) (0 :: 's)) = 0" using t(1) by (cases "cl_t cl") auto
  obtain zs where zs: "refresh_deal (C x) (cl_t cl) (cl_n cl) (cl_n cl) (evals (cl_n cl) (replicate (cl_t cl) 0)) g =
      (Ok (evals (cl_n cl) zs), sdrop (cl_n cl * (cl_t cl - 1)) g)"
      "length zs = cl_t cl" "hd zs = hd (replicate (cl_t cl) 0)"
    using refresh_deal_spec[OF x t, of "replicate (cl_t cl) 0" "cl_n cl" g, OF length_replicate]
    by (elim exE conjE)
  have "refresh_deal (C x) (cl_t cl) (cl_n cl) (cl_n cl) (replicate (cl_n cl) (scalar_zero (C x))) g =
      (Ok (evals (cl_n cl) zs), sdrop (cl_n cl * (cl_t cl - 1)) g)"
    using zs(1) by (simp only: zero[OF x] evals_zero[symmetric])
  with zs(2,3) show ?thesis unfolding z by (intro that[of zs])
qed

lemma evals_add:
  assumes "lawful x" and "length cs = length zs"
  shows "map2 (scalar_add (C x)) (evals n cs) (evals n zs) = evals n (padd cs zs)"
  using assms(2) by (simp add: evals_def map2_map_map peval_padd add[OF assms(1)] del: upt_Suc)

lemma refresh_succeeds:
  assumes x: "lawful x" and inv: "cluster_inv (C x) cl" and on: "online_count cl = cl_n cl"
    and key: "cl_keys cl key = Some info" and sh: "sharing cl key cs"
    and pk: "ki_public_key info = public_from_scalar (C x) (hd cs)"
  obtains cl' cs' where "refresh (C x) tm key cl g =
      (Ok (ki_public_key info, ki_epoch info + 1), cl', sdrop (cl_n cl * (cl_t cl - 1)) g)"
    and "cluster_inv (C x) cl'" and "sharing cl' key cs'" and "hd cs' = hd cs"
    and "cl_keys cl' = (cl_keys cl)(key \<mapsto> info\<lparr>ki_epoch := ki_epoch info + 1\<rparr>)"
proof -
  have wf: "cluster_wf cl" using inv by (simp add: cluster_inv_def)
  have t: "1 \<le> cl_t cl" "cl_t cl \<le> cl_n cl" and idx: "map nd_index (cl_nodes cl) = map of_nat [1..<Suc (cl_n cl)]"
    using wf by (auto simp: cluster_wf_def)
  have len: "length cs = cl_t cl" and ss: "map (\<lambda>nd. nd_shares nd key) (cl_nodes cl) = map Some (evals (cl_n cl) cs)"
    using sh sharing_iff[OF idx] by auto
  obtain zs where zs: "length zs = cl_t cl" "hd zs = 0"
    and deal: "refresh_deal (C x) (cl_t cl) (cl_n cl) (cl_n cl) (replicate (cl_n cl) (scalar_zero (C x))) g =
      (Ok (evals (cl_n cl) zs), sdrop (cl_n cl * (cl_t cl - 1)) g)"
    by (rule refresh_dealt[OF x wf])
  let ?cs = "padd cs zs"
  have sum: "map2 (scalar_add (C x)) (evals (cl_n cl) cs) (evals (cl_n cl) zs) = evals (cl_n cl) ?cs"
    using len zs(1) by (simp add: evals_add[OF x])
  have hd: "hd ?cs = hd cs" using len zs t(1) by (cases cs; cases zs) (auto simp: padd_def)
  let ?nds = "put_shares key (cl_nodes cl) (evals (cl_n cl) ?cs)"
  let ?info = "info\<lparr>ki_epoch := ki_epoch info + 1\<rparr>"
  define cl' where "cl' = cl\<lparr>cl_nodes := ?nds, cl_keys := (cl_keys cl)(key \<mapsto> ?info)\<rparr>"
  have "refresh_nodes (C x) key (cl_nodes cl) (evals (cl_n cl) zs) = (True, ?nds)"
    using refresh_nodes_eq[OF _ ss] sum wf_length[OF wf] by simp
  hence rf: "refresh (C x) tm key cl g =
      (Ok (ki_public_key info, ki_epoch info + 1), cl', sdrop (cl_n cl * (cl_t cl - 1)) g)"
    using on key unfolding refresh_def Let_def cluster_round_def deal by (simp add: cl'_def)
  have inv': "cluster_inv (C x) cl'" and sh': "sharing cl' key ?cs"
    by (rule put_shares_inv[OF inv _ put_shares_index put_shares_set put_shares_other _ cl'_def];
        simp add: wf_length[OF wf] len zs(1) pk hd)+
  show ?thesis by (rule that[OF rf inv' sh' hd]) (simp add: cl'_def)
qed

lemma keygen_inv:
  assumes x: "lawful x" and inv: "cluster_inv (C x) cl" and fresh: "cl_keys cl key = None"
    and kg: "keygen (C x) tm key cl g = (r, cl', g')"
  shows "cluster_inv (C x) cl'"
proof (cases "online_count cl = cl_n cl")
  case True
  show ?thesis
  proof (cases "list_all usable (map (\<lambda>d. g !! (d * cl_t cl)) [0..<cl_n cl])")
    case u: True
    show ?thesis by (rule keygen_succeeds[OF x inv True u, of tm key]) (use kg in simp)
  next
    case u: False
    show ?thesis by (rule keygen_fails[OF x inv True u fresh, of tm]) (use kg in simp)
  qed
next
  case False
  thus ?thesis using kg inv by (auto simp: keygen_def Let_def)
qed

lemma refresh_inv:
  assumes x: "lawful x" and inv: "cluster_inv (C x) cl"
    and rf: "refresh (C x) tm key cl g = (r, cl', g')"
  shows "cluster_inv (C x) cl'"
proof (cases "online_count cl = cl_n cl \<and> cl_keys cl key \<noteq> None")
  case True
  then obtain info where on: "online_count cl = cl_n cl" and key: "cl_keys cl key = Some info" by auto
  obtain cs where sh: "sharing cl key cs" and pk: "ki_public_key info = public_from_scalar (C x) (hd cs)"
    using inv key unfolding cluster_inv_def by blast
  show ?thesis by (rule refresh_succeeds[OF x inv on key sh pk, of tm g]) (use rf in simp)
next
  case False
  thus ?thesis using rf inv by (auto simp: refresh_def Let_def split: if_splits)
qed

lemma reach_inv:
  assumes x: "lawful x" and ids: "indices_distinct TYPE('s) n"
  shows "cluster_reach (C x) tm t n cl \<Longrightarrow> cluster_inv (C x) cl"
  by (induction rule: cluster_reach.induct)
    (auto simp: cluster_inv_set_online cluster_inv_set_delay cluster_inv_timeout
      intro: cluster_new_inv[OF _ ids] keygen_inv[OF x] refresh_inv[OF x])

end

section \<open>Lemmas: both curves\<close>

lemma lawful_reach_inv:
  assumes "lawful_curve K XD (C :: 's :: field curve)" and "indices_distinct TYPE('s) n"
    and "cluster_reach C tm t n cl"
  shows "cluster_inv C cl"
  using assms(1)
  by (cases rule: lawful_curve_cases)
    (use assms(2,3) secp.reach_inv ed.reach_inv in metis)+

lemma lawful_sharing_secret:
  assumes "lawful_curve K XD (C :: 's :: field curve)" and "cluster_inv C cl" and "sharing cl key cs"
  shows "quorum_secret C cl key (hd cs)"
  using assms(1)
proof (cases rule: lawful_curve_cases)
  case 1
  show ?thesis unfolding 1(1) using secp.sharing_quorum_secret[OF 1(2) _ assms(3)] assms(2)
    by (simp add: cluster_inv_def)
next
  case 2
  show ?thesis unfolding 2(1) using ed.sharing_quorum_secret[OF 2(2) _ assms(3)] assms(2)
    by (simp add: cluster_inv_def)
qed

lemma inv_sharing:
  assumes "cluster_inv C cl" and "cl_keys cl key = Some info"
  obtains cs where "sharing cl key cs" and "ki_public_key info = public_from_scalar C (hd cs)"
  using assms unfolding cluster_inv_def by blast


section \<open>A concrete cluster\<close>

text \<open>A two-of-three cluster over the five-element field, after one key generation.\<close>

definition demo_node :: "string \<Rightarrow> nat \<Rightarrow> gf5 \<Rightarrow> gf5 Node" where
  "demo_node k i s = \<lparr>nd_index = of_nat i, nd_online = True, nd_delay_ms = 0, nd_shares = [k \<mapsto> s]\<rparr>"

definition demo_info :: KeyInfo where
  "demo_info = \<lparr>ki_public_key = gf5_bytes G3, ki_epoch = 1\<rparr>"

definition demo_cluster_for :: "string \<Rightarrow> gf5 Cluster" where
  "demo_cluster_for k = \<lparr>cl_t = 2, cl_n = 3,
     cl_nodes = [demo_node k 1 G1, demo_node k 2 G4, demo_node k 3 G2],
     cl_keys = [k \<mapsto> demo_info], cl_round_timeout = 2000\<rparr>"

definition demo_cluster :: "gf5 Cluster" where
  "demo_cluster = demo_cluster_for ''k''"

abbreviation (input) "demo_timer \<equiv> (\<lambda>limit delay. delay < limit) :: timer"
abbreviation (input) "demo_ed_env \<equiv> (demo_ed_crates, demo_dalek)"
abbreviation (input) "demo_secp \<equiv> Secp256k1 demo_k256"

lemma demo_lawful: "lawful_curve demo_k256 demo_ed_env demo_secp"
  by (simp add: lawful_curve_def)

lemma demo_split: "split demo_secp G1 2 3 (sconst G1) = (Ok [(1, G2), (2, G3), (3, G4)], sconst G1)"
proof -
  have "eval_all demo_secp [G1, G1] 3 = [(1, G2), (2, G3), (3, G4)]"
    by (simp only: secp.eval_all_eq[OF demo_k256_laws] upt_1_3 list.map peval.simps)
      (simp add: demo_ix, simp add: gf5_defs)
  thus ?thesis by (simp add: split_def numeral_2_eq_2)
qed

lemma demo_deal:
  "keygen_deal demo_secp 2 3 3 (replicate 3 0) [] (sconst G1) =
     (Ok ([G1, G4, G2], [gf5_bytes G1, gf5_bytes G1, gf5_bytes G1]), sconst G1)"
proof -
  have ops: "scalar_add demo_secp = (+)" "public_from_scalar demo_secp = gf5_bytes"
    by (simp_all add: Secp256k1_def secp_public_from_scalar_def[abs_def] demo_k256_def)
  have "keygen_deal demo_secp 2 3 (Suc (Suc (Suc 0))) (replicate (Suc (Suc (Suc 0))) 0) [] (sconst G1) =
      (Ok ([G1, G4, G2], [gf5_bytes G1, gf5_bytes G1, gf5_bytes G1]), sconst G1)"
    by (simp add: demo_split scalar_random_def accumulate_def ops) (simp add: gf5_numerals, simp add: gf5_defs)
  thus ?thesis by (simp only: numeral_3_eq_3)
qed

lemma demo_keygen:
  assumes "cluster_new 2 3 = Ok cl"
  shows "keygen demo_secp demo_timer k cl (sconst G1) = (Ok (gf5_bytes G3), demo_cluster_for k, sconst G1)"
proof -
  have cl: "cl = \<lparr>cl_t = 2, cl_n = 3, cl_nodes = [node_new 1, node_new 2, node_new 3],
      cl_keys = Map.empty, cl_round_timeout = 2000\<rparr>"
    using assms by (simp only: cluster_new_def upt_1_3) simp
  have "aggregate_public demo_secp [gf5_bytes G1, gf5_bytes G1, gf5_bytes G1] = Some (gf5_bytes G3)"
    by (simp add: Secp256k1_def secp_aggregate_public_def demo_k256_def) (simp add: gf5_numerals gf5_defs)
  moreover have "scalar_zero demo_secp = 0" by (simp add: Secp256k1_def)
  ultimately show ?thesis
    by (simp add: keygen_def cl online_count_def node_new_def cluster_round_def demo_deal
        put_share_def demo_cluster_for_def demo_node_def demo_info_def)
qed

lemma demo_reach: "cluster_reach demo_secp demo_timer 2 3 demo_cluster"
proof -
  obtain cl :: "gf5 Cluster" where cl: "cluster_new 2 3 = Ok cl" by (simp add: cluster_new_def)
  moreover have "cl_keys cl ''k'' = None" using cl by (auto simp: cluster_new_def)
  ultimately show ?thesis unfolding demo_cluster_def by (metis cr_new cr_keygen demo_keygen)
qed

lemma demo_key: "cl_keys demo_cluster ''k'' = Some demo_info"
  by (simp add: demo_cluster_def demo_cluster_for_def)

section \<open>Properties\<close>

text \<open>
  (C10) In every state a cluster reaches when its operations run one after the other, each to its end,
  through any sequence of key generations, refreshes, outages and delays, every quorum of nodes holds
  for each key one and the same secret, and the stored public key is the public key of that secret.
  (Refreshes of one key that overlap can break this, see \<open>Cluster_Races\<close>; \<open>Cluster_Locking\<close> has the
  condition under which overlapping calls do not.)
\<close>
theorem cluster_keys_consistent:
  assumes "lawful_curve K XD (C :: 's :: field curve)" and "indices_distinct TYPE('s) n"
    and "cluster_reach C tm t n cl" and "cl_keys cl key_id = Some info"
  shows "\<exists>s. quorum_secret C cl key_id s \<and> ki_public_key info = public_from_scalar C s"
proof -
  have inv: "cluster_inv C cl" by (rule lawful_reach_inv[OF assms(1-3)])
  obtain cs where "sharing cl key_id cs" "ki_public_key info = public_from_scalar C (hd cs)"
    by (rule inv_sharing[OF inv assms(4)])
  thus ?thesis using lawful_sharing_secret[OF assms(1) inv] by blast
qed

theorem cluster_keys_consistent_witness:
  "\<exists>s. quorum_secret demo_secp demo_cluster ''k'' s \<and> gf5_bytes G3 = public_from_scalar demo_secp s"
  using cluster_keys_consistent[OF demo_lawful demo_indices demo_reach demo_key]
  by (simp add: demo_info_def)

text \<open>
  (C7) Threshold signing is correct: when at least \<open>t\<close> online nodes answer within the round
  timeout, whichever they are, \<open>sign\<close> returns a signature that verifies under the stored public
  key. The one key excluded is the public key of the zero scalar.
\<close>
theorem quorum_signature_verifies:
  assumes "lawful_curve K XD (C :: 's :: field curve)" and "indices_distinct TYPE('s) n"
    and "cluster_reach C tm t n cl" and "cl_keys cl key_id = Some info"
    and "ki_public_key info \<noteq> public_from_scalar C 0"
    and "cl_t cl \<le> length (round_responders tm cl)"
  shows "\<exists>sig. fst (cluster_sign C tm key_id msg cl g) = Ok sig \<and>
    curve_verify C (ki_public_key info) msg sig"
proof -
  have inv: "cluster_inv C cl" by (rule lawful_reach_inv[OF assms(1-3)])
  obtain cs where sh: "sharing cl key_id cs" and pk: "ki_public_key info = public_from_scalar C (hd cs)"
    by (rule inv_sharing[OF inv assms(4)])
  have nz: "hd cs \<noteq> 0" using pk assms(5) by auto
  show ?thesis using assms(1)
  proof (cases rule: lawful_curve_cases)
    case 1
    show ?thesis unfolding pk 1(1)
      by (rule secp.sign_verifies[OF 1(2) inv[unfolded 1(1)] assms(4,6) sh nz])
  next
    case 2
    show ?thesis unfolding pk 2(1)
      by (rule ed.sign_verifies[OF 2(2) inv[unfolded 2(1)] assms(4,6) sh TrueI])
  qed
qed

theorem quorum_signature_verifies_witness:
  "\<exists>sig. fst (cluster_sign demo_secp demo_timer ''k'' [1, 2] demo_cluster (sconst G0)) = Ok sig \<and>
    curve_verify demo_secp (gf5_bytes G3) [1, 2] sig"
proof -
  have "public_from_scalar demo_secp 0 = gf5_bytes G0"
    by (simp add: Secp256k1_def secp_public_from_scalar_def demo_k256_def gf5_numerals)
  moreover have "length (round_responders demo_timer demo_cluster) = 3"
    by (simp add: round_responders_def demo_cluster_def demo_cluster_for_def demo_node_def)
  ultimately show ?thesis
    using quorum_signature_verifies[OF demo_lawful demo_indices demo_reach demo_key]
    by (simp add: demo_info_def demo_cluster_def demo_cluster_for_def)
qed

text \<open>
  (C13) The quorum is enforced: with fewer than \<open>t\<close> answering nodes \<open>sign\<close> fails with the threshold
  and the number of answers, whatever the message.
\<close>
theorem quorum_enforced:
  assumes "lawful_curve K XD (C :: 's :: field curve)" and "indices_distinct TYPE('s) n"
    and "cluster_reach C tm t n cl" and "cl_keys cl key_id \<noteq> None"
    and "length (round_responders tm cl) < cl_t cl"
  shows "cluster_sign C tm key_id msg cl g =
    (Err (QuorumNotMet (cl_t cl) (length (round_responders tm cl))), g)"
proof -
  have inv: "cluster_inv C cl" by (rule lawful_reach_inv[OF assms(1-3)])
  obtain info where key: "cl_keys cl key_id = Some info" using assms(4) by blast
  obtain cs where "sharing cl key_id cs" by (rule inv_sharing[OF inv key])
  from cluster_sign_eq[OF key this] show ?thesis using assms(5) by (simp add: Let_def)
qed

theorem quorum_enforced_witness:
  "cluster_sign demo_secp demo_timer ''k'' [7] (set_online 1 False (set_online 2 False demo_cluster))
     (sconst G0) = (Err (QuorumNotMet 2 1), sconst G0)"
proof -
  let ?cl = "set_online 1 False (set_online 2 False demo_cluster)"
  have r: "cluster_reach demo_secp demo_timer 2 3 ?cl" by (intro cr_online demo_reach)
  have len: "length (round_responders demo_timer ?cl) = 1"
    by (simp add: round_responders_def set_online_def demo_cluster_def demo_cluster_for_def demo_node_def)
  have "cl_t ?cl = 2" "cl_keys ?cl ''k'' \<noteq> None"
    by (simp_all add: set_online_def demo_cluster_def demo_cluster_for_def)
  with quorum_enforced[OF demo_lawful demo_indices r] len show ?thesis by simp
qed

text \<open>
  Dealer-less key generation: with all nodes online and no dealer drawing an unusable (zero)
  secret, \<open>keygen\<close> returns the public key of the sum of the dealers' secrets, every quorum of nodes
  then holds exactly that sum, and the key starts at epoch 1.
\<close>
theorem keygen_shares_dealers_sum:
  assumes "lawful_curve K XD (C :: 's :: field curve)" and "indices_distinct TYPE('s) n"
    and "cluster_reach C tm t n cl" and "online_count cl = cl_n cl"
    and "\<forall>d < cl_n cl. g !! (d * cl_t cl) \<noteq> 0"
  defines "s \<equiv> \<Sum>d\<leftarrow>[0..<cl_n cl]. g !! (d * cl_t cl)"
  shows "\<exists>cl'. keygen C tm key_id cl g =
      (Ok (public_from_scalar C s), cl', sdrop (cl_n cl * cl_t cl) g) \<and>
    quorum_secret C cl' key_id s \<and>
    cl_keys cl' = (cl_keys cl)(key_id \<mapsto> \<lparr>ki_public_key = public_from_scalar C s, ki_epoch = 1\<rparr>)"
proof -
  have inv: "cluster_inv C cl" by (rule lawful_reach_inv[OF assms(1-3)])
  have u: "list_all (\<lambda>a. a \<noteq> 0) (map (\<lambda>d. g !! (d * cl_t cl)) [0..<cl_n cl])"
    using assms(5) by (auto simp: list_all_iff)
  obtain cs cl' where kg: "keygen C tm key_id cl g =
        (Ok (public_from_scalar C (hd cs)), cl', sdrop (cl_n cl * cl_t cl) g)"
      and inv': "cluster_inv C cl'" and sh: "sharing cl' key_id cs" and hd: "hd cs = s"
      and keys: "cl_keys cl' = (cl_keys cl)(key_id \<mapsto>
        \<lparr>ki_public_key = public_from_scalar C (hd cs), ki_epoch = 1\<rparr>)"
    using assms(1)
  proof (cases rule: lawful_curve_cases)
    case 1
    show ?thesis unfolding s_def 1(1)
      by (rule secp.keygen_succeeds[OF 1(2) inv[unfolded 1(1)] assms(4) u, of tm key_id])
        (rule that[unfolded s_def 1(1)])
  next
    case 2
    show ?thesis unfolding s_def 2(1)
      by (rule ed.keygen_succeeds[OF 2(2) inv[unfolded 2(1)] assms(4), of g tm key_id])
        (simp add: list_all_iff, rule that[unfolded s_def 2(1)])
  qed
  have "quorum_secret C cl' key_id s"
    using lawful_sharing_secret[OF assms(1) inv' sh] hd by simp
  with kg keys hd show ?thesis by auto
qed


lemma demo_distinct_draws: "\<forall>d < cl_n demo_cluster. sconst G1 !! (d * cl_t demo_cluster) \<noteq> 0"
  by (simp add: gf5_numerals)

theorem keygen_shares_dealers_sum_witness:
  "\<exists>cl' s. fst (keygen demo_secp demo_timer ''k2'' demo_cluster (sconst G1)) =
      Ok (public_from_scalar demo_secp s) \<and>
    snd (keygen demo_secp demo_timer ''k2'' demo_cluster (sconst G1)) =
      (cl', sdrop (cl_n demo_cluster * cl_t demo_cluster) (sconst G1)) \<and>
    quorum_secret demo_secp cl' ''k2'' s"
proof -
  have "online_count demo_cluster = cl_n demo_cluster"
    by (simp add: online_count_def demo_cluster_def demo_cluster_for_def demo_node_def)
  from keygen_shares_dealers_sum[OF demo_lawful demo_indices demo_reach this demo_distinct_draws,
      of "''k2''"]
  show ?thesis by (metis fst_conv snd_conv)
qed

end
