(* ===== verification/Engine.thy ===== *)
theory Engine
  imports Domain
begin

text \<open>
  \<open>src/engine/mod.rs\<close> and \<open>src/engine/noop.rs\<close>: requests and outcomes of the signing engines,
  the error taxonomy with its gRPC codes, the \<open>SigningEngine\<close> trait as a record of its methods
  over the engine's state, and the refusing and recording engines. The locale
  \<open>verified_engine\<close> is the part of the contract the service relies on.
\<close>

section \<open>Requests, outcomes, errors\<close>

record EngineSignRequest =
  er_key_id :: KeyId
  er_chain :: Chain
  er_payload :: bytes

record EngineSignature =
  es_signature :: bytes
  es_public_key :: bytes

record DkgParams =
  dp_chain :: Chain
  dp_threshold :: u32
  dp_parties :: u32

record DkgOutcome =
  do_key_id :: KeyId
  do_public_key :: bytes

record RotateOutcome =
  ro_key_id :: KeyId
  ro_public_key :: bytes
  ro_epoch :: u64

record RestoreParams =
  rp_key_id :: KeyId
  rp_node_id :: string
  rp_quorum_proof :: bytes

datatype EngineError =
    ProviderUnavailable string
  | KeyNotFound string
  | EngineDenied string
  | Transient string
  | Unsupported string
  | EngineInternal string

fun engine_error_to_string :: "EngineError \<Rightarrow> string" where
  "engine_error_to_string (ProviderUnavailable s) = ''provider unavailable: '' @ s"
| "engine_error_to_string (KeyNotFound s) = ''key not found: '' @ s"
| "engine_error_to_string (EngineDenied s) = ''denied: '' @ s"
| "engine_error_to_string (Transient s) = ''transient: '' @ s"
| "engine_error_to_string (Unsupported s) = ''unsupported: '' @ s"
| "engine_error_to_string (EngineInternal s) = ''internal: '' @ s"

fun grpc_code :: "EngineError \<Rightarrow> Code" where
  "grpc_code (ProviderUnavailable s) = Code_Unavailable"
| "grpc_code (KeyNotFound s) = Code_NotFound"
| "grpc_code (EngineDenied s) = Code_PermissionDenied"
| "grpc_code (Transient s) = Code_Aborted"
| "grpc_code (Unsupported s) = Code_Unimplemented"
| "grpc_code (EngineInternal s) = Code_Internal"

definition engine_status :: "EngineError \<Rightarrow> Status" where
  "engine_status e = status_new (grpc_code e) (engine_error_to_string e)"

section \<open>The engine trait\<close>

text \<open>
  A method takes the engine's state and returns its outcome with the new state; the state also
  carries what the engine reads from outside (randomness, UUIDs, the remote provider).
\<close>

record 'e SigningEngine =
  eng_sign :: "EngineSignRequest \<Rightarrow> 'e \<Rightarrow> (EngineSignature, EngineError) result \<times> 'e"
  eng_dkg :: "DkgParams \<Rightarrow> 'e \<Rightarrow> (DkgOutcome, EngineError) result \<times> 'e"
  eng_rotate_key :: "KeyId \<Rightarrow> 'e \<Rightarrow> (RotateOutcome, EngineError) result \<times> 'e"
  eng_get_key_metadata :: "KeyId \<Rightarrow> 'e \<Rightarrow> (KeyMetadata, EngineError) result \<times> 'e"
  eng_restore_share :: "RestoreParams \<Rightarrow> 'e \<Rightarrow> (bool, EngineError) result \<times> 'e"

text \<open>
  \<open>EngineSignature\<close> is documented as a signature plus the public key it verifies against. The
  contract: a successful \<open>sign\<close> returns a pair the chain's verifier accepts for the payload.
\<close>

locale verified_engine =
  fixes sign :: "EngineSignRequest \<Rightarrow> 'e \<Rightarrow> (EngineSignature, EngineError) result \<times> 'e"
    and accepts :: "Chain \<Rightarrow> bytes \<Rightarrow> bytes \<Rightarrow> bytes \<Rightarrow> bool"
    and inv :: "'e \<Rightarrow> bool"
  assumes sign_accepted:
      "inv e \<Longrightarrow> sign req e = (Ok s, e') \<Longrightarrow>
       accepts (er_chain req) (er_payload req) (es_signature s) (es_public_key s)"
    and sign_inv: "inv e \<Longrightarrow> inv (snd (sign req e))"
begin

text \<open>Signing a list of requests in order.\<close>

fun sign_many :: "EngineSignRequest list \<Rightarrow> 'e \<Rightarrow> (EngineSignRequest \<times> EngineSignature) list" where
  "sign_many [] e = []"
| "sign_many (q # qs) e =
     (case sign q e of
        (Ok s, e') \<Rightarrow> (q, s) # sign_many qs e'
      | (_, e') \<Rightarrow> sign_many qs e')"

lemma sign_many_accepted:
  "inv e \<Longrightarrow> (q, s) \<in> set (sign_many qs e) \<Longrightarrow>
     accepts (er_chain q) (er_payload q) (es_signature s) (es_public_key s)"
proof (induction qs arbitrary: e)
  case (Cons q' qs)
  obtain r e' where r: "sign q' e = (r, e')" by (cases "sign q' e")
  hence inv': "inv e'" using sign_inv[OF Cons.prems(1), of q'] by simp
  show ?case
  proof (cases r)
    case (Ok s')
    from Cons.prems(2) consider "(q, s) = (q', s')" | "(q, s) \<in> set (sign_many qs e')"
      by (auto simp: r Ok)
    thus ?thesis
      using sign_accepted[OF Cons.prems(1) r[unfolded Ok]] Cons.IH[OF inv'] by cases auto
  qed (use Cons.prems(2) Cons.IH[OF inv'] r in auto)
qed simp

end

section \<open>The refusing engine\<close>

definition NoopEngine :: "unit SigningEngine" where
  "NoopEngine = \<lparr>
     eng_sign = (\<lambda>_ e. (Err (Unsupported ''noop engine''), e)),
     eng_dkg = (\<lambda>_ e. (Err (Unsupported ''noop engine''), e)),
     eng_rotate_key = (\<lambda>_ e. (Err (Unsupported ''noop engine''), e)),
     eng_get_key_metadata = (\<lambda>_ e. (Err (Unsupported ''noop engine''), e)),
     eng_restore_share = (\<lambda>_ e. (Err (Unsupported ''noop engine''), e))\<rparr>"

section \<open>The recording engine\<close>

record MockEngineState =
  me_sign_calls :: nat
  me_fail_with :: "EngineError option"

definition mock_engine_new :: MockEngineState where
  "mock_engine_new = \<lparr>me_sign_calls = 0, me_fail_with = None\<rparr>"

definition mock_fail_next :: "MockEngineState \<Rightarrow> EngineError \<Rightarrow> MockEngineState" where
  "mock_fail_next e err = e\<lparr>me_fail_with := Some err\<rparr>"

definition mock_sign ::
  "EngineSignRequest \<Rightarrow> MockEngineState \<Rightarrow> (EngineSignature, EngineError) result \<times> MockEngineState" where
  "mock_sign req e =
     (let e1 = e\<lparr>me_sign_calls := Suc (me_sign_calls e)\<rparr>
      in case me_fail_with e1 of
           Some err \<Rightarrow> (Err err, e1\<lparr>me_fail_with := None\<rparr>)
         | None \<Rightarrow> (Ok \<lparr>es_signature = replicate 64 0xAA, es_public_key = replicate 33 0xBB\<rparr>, e1))"

definition MockEngine :: "MockEngineState SigningEngine" where
  "MockEngine = \<lparr>
     eng_sign = mock_sign,
     eng_dkg = (\<lambda>p e. (Ok \<lparr>do_key_id = ''mock-'' @ chain_as_str (dp_chain p),
                          do_public_key = replicate 33 0xBB\<rparr>, e)),
     eng_rotate_key = (\<lambda>k e. (Ok \<lparr>ro_key_id = k, ro_public_key = replicate 33 0xBB, ro_epoch = 2\<rparr>, e)),
     eng_get_key_metadata = (\<lambda>k e. (Ok \<lparr>km_key_id = k, km_chain = Evm,
        km_public_key = replicate 33 0xBB, km_status = Active, km_epoch = 1\<rparr>, e)),
     eng_restore_share = (\<lambda>p e.
        (if rp_quorum_proof p = [] then Err (EngineDenied ''quorum proof required'') else Ok True, e))\<rparr>"

section \<open>Lemmas\<close>

interpretation noop: verified_engine "eng_sign NoopEngine" "\<lambda>_ _ _ _. False" "\<lambda>_. True"
  by unfold_locales (auto simp: NoopEngine_def)

lemma engine_error_string_code:
  "engine_error_to_string e = engine_error_to_string e' \<Longrightarrow> grpc_code e = grpc_code e'"
  by (cases e; cases e') auto

text \<open>
  The error taxonomy maps one to one to gRPC codes: two engine errors get the same code
  exactly when they are the same kind, and from the status a client sees, code and message,
  the whole engine error can be recovered.
\<close>

theorem engine_status_faithful:
  "engine_status e = engine_status e' \<longleftrightarrow> e = e'"
  by (cases e; cases e') (auto simp: engine_status_def status_new_def)

end
