(* ===== verification/Threshold.thy ===== *)
theory Threshold
  imports Cluster Engine
begin

text \<open>
  \<open>src/engine/threshold/mod.rs\<close>: the in-house engine over two clusters, secp256k1 and Ed25519, with
  a table from key to owning scheme. Its invariant is that of the two clusters, and that every key
  of the table is known to its cluster.
\<close>

section \<open>Errors and state\<close>

fun threshold_error_to_string :: "ThresholdError \<Rightarrow> string" where
  "threshold_error_to_string (QuorumNotMet nd gt) =
     ''quorum not met: needed '' @ show_nat nd @ '', got '' @ show_nat gt"
| "threshold_error_to_string (UnknownKey k) = ''unknown key: '' @ k"
| "threshold_error_to_string ReconstructFailed = ''share reconstruction failed''"
| "threshold_error_to_string (InvalidParams m) = ''invalid parameters: '' @ m"

fun threshold_to_engine_error :: "ThresholdError \<Rightarrow> EngineError" where
  "threshold_to_engine_error (QuorumNotMet nd gt) =
     ProviderUnavailable (threshold_error_to_string (QuorumNotMet nd gt))"
| "threshold_to_engine_error (UnknownKey k) = KeyNotFound k"
| "threshold_to_engine_error ReconstructFailed =
     EngineInternal (threshold_error_to_string ReconstructFailed)"
| "threshold_to_engine_error (InvalidParams m) = EngineDenied m"

datatype Scheme = Ecdsa | Eddsa

text \<open>The engine's state with the randomness and UUIDs it will read.\<close>

record ('s, 't) ThresholdEngine =
  th_ecdsa :: "'s Cluster"
  th_eddsa :: "'t Cluster"
  th_keys :: "string \<rightharpoonup> Scheme"
  th_world :: world
  th_rng_ecdsa :: "'s rng"
  th_rng_eddsa :: "'t rng"

text \<open>What the engine is built from: the two curve crates and the timer of the transport round.\<close>

record ('s, 'p, 't, 'q) threshold_env =
  te_k256 :: "('s, 'p) k256"
  te_ed :: "('t, 'q) ed_env"
  te_timer :: timer

abbreviation te_secp ::
  "('s :: field, 'p :: ab_group_add, 't, 'q) threshold_env \<Rightarrow> 's curve" where
  "te_secp E \<equiv> Secp256k1 (te_k256 E)"

abbreviation te_edwards ::
  "('s, 'p, 't :: field, 'q :: ab_group_add) threshold_env \<Rightarrow> 't curve" where
  "te_edwards E \<equiv> Ed25519 (te_ed E)"

definition threshold_new ::
  "nat \<Rightarrow> nat \<Rightarrow> world \<Rightarrow> 's rng \<Rightarrow> 't rng \<Rightarrow> (('s, 't) ThresholdEngine, ThresholdError) result" where
  "threshold_new t n w g1 g2 =
     and_then (cluster_new t n) (\<lambda>ecdsa.
     and_then (cluster_new t n) (\<lambda>eddsa.
       Ok \<lparr>th_ecdsa = ecdsa, th_eddsa = eddsa, th_keys = Map.empty, th_world = w,
           th_rng_ecdsa = g1, th_rng_eddsa = g2\<rparr>))"

fun scheme_of :: "SignatureScheme \<Rightarrow> Scheme" where
  "scheme_of EcdsaSecp256k1 = Ecdsa"
| "scheme_of Ed25519Scheme = Eddsa"

section \<open>Operations\<close>

definition threshold_sign ::
  "('s :: field, 'p :: ab_group_add, 't :: field, 'q :: ab_group_add) threshold_env \<Rightarrow>
   EngineSignRequest \<Rightarrow> ('s, 't) ThresholdEngine \<Rightarrow>
   (EngineSignature, EngineError) result \<times> ('s, 't) ThresholdEngine" where
  "threshold_sign E req e =
     (case th_keys e (er_key_id req) of
        None \<Rightarrow> (Err (KeyNotFound (er_key_id req)), e)
      | Some sch \<Rightarrow>
          if scheme_of (scheme (er_chain req)) \<noteq> sch
          then (Err (EngineDenied ''chain/scheme mismatch for key''), e)
          else (case sch of
            Ecdsa \<Rightarrow>
              (let (r, g) = cluster_sign (te_secp E) (te_timer E) (er_key_id req) (er_payload req)
                              (th_ecdsa e) (th_rng_ecdsa e)
               in (and_then (map_err threshold_to_engine_error r) (\<lambda>sig.
                   and_then (ok_or (cluster_public_key (th_ecdsa e) (er_key_id req))
                               (KeyNotFound (er_key_id req))) (\<lambda>pk.
                     Ok \<lparr>es_signature = sig, es_public_key = pk\<rparr>)),
                   e\<lparr>th_rng_ecdsa := g\<rparr>))
          | Eddsa \<Rightarrow>
              (let (r, g) = cluster_sign (te_edwards E) (te_timer E) (er_key_id req) (er_payload req)
                              (th_eddsa e) (th_rng_eddsa e)
               in (and_then (map_err threshold_to_engine_error r) (\<lambda>sig.
                   and_then (ok_or (cluster_public_key (th_eddsa e) (er_key_id req))
                               (KeyNotFound (er_key_id req))) (\<lambda>pk.
                     Ok \<lparr>es_signature = sig, es_public_key = pk\<rparr>)),
                   e\<lparr>th_rng_eddsa := g\<rparr>))))"

definition threshold_dkg ::
  "('s :: field, 'p :: ab_group_add, 't :: field, 'q :: ab_group_add) threshold_env \<Rightarrow>
   DkgParams \<Rightarrow> ('s, 't) ThresholdEngine \<Rightarrow>
   (DkgOutcome, EngineError) result \<times> ('s, 't) ThresholdEngine" where
  "threshold_dkg E p e =
     (let (u, w) = new_v4 (th_world e);
          key_id = ''mpc-'' @ u;
          e0 = e\<lparr>th_world := w\<rparr>
      in case scheme (dp_chain p) of
           EcdsaSecp256k1 \<Rightarrow>
             (let (r, cl, g) = keygen (te_secp E) (te_timer E) key_id (th_ecdsa e0) (th_rng_ecdsa e0);
                  e1 = e0\<lparr>th_ecdsa := cl, th_rng_ecdsa := g\<rparr>
              in case r of
                   Ok pk \<Rightarrow> (Ok \<lparr>do_key_id = key_id, do_public_key = pk\<rparr>,
                             e1\<lparr>th_keys := (th_keys e1)(key_id \<mapsto> Ecdsa)\<rparr>)
                 | Err x \<Rightarrow> (Err (threshold_to_engine_error x), e1)
                 | Panic \<Rightarrow> (Panic, e1))
         | Ed25519Scheme \<Rightarrow>
             (let (r, cl, g) = keygen (te_edwards E) (te_timer E) key_id (th_eddsa e0) (th_rng_eddsa e0);
                  e1 = e0\<lparr>th_eddsa := cl, th_rng_eddsa := g\<rparr>
              in case r of
                   Ok pk \<Rightarrow> (Ok \<lparr>do_key_id = key_id, do_public_key = pk\<rparr>,
                             e1\<lparr>th_keys := (th_keys e1)(key_id \<mapsto> Eddsa)\<rparr>)
                 | Err x \<Rightarrow> (Err (threshold_to_engine_error x), e1)
                 | Panic \<Rightarrow> (Panic, e1)))"

definition threshold_rotate_key ::
  "('s :: field, 'p :: ab_group_add, 't :: field, 'q :: ab_group_add) threshold_env \<Rightarrow>
   KeyId \<Rightarrow> ('s, 't) ThresholdEngine \<Rightarrow>
   (RotateOutcome, EngineError) result \<times> ('s, 't) ThresholdEngine" where
  "threshold_rotate_key E key_id e =
     (case th_keys e key_id of
        None \<Rightarrow> (Err (KeyNotFound key_id), e)
      | Some Ecdsa \<Rightarrow>
          (let (r, cl, g) = refresh (te_secp E) (te_timer E) key_id (th_ecdsa e) (th_rng_ecdsa e)
           in (and_then (map_err threshold_to_engine_error r) (\<lambda>(pk, ep).
                 Ok \<lparr>ro_key_id = key_id, ro_public_key = pk, ro_epoch = ep\<rparr>),
               e\<lparr>th_ecdsa := cl, th_rng_ecdsa := g\<rparr>))
      | Some Eddsa \<Rightarrow>
          (let (r, cl, g) = refresh (te_edwards E) (te_timer E) key_id (th_eddsa e) (th_rng_eddsa e)
           in (and_then (map_err threshold_to_engine_error r) (\<lambda>(pk, ep).
                 Ok \<lparr>ro_key_id = key_id, ro_public_key = pk, ro_epoch = ep\<rparr>),
               e\<lparr>th_eddsa := cl, th_rng_eddsa := g\<rparr>)))"

definition threshold_get_key_metadata ::
  "KeyId \<Rightarrow> ('s, 't) ThresholdEngine \<Rightarrow>
   (KeyMetadata, EngineError) result \<times> ('s, 't) ThresholdEngine" where
  "threshold_get_key_metadata key_id e =
     (case th_keys e key_id of
        None \<Rightarrow> (Err (KeyNotFound key_id), e)
      | Some sch \<Rightarrow>
          (let (chain, pk, ep) =
             (case sch of
                Ecdsa \<Rightarrow> (Evm, cluster_public_key (th_ecdsa e) key_id, cluster_epoch (th_ecdsa e) key_id)
              | Eddsa \<Rightarrow> (Solana, cluster_public_key (th_eddsa e) key_id, cluster_epoch (th_eddsa e) key_id))
           in (and_then (ok_or pk (KeyNotFound key_id)) (\<lambda>pk.
                 Ok \<lparr>km_key_id = key_id, km_chain = chain, km_public_key = pk, km_status = Active,
                     km_epoch = (case ep of Some k \<Rightarrow> k | None \<Rightarrow> 1)\<rparr>), e)))"

definition threshold_restore_share ::
  "RestoreParams \<Rightarrow> ('s, 't) ThresholdEngine \<Rightarrow> (bool, EngineError) result \<times> ('s, 't) ThresholdEngine" where
  "threshold_restore_share p e =
     (if rp_quorum_proof p = [] then (Err (EngineDenied ''quorum proof required for restore''), e)
      else case th_keys e (rp_key_id p) of
             None \<Rightarrow> (Err (KeyNotFound (rp_key_id p)), e)
           | Some _ \<Rightarrow> (Ok True, e))"

definition threshold_engine ::
  "('s :: field, 'p :: ab_group_add, 't :: field, 'q :: ab_group_add) threshold_env \<Rightarrow>
   ('s, 't) ThresholdEngine SigningEngine" where
  "threshold_engine E = \<lparr>eng_sign = threshold_sign E, eng_dkg = threshold_dkg E,
     eng_rotate_key = threshold_rotate_key E, eng_get_key_metadata = threshold_get_key_metadata,
     eng_restore_share = threshold_restore_share\<rparr>"

section \<open>Invariant\<close>

definition threshold_lawful ::
  "('s :: field, 'p :: ab_group_add, 't :: field, 'q :: ab_group_add) threshold_env \<Rightarrow> bool" where
  "threshold_lawful E \<longleftrightarrow> k256_laws (te_k256 E) \<and> dalek_laws (te_ed E)"

definition threshold_inv ::
  "('s :: field, 'p :: ab_group_add, 't :: field, 'q :: ab_group_add) threshold_env \<Rightarrow>
   ('s, 't) ThresholdEngine \<Rightarrow> bool" where
  "threshold_inv E e \<longleftrightarrow> cluster_inv (te_secp E) (th_ecdsa e) \<and> cluster_inv (te_edwards E) (th_eddsa e) \<and>
     (\<forall>k. th_keys e k = Some Ecdsa \<longrightarrow> cl_keys (th_ecdsa e) k \<noteq> None) \<and>
     (\<forall>k. th_keys e k = Some Eddsa \<longrightarrow> cl_keys (th_eddsa e) k \<noteq> None)"

text \<open>The verifier of a chain's signatures.\<close>

definition chain_accepts ::
  "('s :: field, 'p :: ab_group_add, 't :: field, 'q :: ab_group_add) threshold_env \<Rightarrow>
   Chain \<Rightarrow> bytes \<Rightarrow> bytes \<Rightarrow> bytes \<Rightarrow> bool" where
  "chain_accepts E c payload sig pk =
     (case scheme c of
        EcdsaSecp256k1 \<Rightarrow> curve_verify (te_secp E) pk payload sig
      | Ed25519Scheme \<Rightarrow> curve_verify (te_edwards E) pk payload sig)"

text \<open>
  The states of an engine in service: calls of its operations in any order, the UUIDs it draws
  for new keys being new, and outages of nodes.
\<close>

definition next_key_id :: "('s, 't) ThresholdEngine \<Rightarrow> string" where
  "next_key_id e = ''mpc-'' @ shd (uuids (th_world e))"

definition key_id_fresh :: "('s, 't) ThresholdEngine \<Rightarrow> bool" where
  "key_id_fresh e \<longleftrightarrow> cl_keys (th_ecdsa e) (next_key_id e) = None \<and>
     cl_keys (th_eddsa e) (next_key_id e) = None"

inductive threshold_reach ::
  "('s :: field, 'p :: ab_group_add, 't :: field, 'q :: ab_group_add) threshold_env \<Rightarrow> nat \<Rightarrow> nat \<Rightarrow>
   ('s, 't) ThresholdEngine \<Rightarrow> bool" for E t n where
  tr_new: "threshold_new t n w g1 g2 = Ok e \<Longrightarrow> threshold_reach E t n e"
| tr_sign: "\<lbrakk>threshold_reach E t n e; threshold_sign E req e = (r, e')\<rbrakk> \<Longrightarrow> threshold_reach E t n e'"
| tr_dkg: "\<lbrakk>threshold_reach E t n e; key_id_fresh e; threshold_dkg E p e = (r', e')\<rbrakk>
    \<Longrightarrow> threshold_reach E t n e'"
| tr_rotate: "\<lbrakk>threshold_reach E t n e; threshold_rotate_key E k e = (r'', e')\<rbrakk> \<Longrightarrow> threshold_reach E t n e'"
| tr_online: "threshold_reach E t n e \<Longrightarrow>
    threshold_reach E t n (e\<lparr>th_ecdsa := set_online i b (th_ecdsa e), th_eddsa := set_online j c (th_eddsa e)\<rparr>)"

section \<open>Lemmas\<close>

lemma keygen_keys:
  assumes "keygen C tm key cl g = (r, cl', g')"
  shows "(\<forall>k. cl_keys cl k \<noteq> None \<longrightarrow> cl_keys cl' k \<noteq> None) \<and>
    (\<forall>pk. r = Ok pk \<longrightarrow> cl_keys cl' key = Some \<lparr>ki_public_key = pk, ki_epoch = 1\<rparr>)"
  using assms
  by (auto simp: keygen_def Let_def cluster_round_def split: if_splits prod.splits result.splits option.splits)

lemma refresh_keys:
  assumes "refresh C tm key cl g = (r, cl', g')" and "cl_keys cl k \<noteq> None"
  shows "cl_keys cl' k \<noteq> None"
  using assms
  by (auto simp: refresh_def Let_def cluster_round_def split: if_splits prod.splits result.splits option.splits)

lemma threshold_sign_state:
  "threshold_sign E req e = (r, e') \<Longrightarrow>
   \<exists>g1 g2. e' = e\<lparr>th_rng_ecdsa := g1, th_rng_eddsa := g2\<rparr>"
  by (auto simp: threshold_sign_def Let_def split: option.splits if_splits Scheme.splits prod.splits)
    (metis ThresholdEngine.surjective ThresholdEngine.update_convs(5,6))+

lemma threshold_inv_rng [simp]:
  "threshold_inv E (e\<lparr>th_rng_ecdsa := g1\<rparr>) = threshold_inv E e"
  "threshold_inv E (e\<lparr>th_rng_eddsa := g2\<rparr>) = threshold_inv E e"
  "threshold_inv E (e\<lparr>th_world := w\<rparr>) = threshold_inv E e"
  by (simp_all add: threshold_inv_def)

lemma threshold_dkg_inv:
  assumes E: "threshold_lawful E" and inv: "threshold_inv E e" and fresh: "key_id_fresh e"
    and dkg: "threshold_dkg E p e = (r, e')"
  shows "threshold_inv E e'"
proof -
  have L: "k256_laws (te_k256 E)" "dalek_laws (te_ed E)" using E by (auto simp: threshold_lawful_def)
  let ?k = "next_key_id e"
  have fr: "cl_keys (th_ecdsa e) ?k = None" "cl_keys (th_eddsa e) ?k = None"
    using fresh by (auto simp: key_id_fresh_def)
  show ?thesis
  proof (cases "scheme (dp_chain p)")
    case EcdsaSecp256k1
    obtain r1 cl g where kg: "keygen (te_secp E) (te_timer E) ?k (th_ecdsa e) (th_rng_ecdsa e) = (r1, cl, g)"
      using prod_cases3 by blast
    have "cluster_inv (te_secp E) cl"
      using secp.keygen_inv[OF L(1) _ fr(1) kg] inv by (simp add: threshold_inv_def)
    thus ?thesis using dkg keygen_keys[OF kg] inv kg EcdsaSecp256k1
      by (auto simp: threshold_dkg_def Let_def new_v4_def next_key_id_def threshold_inv_def
          split: result.splits if_splits)
  next
    case Ed25519Scheme
    obtain r1 cl g where kg: "keygen (te_edwards E) (te_timer E) ?k (th_eddsa e) (th_rng_eddsa e) = (r1, cl, g)"
      using prod_cases3 by blast
    have "cluster_inv (te_edwards E) cl"
      using ed.keygen_inv[OF L(2) _ fr(2) kg] inv by (simp add: threshold_inv_def)
    thus ?thesis using dkg keygen_keys[OF kg] inv kg Ed25519Scheme
      by (auto simp: threshold_dkg_def Let_def new_v4_def next_key_id_def threshold_inv_def
          split: result.splits if_splits)
  qed
qed

lemma threshold_rotate_inv:
  assumes E: "threshold_lawful E" and inv: "threshold_inv E e"
    and rot: "threshold_rotate_key E key e = (r, e')"
  shows "threshold_inv E e'"
proof -
  have L: "k256_laws (te_k256 E)" "dalek_laws (te_ed E)" using E by (auto simp: threshold_lawful_def)
  have inv1: "cluster_inv (te_secp E) (th_ecdsa e)" and inv2: "cluster_inv (te_edwards E) (th_eddsa e)"
    using inv by (auto simp: threshold_inv_def)
  obtain r1 cl1 g1 where 1: "refresh (te_secp E) (te_timer E) key (th_ecdsa e) (th_rng_ecdsa e) = (r1, cl1, g1)"
    using prod_cases3 by blast
  obtain r2 cl2 g2 where 2: "refresh (te_edwards E) (te_timer E) key (th_eddsa e) (th_rng_eddsa e) = (r2, cl2, g2)"
    using prod_cases3 by blast
  show ?thesis
    using rot inv secp.refresh_inv[OF L(1) inv1 1] ed.refresh_inv[OF L(2) inv2 2]
      refresh_keys[OF 1] refresh_keys[OF 2]
    by (auto simp: threshold_rotate_key_def 1 2 threshold_inv_def split: option.splits Scheme.splits)
qed

lemma threshold_reach_inv:
  assumes E: "threshold_lawful (E :: ('s :: field, 'p :: ab_group_add, 't :: field, 'q :: ab_group_add) threshold_env)"
    and ids: "indices_distinct TYPE('s) n" "indices_distinct TYPE('t) n"
  shows "threshold_reach E t n e \<Longrightarrow> threshold_inv E e"
proof (induction rule: threshold_reach.induct)
  case (tr_new w g1 g2 e)
  thus ?case using cluster_new_inv[OF _ ids(1)] cluster_new_inv[OF _ ids(2)]
    by (auto simp: threshold_new_def result_simps threshold_inv_def)
next
  case (tr_sign e req r e')
  thus ?case using threshold_sign_state[OF tr_sign(2)] by auto
next
  case (tr_dkg e p r' e')
  thus ?case using threshold_dkg_inv[OF E] by blast
next
  case (tr_rotate e k r'' e')
  thus ?case using threshold_rotate_inv[OF E] by blast
next
  case (tr_online e i b j c)
  thus ?case by (simp add: threshold_inv_def cluster_inv_set_online) (simp add: set_online_def)
qed

text \<open>The engine meets the contract of the service: whatever it signs is accepted.\<close>

lemma threshold_sign_accepted:
  assumes E: "threshold_lawful E" and inv: "threshold_inv E e"
    and ok: "threshold_sign E req e = (Ok s, e')"
  shows "chain_accepts E (er_chain req) (er_payload req) (es_signature s) (es_public_key s)"
proof -
  have L: "k256_laws (te_k256 E)" "dalek_laws (te_ed E)" using E by (auto simp: threshold_lawful_def)
  have inv1: "cluster_inv (te_secp E) (th_ecdsa e)" and inv2: "cluster_inv (te_edwards E) (th_eddsa e)"
    using inv by (auto simp: threshold_inv_def)
  obtain sch where sch: "th_keys e (er_key_id req) = Some sch" "scheme_of (scheme (er_chain req)) = sch"
    using ok by (auto simp: threshold_sign_def split: option.splits if_splits)
  show ?thesis
  proof (cases "scheme (er_chain req)")
    case EcdsaSecp256k1
    thus ?thesis using ok sch secp.cluster_sign_sound[OF L(1) inv1]
      by (auto simp: threshold_sign_def chain_accepts_def cluster_public_key_def result_simps
          split: prod.splits) (metis fst_conv)
  next
    case Ed25519Scheme
    thus ?thesis using ok sch ed.cluster_sign_sound[OF L(2) inv2]
      by (auto simp: threshold_sign_def chain_accepts_def cluster_public_key_def result_simps
          split: prod.splits) (metis fst_conv)
  qed
qed

interpretation threshold: verified_engine "eng_sign (threshold_engine E)" "chain_accepts E"
  "\<lambda>e. threshold_lawful E \<and> threshold_inv E e" for E
proof unfold_locales
  fix e req s e'
  assume "threshold_lawful E \<and> threshold_inv E e" and "eng_sign (threshold_engine E) req e = (Ok s, e')"
  thus "chain_accepts E (er_chain req) (er_payload req) (es_signature s) (es_public_key s)"
    by (auto simp: threshold_engine_def intro: threshold_sign_accepted)
next
  fix e req
  assume "threshold_lawful E \<and> threshold_inv E e"
  thus "threshold_lawful E \<and> threshold_inv E (snd (eng_sign (threshold_engine E) req e))"
    using threshold_sign_state[of E req e] by (cases "threshold_sign E req e") (auto simp: threshold_engine_def)
qed


lemma threshold_dkg_key:
  assumes "threshold_dkg E p e = (Ok out, e')"
  shows "do_key_id out = next_key_id e"
    and "th_keys e' (do_key_id out) = Some (scheme_of (scheme (dp_chain p)))"
    and "scheme (dp_chain p) = EcdsaSecp256k1 \<Longrightarrow>
      cl_keys (th_ecdsa e') (do_key_id out) = Some \<lparr>ki_public_key = do_public_key out, ki_epoch = 1\<rparr>"
    and "scheme (dp_chain p) = Ed25519Scheme \<Longrightarrow>
      cl_keys (th_eddsa e') (do_key_id out) = Some \<lparr>ki_public_key = do_public_key out, ki_epoch = 1\<rparr>"
  using assms
  by (auto simp: threshold_dkg_def Let_def new_v4_def next_key_id_def dest!: keygen_keys
      split: SignatureScheme.splits prod.splits result.splits)

lemma refresh_Ok_keys:
  assumes "refresh C tm key cl g = (Ok (pk, ep), cl', g')"
  obtains info where "cl_keys cl key = Some info" and "pk = ki_public_key info" and "ep = ki_epoch info + 1"
    and "cl_keys cl' = (cl_keys cl)(key \<mapsto> info\<lparr>ki_epoch := ki_epoch info + 1\<rparr>)"
  using assms
  by (auto simp: refresh_def Let_def cluster_round_def
      split: if_splits prod.splits result.splits option.splits)

lemma threshold_rotate_Ok:
  assumes "threshold_rotate_key E key e = (Ok r, e')"
  shows "\<exists>m m'. threshold_get_key_metadata key e = (Ok m, e) \<and>
    threshold_get_key_metadata key e' = (Ok m', e') \<and> ro_key_id r = key \<and>
    ro_public_key r = km_public_key m \<and> ro_epoch r = km_epoch m + 1 \<and> m' = m\<lparr>km_epoch := ro_epoch r\<rparr>"
  using assms
  by (auto simp: threshold_rotate_key_def threshold_get_key_metadata_def cluster_public_key_def
      cluster_epoch_def result_simps elim!: refresh_Ok_keys
      split: option.splits Scheme.splits prod.splits)

section \<open>A concrete engine\<close>

definition demo_env :: "(gf5, gf5, gf5, gf5) threshold_env" where
  "demo_env = \<lparr>te_k256 = demo_k256, te_ed = demo_ed_env, te_timer = demo_timer\<rparr>"

lemma demo_env_lawful: "threshold_lawful demo_env"
  by (simp add: threshold_lawful_def demo_env_def)

definition demo_engine0 :: "(gf5, gf5) ThresholdEngine" where
  "demo_engine0 = (case threshold_new 2 3 \<lparr>clock = sconst (Some 100), uuids = siterate (\<lambda>s. CHR ''x'' # s) ''u''\<rparr>
      (sconst G1) (sconst G1) of Ok e \<Rightarrow> e)"

lemma demo_engine0_new:
  "threshold_new 2 3 \<lparr>clock = sconst (Some 100), uuids = siterate (\<lambda>s. CHR ''x'' # s) ''u''\<rparr>
     (sconst G1) (sconst G1) = Ok demo_engine0"
  by (simp add: demo_engine0_def threshold_new_def cluster_new_def)

lemma demo_engine0_sel:
  assumes "cluster_new 2 3 = Ok cl"
  shows "th_ecdsa demo_engine0 = cl" "th_eddsa demo_engine0 = cl" "th_keys demo_engine0 = Map.empty"
    "th_rng_ecdsa demo_engine0 = sconst G1"
    "th_world demo_engine0 = \<lparr>clock = sconst (Some 100), uuids = siterate (\<lambda>s. CHR ''x'' # s) ''u''\<rparr>"
  using assms by (simp_all add: demo_engine0_def threshold_new_def)

lemma demo_engine0_reach: "threshold_reach demo_env 2 3 demo_engine0"
  by (rule tr_new[OF demo_engine0_new])

definition demo_engine :: "(gf5, gf5) ThresholdEngine" where
  "demo_engine = demo_engine0\<lparr>th_world := snd (new_v4 (th_world demo_engine0)),
     th_ecdsa := demo_cluster_for ''mpc-u'', th_keys := [''mpc-u'' \<mapsto> Ecdsa]\<rparr>"

definition demo_dkg :: DkgParams where
  "demo_dkg = \<lparr>dp_chain = Bitcoin, dp_threshold = 2, dp_parties = 3\<rparr>"

definition demo_outcome :: DkgOutcome where
  "demo_outcome = \<lparr>do_key_id = ''mpc-u'', do_public_key = gf5_bytes G3\<rparr>"

lemma demo_dkg_run: "threshold_dkg demo_env demo_dkg demo_engine0 = (Ok demo_outcome, demo_engine)"
proof -
  obtain cl :: "gf5 Cluster" where cl: "cluster_new 2 3 = Ok cl" by (simp add: cluster_new_def)
  show ?thesis
    using demo_keygen[OF cl, of "''mpc-u''"] demo_engine0_sel[OF cl]
    by (simp add: threshold_dkg_def demo_dkg_def demo_env_def new_v4_def Let_def demo_outcome_def
        demo_engine_def)
qed

lemma demo_engine_fresh: "key_id_fresh demo_engine0"
proof -
  obtain cl :: "gf5 Cluster" where cl: "cluster_new 2 3 = Ok cl" by (simp add: cluster_new_def)
  moreover have "cl_keys cl = Map.empty" using cl by (auto simp: cluster_new_def)
  ultimately show ?thesis using demo_engine0_sel[OF cl] by (simp add: key_id_fresh_def)
qed

lemma demo_engine_reach: "threshold_reach demo_env 2 3 demo_engine"
  by (rule tr_dkg[OF demo_engine0_reach demo_engine_fresh demo_dkg_run])

section \<open>Properties\<close>

text \<open>
  Every signature the threshold engine returns, in any reachable state, is accepted for the
  payload by the verifier of the request's chain under the public key returned with it.
\<close>
theorem threshold_signatures_accepted:
  assumes "threshold_lawful (E :: ('s :: field, 'p :: ab_group_add, 't :: field, 'q :: ab_group_add) threshold_env)"
    and "indices_distinct TYPE('s) n" and "indices_distinct TYPE('t) n"
    and "threshold_reach E t n e" and "eng_sign (threshold_engine E) req e = (Ok s, e')"
  shows "chain_accepts E (er_chain req) (er_payload req) (es_signature s) (es_public_key s)"
  using threshold.sign_accepted[OF _ assms(5)] threshold_reach_inv[OF assms(1-4)] assms(1) by blast

lemma demo_sign_live:
  "\<exists>s :: EngineSignature. fst (threshold_sign demo_env \<lparr>er_key_id = ''mpc-u'', er_chain = Bitcoin, er_payload = [1, 2]\<rparr>
      demo_engine) = Ok s \<and> es_public_key s = gf5_bytes G3"
proof -
  let ?cl = "demo_cluster_for ''mpc-u''"
  have reach: "cluster_reach demo_secp demo_timer 2 3 ?cl"
  proof -
    obtain cl :: "gf5 Cluster" where cl: "cluster_new 2 3 = Ok cl" by (simp add: cluster_new_def)
    moreover have "cl_keys cl ''mpc-u'' = None" using cl by (auto simp: cluster_new_def)
    ultimately show ?thesis by (metis cr_new cr_keygen demo_keygen)
  qed
  have inv: "cluster_inv demo_secp ?cl" by (rule lawful_reach_inv[OF demo_lawful demo_indices reach])
  have key: "cl_keys ?cl ''mpc-u'' = Some demo_info" by (simp add: demo_cluster_for_def)
  obtain cs where sh: "sharing ?cl ''mpc-u'' cs"
    and pk: "ki_public_key demo_info = public_from_scalar demo_secp (hd cs)"
    by (rule inv_sharing[OF inv key])
  have "hd cs = G3"
    using pk by (simp add: demo_info_def Secp256k1_def secp_public_from_scalar_def demo_k256_def)
  hence nz: "hd cs \<noteq> 0" by (simp add: gf5_numerals)
  have "cl_t ?cl \<le> length (round_responders demo_timer ?cl)"
    by (simp add: round_responders_def demo_cluster_for_def demo_node_def)
  from secp.sign_verifies[OF demo_k256_laws inv key this sh nz, of "[1, 2]"]
  obtain sig where "fst (cluster_sign demo_secp demo_timer ''mpc-u'' [1, 2] ?cl (sconst G1)) = Ok sig"
    by blast
  moreover have "th_rng_ecdsa demo_engine = sconst G1"
    by (simp add: demo_engine_def demo_engine0_def threshold_new_def cluster_new_def)
  ultimately show ?thesis
    by (auto simp: threshold_sign_def demo_engine_def demo_env_def cluster_public_key_def
        demo_cluster_for_def demo_info_def case_prod_unfold)
qed

theorem threshold_signatures_accepted_witness:
  "\<exists>s :: EngineSignature. chain_accepts demo_env Bitcoin [1, 2] (es_signature s) (gf5_bytes G3)"
proof -
  let ?q = "\<lparr>er_key_id = ''mpc-u'', er_chain = Bitcoin, er_payload = [1, 2]\<rparr>"
  obtain s where s: "fst (threshold_sign demo_env ?q demo_engine) = Ok s" "es_public_key s = gf5_bytes G3"
    using demo_sign_live by blast
  hence "eng_sign (threshold_engine demo_env) ?q demo_engine = (Ok s, snd (threshold_sign demo_env ?q demo_engine))"
    by (simp add: threshold_engine_def prod_eq_iff)
  from threshold_signatures_accepted[OF demo_env_lawful demo_indices demo_indices demo_engine_reach this]
  show ?thesis using s(2) by auto
qed

text \<open>
  (C14) A key generated by \<open>dkg\<close> can sign at once: for a request on a chain with the same signature
  scheme, with a quorum of its cluster answering, \<open>sign\<close> succeeds and returns the public key that
  \<open>dkg\<close> reported, and the signature verifies under it. (A key of the zero scalar is excluded.)
\<close>
theorem dkg_then_sign:
  assumes "threshold_lawful (E :: ('s :: field, 'p :: ab_group_add, 't :: field, 'q :: ab_group_add) threshold_env)"
    and "indices_distinct TYPE('s) n" and "indices_distinct TYPE('t) n"
    and "threshold_reach E t n e" and "key_id_fresh e"
    and "threshold_dkg E p e = (Ok out, e')"
    and "er_key_id req = do_key_id out" and "scheme (er_chain req) = scheme (dp_chain p)"
    and "cl_t (th_ecdsa e') \<le> length (round_responders (te_timer E) (th_ecdsa e'))"
    and "cl_t (th_eddsa e') \<le> length (round_responders (te_timer E) (th_eddsa e'))"
    and "do_public_key out \<noteq> public_from_scalar (te_secp E) 0"
  shows "\<exists>s. fst (threshold_sign E req e') = Ok s \<and> es_public_key s = do_public_key out \<and>
    chain_accepts E (er_chain req) (er_payload req) (es_signature s) (do_public_key out)"
proof -
  have L: "k256_laws (te_k256 E)" "dalek_laws (te_ed E)" using assms(1) by (auto simp: threshold_lawful_def)
  have "threshold_inv E e" by (rule threshold_reach_inv[OF assms(1-4)])
  hence inv': "threshold_inv E e'" by (rule threshold_dkg_inv[OF assms(1) _ assms(5,6)])
  hence inv1: "cluster_inv (te_secp E) (th_ecdsa e')" and inv2: "cluster_inv (te_edwards E) (th_eddsa e')"
    by (auto simp: threshold_inv_def)
  note k = threshold_dkg_key[OF assms(6)]
  show ?thesis
  proof (cases "scheme (dp_chain p)")
    case sch: EcdsaSecp256k1
    obtain cs where sh: "sharing (th_ecdsa e') (do_key_id out) cs"
        and pk: "do_public_key out = public_from_scalar (te_secp E) (hd cs)"
      using inv_sharing[OF inv1 k(3)[OF sch]] by (metis KeyInfo.select_convs(1))
    hence "hd cs \<noteq> 0" using assms(11) by auto
    from secp.sign_verifies[OF L(1) inv1 k(3)[OF sch] assms(9) sh this, of "er_payload req" "th_rng_ecdsa e'"]
    show ?thesis using k sch assms(7,8) pk
      by (auto simp: threshold_sign_def chain_accepts_def cluster_public_key_def case_prod_unfold)
  next
    case sch: Ed25519Scheme
    obtain cs where sh: "sharing (th_eddsa e') (do_key_id out) cs"
        and pk: "do_public_key out = public_from_scalar (te_edwards E) (hd cs)"
      using inv_sharing[OF inv2 k(4)[OF sch]] by (metis KeyInfo.select_convs(1))
    from ed.sign_verifies[OF L(2) inv2 k(4)[OF sch] assms(10) sh TrueI, of "er_payload req" "th_rng_eddsa e'"]
    show ?thesis using k sch assms(7,8) pk
      by (auto simp: threshold_sign_def chain_accepts_def cluster_public_key_def case_prod_unfold)
  qed
qed

lemma demo_quorums:
  "cl_t (th_ecdsa demo_engine) \<le> length (round_responders (te_timer demo_env) (th_ecdsa demo_engine))"
  "cl_t (th_eddsa demo_engine) \<le> length (round_responders (te_timer demo_env) (th_eddsa demo_engine))"
proof -
  show "cl_t (th_ecdsa demo_engine) \<le> length (round_responders (te_timer demo_env) (th_ecdsa demo_engine))"
    by (simp add: demo_engine_def demo_env_def round_responders_def demo_cluster_for_def demo_node_def)
  obtain cl :: "gf5 Cluster" where cl: "cluster_new 2 3 = Ok cl" by (simp add: cluster_new_def)
  have "th_eddsa demo_engine = cl"
    using demo_engine0_sel[OF cl] by (simp add: demo_engine_def)
  moreover have "cl_t cl = 2" and "length (round_responders demo_timer cl) = 3"
    using cl by (auto simp: cluster_new_def round_responders_def node_new_def eval_nat_numeral)
  ultimately show "cl_t (th_eddsa demo_engine) \<le> length (round_responders (te_timer demo_env) (th_eddsa demo_engine))"
    by (simp add: demo_env_def)
qed

theorem dkg_then_sign_witness:
  "\<exists>s :: EngineSignature. fst (threshold_sign demo_env \<lparr>er_key_id = ''mpc-u'', er_chain = Evm, er_payload = [5]\<rparr> demo_engine) = Ok s \<and>
     chain_accepts demo_env Evm [5] (es_signature s) (gf5_bytes G3)"
proof -
  have "do_public_key demo_outcome \<noteq> public_from_scalar (te_secp demo_env) 0"
    by (simp add: demo_outcome_def demo_env_def Secp256k1_def secp_public_from_scalar_def demo_k256_def gf5_numerals)
  from dkg_then_sign[OF demo_env_lawful demo_indices demo_indices demo_engine0_reach demo_engine_fresh
      demo_dkg_run _ _ demo_quorums this, of "\<lparr>er_key_id = ''mpc-u'', er_chain = Evm, er_payload = [5]\<rparr>"]
  show ?thesis by (auto simp: demo_outcome_def demo_dkg_def)
qed

text \<open>
  Rotation never changes the public key: whenever \<open>rotate_key\<close> succeeds, it reports the key's
  own public key and its epoch plus one, and the key's metadata afterwards differ from those before
  in the epoch only.
\<close>
theorem rotation_keeps_public_key:
  assumes "threshold_rotate_key E key_id e = (Ok r, e')"
  shows "\<exists>m m'. threshold_get_key_metadata key_id e = (Ok m, e) \<and>
    threshold_get_key_metadata key_id e' = (Ok m', e') \<and> ro_key_id r = key_id \<and>
    ro_public_key r = km_public_key m \<and> ro_epoch r = km_epoch m + 1 \<and> m' = m\<lparr>km_epoch := ro_epoch r\<rparr>"
  using assms by (rule threshold_rotate_Ok)

lemma demo_rotate: "\<exists>r e'. threshold_rotate_key demo_env ''mpc-u'' demo_engine = (Ok r, e')"
proof -
  let ?cl = "demo_cluster_for ''mpc-u''"
  have inv: "cluster_inv demo_secp ?cl"
    using threshold_reach_inv[OF demo_env_lawful demo_indices demo_indices demo_engine_reach]
    by (simp add: threshold_inv_def demo_env_def demo_engine_def)
  have key: "cl_keys ?cl ''mpc-u'' = Some demo_info" by (simp add: demo_cluster_for_def)
  obtain cs where sh: "sharing ?cl ''mpc-u'' cs"
    and pk: "ki_public_key demo_info = public_from_scalar demo_secp (hd cs)"
    by (rule inv_sharing[OF inv key])
  have "online_count ?cl = cl_n ?cl"
    by (simp add: online_count_def demo_cluster_for_def demo_node_def)
  from secp.refresh_succeeds[OF demo_k256_laws inv this key sh pk]
  obtain cl' g' where "refresh demo_secp demo_timer ''mpc-u'' ?cl (th_rng_ecdsa demo_engine0) =
      (Ok (ki_public_key demo_info, ki_epoch demo_info + 1), cl', g')" by metis
  thus ?thesis by (simp add: threshold_rotate_key_def demo_engine_def demo_env_def)
qed

theorem rotation_keeps_public_key_witness:
  "\<exists>r e' m. threshold_rotate_key demo_env ''mpc-u'' demo_engine = (Ok r, e') \<and>
     threshold_get_key_metadata ''mpc-u'' demo_engine = (Ok m, demo_engine) \<and>
     ro_public_key r = km_public_key m"
proof -
  obtain r e' where r: "threshold_rotate_key demo_env ''mpc-u'' demo_engine = (Ok r, e')"
    using demo_rotate by blast
  from rotation_keeps_public_key[OF this] r show ?thesis by auto
qed

text \<open>
  After \<open>dkg\<close> the key's metadata report its public key and epoch 1, but not its chain: a key
  generated for Bitcoin is reported as an EVM key, and one for Aptos or Sui as a Solana key.
\<close>
theorem metadata_reports_scheme_not_chain:
  assumes "threshold_dkg E p e = (Ok out, e')"
  shows "threshold_get_key_metadata (do_key_id out) e' =
    (Ok \<lparr>km_key_id = do_key_id out,
         km_chain = (if dp_chain p \<in> {Evm, Bitcoin} then Evm else Solana),
         km_public_key = do_public_key out, km_status = Active, km_epoch = 1\<rparr>, e')"
proof (cases "scheme (dp_chain p)")
  case EcdsaSecp256k1
  moreover have "dp_chain p \<in> {Evm, Bitcoin}" using EcdsaSecp256k1 by (cases "dp_chain p") auto
  ultimately show ?thesis using threshold_dkg_key[OF assms]
    by (simp add: threshold_get_key_metadata_def cluster_public_key_def cluster_epoch_def)
next
  case Ed25519Scheme
  moreover have "dp_chain p \<notin> {Evm, Bitcoin}" using Ed25519Scheme by auto
  ultimately show ?thesis using threshold_dkg_key[OF assms]
    by (simp add: threshold_get_key_metadata_def cluster_public_key_def cluster_epoch_def)
qed

theorem metadata_reports_scheme_not_chain_witness:
  "dp_chain demo_dkg = Bitcoin \<and>
   (\<exists>m. fst (threshold_get_key_metadata ''mpc-u'' demo_engine) = Ok m \<and> km_chain m = Evm)"
  using metadata_reports_scheme_not_chain[OF demo_dkg_run]
  by (simp add: demo_dkg_def demo_outcome_def)

end
