(* ===== verification/Service.thy ===== *)
theory Service
  imports Policy Wallet Audit_Log Threshold
begin

text \<open>
  \<open>src/grpc/service.rs\<close>: the gRPC service. \<open>SignTx\<close> validates the request, opens a session, checks
  the policy token and the wallet binding, dispatches to the engine, and closes the session with
  one audit record; the control-plane calls dispatch to the engine. A handler is a function on
  the service state; a panic of the engine ends the handler where it stands.
\<close>

section \<open>Requests and responses\<close>

record SignTxRequest =
  sq_key_id :: string
  sq_chain :: int
  sq_tx_payload :: bytes
  sq_policy_decision_token :: string
  sq_wallet_id :: string

record SignTxResponse =
  sr_signing_session_id :: string
  sr_signature :: bytes
  sr_public_key :: bytes
  sr_address :: string

record DkgRequest =
  dq_chain :: int
  dq_threshold :: u32
  dq_parties :: u32

record DkgResponse =
  dr_key_id :: string
  dr_public_key :: bytes

record RotateKeyResponse =
  rr_key_id :: string
  rr_public_key :: bytes
  rr_epoch :: u64

record GetKeyMetadataResponse =
  gr_key_id :: string
  gr_chain :: int
  gr_public_key :: bytes
  gr_status :: string
  gr_epoch :: u64

record RestoreShareRequest =
  tq_key_id :: string
  tq_node_id :: string
  tq_quorum_proof :: bytes

record RestoreShareResponse =
  tr_key_id :: string
  tr_node_id :: string
  tr_restored :: bool

section \<open>Dependencies and state\<close>

text \<open>
  The dependencies of \<open>MpcService\<close> that do not change while it serves, with the crates they use.
\<close>

record 'e MpcService =
  sv_crates :: crates
  sv_claims_serde :: "PolicyClaims serde"
  sv_audit_serde :: "SigningAuditRecord serde"
  sv_verifier :: "Ed25519TokenVerifier option"
  sv_wallet :: "wallet_client option"
  sv_engine :: "'e SigningEngine"
  sv_audit_signer :: AuditSigner
  sv_skip_policy :: bool
  sv_skip_wallet_check :: bool

text \<open>What changes: the stores, the audit queue, the engine, and the values still to be read.\<close>

record 'e service_state =
  srv_sessions :: SessionStore
  srv_used :: TokenStore
  srv_queue :: "SigningAuditRecord list"
  srv_engine :: 'e
  srv_world :: world

definition invalid_argument :: "string \<Rightarrow> Status" where
  "invalid_argument m = status_new Code_InvalidArgument m"

text \<open>Build, sign and queue the audit record of a session.\<close>

definition emit_record ::
  "'e MpcService \<Rightarrow> SigningSession \<Rightarrow> AuditResult \<Rightarrow> string option \<Rightarrow> string option \<Rightarrow>
   'e service_state \<Rightarrow> 'e service_state" where
  "emit_record sv session res reason sig_hex s =
     (let (rec, w) = audit_record (sv_crates sv) (sv_audit_serde sv) (sv_audit_signer sv)
                       (ss_id session) (ss_key_id session) (ss_chain session)
                       (ss_request_hash session) res reason sig_hex (srv_world s)
      in s\<lparr>srv_queue := emit rec (srv_queue s), srv_world := w\<rparr>)"

definition set_status ::
  "SigningSessionId \<Rightarrow> SessionStatus \<Rightarrow> string option \<Rightarrow> 'e service_state \<Rightarrow> 'e service_state" where
  "set_status i st reason s =
     s\<lparr>srv_sessions := session_update_status (srv_sessions s) i st reason\<rparr>"

definition deny ::
  "'e MpcService \<Rightarrow> SigningSession \<Rightarrow> string \<Rightarrow> Code \<Rightarrow> 'e service_state \<Rightarrow> Status \<times> 'e service_state" where
  "deny sv session reason code s =
     (status_new code reason,
      emit_record sv session Audit_Denied (Some reason) None
        (set_status (ss_id session) Denied (Some reason) s))"

section \<open>SignTx\<close>

text \<open>The policy step lets the request pass, or ends in the reason and code to deny with.\<close>

definition policy_step ::
  "'e MpcService \<Rightarrow> SignTxRequest \<Rightarrow> Chain \<Rightarrow> 'e service_state \<Rightarrow>
   (unit, string \<times> Code) result \<times> 'e service_state" where
  "policy_step sv req chain s =
     (if sv_skip_policy sv then (Ok (), s)
      else case sv_verifier sv of
        None \<Rightarrow> (Err (''policy_verifier_not_configured'', Code_FailedPrecondition), s)
      | Some v \<Rightarrow>
          (case policy_verify (sv_crates sv) (sv_claims_serde sv) v (sq_policy_decision_token req)
                  (sq_tx_payload req) (sq_key_id req) chain (srv_used s) (srv_world s) of
             (r, used, w) \<Rightarrow>
               (and_then (map_err (\<lambda>reason. (deny_to_string reason, Code_FailedPrecondition)) r)
                  (\<lambda>_. Ok ()),
                s\<lparr>srv_used := used, srv_world := w\<rparr>)))"

fun wallet_denial :: "WalletError \<Rightarrow> string \<times> Code" where
  "wallet_denial (W_Unavailable m) = (''wallet_management_unavailable'', Code_Unavailable)"
| "wallet_denial W_NotFound = (''wallet_not_found'', Code_FailedPrecondition)"
| "wallet_denial W_KeyMismatch = (''wallet_key_mismatch'', Code_FailedPrecondition)"

definition wallet_step :: "'e MpcService \<Rightarrow> SignTxRequest \<Rightarrow> (unit, string \<times> Code) result" where
  "wallet_step sv req =
     (if sv_skip_wallet_check sv then Ok ()
      else case sv_wallet sv of
        None \<Rightarrow> Err (''wallet_management_not_configured'', Code_FailedPrecondition)
      | Some wallet \<Rightarrow>
          and_then (map_err wallet_denial
                      (check_key_binding wallet (sq_wallet_id req) (sq_key_id req)))
            (\<lambda>_. Ok ()))"

text \<open>The engine step and the end of the session.\<close>

definition dispatch ::
  "'e MpcService \<Rightarrow> SignTxRequest \<Rightarrow> SigningSession \<Rightarrow> 'e service_state \<Rightarrow>
   (SignTxResponse, Status) result \<times> 'e service_state" where
  "dispatch sv req session s0 =
     (let s1 = set_status (ss_id session) Signing None s0;
          (r, e) = eng_sign (sv_engine sv)
                     \<lparr>er_key_id = ss_key_id session, er_chain = ss_chain session,
                      er_payload = sq_tx_payload req\<rparr> (srv_engine s1);
          s2 = s1\<lparr>srv_engine := e\<rparr>
      in case r of
           Ok sig \<Rightarrow>
             (Ok \<lparr>sr_signing_session_id = ss_id session, sr_signature = es_signature sig,
                  sr_public_key = es_public_key sig, sr_address = []\<rparr>,
              emit_record sv session Audit_Signed None
                (Some (hex_encode (sv_crates sv) (es_signature sig)))
                (set_status (ss_id session) Signed None s2))
         | Err err \<Rightarrow>
             (let msg = engine_error_to_string err
              in (Err (engine_status err),
                  emit_record sv session Audit_Failed (Some msg) None
                    (set_status (ss_id session) Failed (Some msg) s2)))
         | Panic \<Rightarrow> (Panic, s2))"

text \<open>The checks before a session exists.\<close>

definition validate :: "SignTxRequest \<Rightarrow> (Chain, Status) result" where
  "validate req =
     (case chain_from_proto (sq_chain req) of
        None \<Rightarrow> Err (invalid_argument ''unknown or unspecified chain'')
      | Some chain \<Rightarrow>
          if sq_key_id req = [] then Err (invalid_argument ''key_id is required'')
          else if sq_tx_payload req = [] then Err (invalid_argument ''tx_payload is required'')
          else Ok chain)"

definition open_session ::
  "'e MpcService \<Rightarrow> SignTxRequest \<Rightarrow> Chain \<Rightarrow> 'e service_state \<Rightarrow> SigningSession \<times> 'e service_state" where
  "open_session sv req chain s =
     (let (i, w1) = new_session_id (srv_world s);
          (now, w2) = unix_now w1;
          session = \<lparr>ss_id = i, ss_key_id = sq_key_id req, ss_chain = chain,
                     ss_request_hash = sha256_hex (sv_crates sv) (sq_tx_payload req),
                     ss_status = Pending, ss_denial_reason = None, ss_created_at_unix = now\<rparr>
      in (session, s\<lparr>srv_sessions := session_insert (srv_sessions s) session, srv_world := w2\<rparr>))"

definition sign_tx ::
  "'e MpcService \<Rightarrow> SignTxRequest \<Rightarrow> 'e service_state \<Rightarrow>
   (SignTxResponse, Status) result \<times> 'e service_state" where
  "sign_tx sv req s =
     (case validate req of
        Err st \<Rightarrow> (Err st, s)
      | Panic \<Rightarrow> (Panic, s)
      | Ok chain \<Rightarrow>
          (let (session, s1) = open_session sv req chain s
           in case policy_step sv req chain s1 of
                (Err (reason, code), s2) \<Rightarrow>
                  (let (st, s3) = deny sv session reason code s2 in (Err st, s3))
              | (Panic, s2) \<Rightarrow> (Panic, s2)
              | (Ok u, s2) \<Rightarrow>
                  (case wallet_step sv req of
                     Err (reason, code) \<Rightarrow>
                       (let (st, s3) = deny sv session reason code s2 in (Err st, s3))
                   | Panic \<Rightarrow> (Panic, s2)
                   | Ok u' \<Rightarrow> dispatch sv req session s2)))"

section \<open>Control plane\<close>

definition call_engine ::
  "('r, EngineError) result \<times> 'e \<Rightarrow> ('r \<Rightarrow> 'a) \<Rightarrow> 'e service_state \<Rightarrow>
   ('a, Status) result \<times> 'e service_state" where
  "call_engine re f s =
     (case re of (r, e) \<Rightarrow>
        (and_then (map_err engine_status r) (\<lambda>x. Ok (f x)), s\<lparr>srv_engine := e\<rparr>))"

definition service_dkg ::
  "'e MpcService \<Rightarrow> DkgRequest \<Rightarrow> 'e service_state \<Rightarrow> (DkgResponse, Status) result \<times> 'e service_state" where
  "service_dkg sv req s =
     (case chain_from_proto (dq_chain req) of
        None \<Rightarrow> (Err (invalid_argument ''unknown or unspecified chain''), s)
      | Some chain \<Rightarrow>
          call_engine
            (eng_dkg (sv_engine sv) \<lparr>dp_chain = chain, dp_threshold = dq_threshold req,
               dp_parties = dq_parties req\<rparr> (srv_engine s))
            (\<lambda>out. \<lparr>dr_key_id = do_key_id out, dr_public_key = do_public_key out\<rparr>) s)"

definition service_rotate_key ::
  "'e MpcService \<Rightarrow> string \<Rightarrow> 'e service_state \<Rightarrow>
   (RotateKeyResponse, Status) result \<times> 'e service_state" where
  "service_rotate_key sv key_id s =
     (if key_id = [] then (Err (invalid_argument ''key_id is required''), s)
      else call_engine (eng_rotate_key (sv_engine sv) key_id (srv_engine s))
             (\<lambda>out. \<lparr>rr_key_id = ro_key_id out, rr_public_key = ro_public_key out,
                    rr_epoch = ro_epoch out\<rparr>) s)"

fun chain_to_proto :: "Chain \<Rightarrow> int" where
  "chain_to_proto Evm = 1"
| "chain_to_proto Solana = 2"
| "chain_to_proto Aptos = 3"
| "chain_to_proto Sui = 4"
| "chain_to_proto Bitcoin = 5"

text \<open>\<open>format!("{:?}", status).to_lowercase()\<close>.\<close>

fun status_lowercase :: "KeyShareStatus \<Rightarrow> string" where
  "status_lowercase Active = ''active''"
| "status_lowercase Cooling = ''cooling''"
| "status_lowercase Retired = ''retired''"

definition service_get_key_metadata ::
  "'e MpcService \<Rightarrow> string \<Rightarrow> 'e service_state \<Rightarrow>
   (GetKeyMetadataResponse, Status) result \<times> 'e service_state" where
  "service_get_key_metadata sv key_id s =
     (if key_id = [] then (Err (invalid_argument ''key_id is required''), s)
      else call_engine (eng_get_key_metadata (sv_engine sv) key_id (srv_engine s))
             (\<lambda>m. \<lparr>gr_key_id = km_key_id m, gr_chain = chain_to_proto (km_chain m),
                  gr_public_key = km_public_key m, gr_status = status_lowercase (km_status m),
                  gr_epoch = km_epoch m\<rparr>) s)"

definition service_restore_share ::
  "'e MpcService \<Rightarrow> RestoreShareRequest \<Rightarrow> 'e service_state \<Rightarrow>
   (RestoreShareResponse, Status) result \<times> 'e service_state" where
  "service_restore_share sv req s =
     (if tq_key_id req = [] \<or> tq_node_id req = []
      then (Err (invalid_argument ''key_id and node_id are required''), s)
      else call_engine
             (eng_restore_share (sv_engine sv) \<lparr>rp_key_id = tq_key_id req, rp_node_id = tq_node_id req,
                rp_quorum_proof = tq_quorum_proof req\<rparr> (srv_engine s))
             (\<lambda>restored. \<lparr>tr_key_id = tq_key_id req, tr_node_id = tq_node_id req,
                         tr_restored = restored\<rparr>) s)"


section \<open>Approval\<close>

text \<open>
  What has to hold for a signature, with both checks in force: a policy token whose claims the
  Policy Engine signed for this payload, key and chain, fresh at the time of the check and not
  used before, and a wallet that lists the key.
\<close>

definition policy_approved ::
  "'e MpcService \<Rightarrow> SignTxRequest \<Rightarrow> Chain \<Rightarrow> 'e service_state \<Rightarrow> PolicyClaims \<Rightarrow> bool" where
  "policy_approved sv req chain s c \<longleftrightarrow>
     (\<exists>v. sv_verifier sv = Some v \<and>
        open_token (sv_crates sv) (sv_claims_serde sv) (tv_policy_pubkey v)
          (sq_policy_decision_token req) = Ok c \<and>
        pc_tx_payload_hash c = sha256_hex (sv_crates sv) (sq_tx_payload req) \<and>
        pc_key_id c = sq_key_id req \<and> pc_chain c = chain \<and>
        \<not> token_stale (tv_max_skew_secs v) c
            (fst (unix_now (srv_world (snd (open_session sv req chain s))))) \<and>
        srv_used s (pc_token_id c) = None)"

definition wallet_approved :: "'e MpcService \<Rightarrow> SignTxRequest \<Rightarrow> bool" where
  "wallet_approved sv req \<longleftrightarrow>
     (\<exists>wallet rec. sv_wallet sv = Some wallet \<and> wallet (sq_wallet_id req) = Ok rec \<and>
        (wk_current_key_id rec = sq_key_id req \<or> sq_key_id req \<in> set (wk_key_ids rec)))"

text \<open>
  Wallet Management is another process: what its client answers may change from call to call, but
  not whether there is one.
\<close>

definition wallet_answers :: "'e MpcService \<Rightarrow> wallet_client option \<Rightarrow> bool" where
  "wallet_answers sv wc \<longleftrightarrow> (wc = None) = (sv_wallet sv = None)"

lemma wallet_answers_same [simp]: "wallet_answers sv (sv_wallet sv)" "sv\<lparr>sv_wallet := sv_wallet sv\<rparr> = sv"
  by (simp_all add: wallet_answers_def)

definition checks_in_force :: "'e MpcService \<Rightarrow> bool" where
  "checks_in_force sv \<longleftrightarrow> \<not> sv_skip_policy sv \<and> \<not> sv_skip_wallet_check sv"

section \<open>Lemmas\<close>

lemma open_session_simps [simp]:
  "srv_used (snd (open_session sv req chain s)) = srv_used s"
  "srv_queue (snd (open_session sv req chain s)) = srv_queue s"
  "srv_engine (snd (open_session sv req chain s)) = srv_engine s"
  "srv_sessions (snd (open_session sv req chain s)) =
     session_insert (srv_sessions s) (fst (open_session sv req chain s))"
  "ss_id (fst (open_session sv req chain s)) = shd (uuids (srv_world s))"
  "ss_key_id (fst (open_session sv req chain s)) = sq_key_id req"
  "ss_chain (fst (open_session sv req chain s)) = chain"
  "ss_request_hash (fst (open_session sv req chain s)) = sha256_hex (sv_crates sv) (sq_tx_payload req)"
  "ss_status (fst (open_session sv req chain s)) = Pending"
  by (simp_all add: open_session_def Let_def new_session_id_def case_prod_unfold)

lemma emit_record_simps [simp]:
  "srv_used (emit_record sv ses res rsn sg s) = srv_used s"
  "srv_engine (emit_record sv ses res rsn sg s) = srv_engine s"
  "srv_sessions (emit_record sv ses res rsn sg s) = srv_sessions s"
  by (simp_all add: emit_record_def case_prod_unfold Let_def)

lemma set_status_simps [simp]:
  "srv_used (set_status i st rsn s) = srv_used s"
  "srv_engine (set_status i st rsn s) = srv_engine s"
  "srv_queue (set_status i st rsn s) = srv_queue s"
  "srv_world (set_status i st rsn s) = srv_world s"
  "srv_sessions (set_status i st rsn s) = session_update_status (srv_sessions s) i st rsn"
  by (simp_all add: set_status_def)

lemma policy_step_simps:
  assumes "policy_step sv req chain s = (r, s')"
  shows "srv_queue s' = srv_queue s" "srv_engine s' = srv_engine s" "srv_sessions s' = srv_sessions s"
    "r \<noteq> Panic" "r = Err x \<Longrightarrow> srv_used s' = srv_used s"
proof -
  show "srv_queue s' = srv_queue s" "srv_engine s' = srv_engine s" "srv_sessions s' = srv_sessions s"
    using assms by (auto simp: policy_step_def split: if_splits option.splits prod.splits)
  show "r \<noteq> Panic"
  proof
    assume "r = Panic"
    then obtain v u w where "policy_verify (sv_crates sv) (sv_claims_serde sv) v
        (sq_policy_decision_token req) (sq_tx_payload req) (sq_key_id req) chain (srv_used s)
        (srv_world s) = (Panic, u, w)"
      using assms by (auto simp: policy_step_def result_simps split: if_splits option.splits prod.splits)
    thus False by (metis fst_conv policy_verify_not_Panic)
  qed
  show "srv_used s' = srv_used s" if "r = Err x"
    using assms that policy_verify_Err_store
    by (auto simp: policy_step_def result_simps split: if_splits option.splits prod.splits)
qed

lemma wallet_step_Ok_iff:
  assumes "\<not> sv_skip_wallet_check sv" and "sq_key_id req \<noteq> []"
  shows "wallet_step sv req = Ok () \<longleftrightarrow> wallet_approved sv req"
proof (cases "sv_wallet sv")
  case (Some wallet)
  have "wallet_step sv req = Ok () \<longleftrightarrow>
      (\<exists>rec. check_key_binding wallet (sq_wallet_id req) (sq_key_id req) = Ok rec)"
    using assms(1) Some by (simp add: wallet_step_def result_simps)
  moreover have "check_key_binding wallet (sq_wallet_id req) (sq_key_id req) = Ok rec \<longleftrightarrow>
      wallet (sq_wallet_id req) = Ok rec \<and>
      (wk_current_key_id rec = sq_key_id req \<or> sq_key_id req \<in> set (wk_key_ids rec))" for rec
    unfolding check_key_binding_iff using assms(2) by (cases "wk_key_ids rec") auto
  ultimately show ?thesis using Some by (simp add: wallet_approved_def)
qed (use assms in \<open>simp add: wallet_step_def wallet_approved_def\<close>)

lemma policy_step_Ok_iff:
  assumes "\<not> sv_skip_policy sv"
  shows "fst (policy_step sv req chain (snd (open_session sv req chain s))) = Ok () \<longleftrightarrow>
    (\<exists>c. policy_approved sv req chain s c)"
proof (cases "sv_verifier sv")
  case (Some v)
  let ?s = "snd (open_session sv req chain s)"
  let ?pv = "policy_verify (sv_crates sv) (sv_claims_serde sv) v (sq_policy_decision_token req)
        (sq_tx_payload req) (sq_key_id req) chain (srv_used ?s) (srv_world ?s)"
  have "fst (policy_step sv req chain ?s) = Ok () \<longleftrightarrow> (\<exists>c. fst ?pv = Ok c)"
    using assms Some by (auto simp: policy_step_def result_simps case_prod_unfold)
  moreover have "fst ?pv = Ok c \<longleftrightarrow> policy_approved sv req chain s c" for c
  proof
    assume "fst ?pv = Ok c"
    then obtain u w where pv: "?pv = (Ok c, u, w)" by (metis prod.collapse)
    show "policy_approved sv req chain s c"
      using policy_verify_OkD[OF pv] Some by (auto simp: policy_approved_def)
  next
    assume "policy_approved sv req chain s c"
    thus "fst ?pv = Ok c" using Some by (auto simp: policy_approved_def policy_verify_eq)
  qed
  ultimately show ?thesis by simp
qed (use assms in \<open>simp add: policy_step_def policy_approved_def\<close>)

lemma policy_step_Ok_used:
  assumes "policy_step sv req chain (snd (open_session sv req chain s)) = (Ok (), s')"
    and "\<not> sv_skip_policy sv"
  shows "\<exists>c. policy_approved sv req chain s c \<and> srv_used s' = (srv_used s)(pc_token_id c \<mapsto> pc_expires_at c)"
proof -
  let ?s = "snd (open_session sv req chain s)"
  obtain v where v: "sv_verifier sv = Some v"
    using assms by (auto simp: policy_step_def split: option.splits)
  then obtain c w where pv: "policy_verify (sv_crates sv) (sv_claims_serde sv) v
        (sq_policy_decision_token req) (sq_tx_payload req) (sq_key_id req) chain (srv_used ?s)
        (srv_world ?s) = (Ok c, srv_used s', w)"
    using assms by (auto simp: policy_step_def result_simps split: prod.splits)
  show ?thesis using policy_verify_OkD[OF pv] v by (auto simp: policy_approved_def intro!: exI[of _ c])
qed

lemma wallet_denial_code: "snd (wallet_denial e) = Code_FailedPrecondition \<or> snd (wallet_denial e) = Code_Unavailable"
  by (cases e) simp_all

lemma validate_Ok_iff:
  "validate req = Ok chain \<longleftrightarrow>
     chain_from_proto (sq_chain req) = Some chain \<and> sq_key_id req \<noteq> [] \<and> sq_tx_payload req \<noteq> []"
  by (auto simp: validate_def split: option.splits)

lemma validate_not_Panic [simp]: "validate req \<noteq> Panic"
  by (auto simp: validate_def split: option.splits)

text \<open>The four ways a valid request can go.\<close>

lemma sign_tx_cases:
  assumes "sign_tx sv req s = (r, s')" and "validate req = Ok chain"
  defines "ses \<equiv> fst (open_session sv req chain s)" and "s1 \<equiv> snd (open_session sv req chain s)"
  obtains
    (policy) reason code s2 where "policy_step sv req chain s1 = (Err (reason, code), s2)"
      "r = Err (status_new code reason)" "s' = snd (deny sv ses reason code s2)"
  | (wallet) reason code s2 where "policy_step sv req chain s1 = (Ok (), s2)"
      "wallet_step sv req = Err (reason, code)"
      "r = Err (status_new code reason)" "s' = snd (deny sv ses reason code s2)"
  | (wallet_panic) s2 where "policy_step sv req chain s1 = (Ok (), s2)"
      "wallet_step sv req = Panic" "r = Panic" "s' = s2"
  | (engine) s2 where "policy_step sv req chain s1 = (Ok (), s2)"
      "wallet_step sv req = Ok ()" "dispatch sv req ses s2 = (r, s')"
proof -
  obtain p s2 where p: "policy_step sv req chain s1 = (p, s2)" by fastforce
  show ?thesis
  proof (cases p)
    case (Ok u)
    thus ?thesis using that(2-4) assms p
      by (cases "wallet_step sv req") (auto simp: sign_tx_def deny_def case_prod_unfold Let_def)
  next
    case (Err x)
    thus ?thesis using that(1) assms p
      by (cases x) (auto simp: sign_tx_def deny_def case_prod_unfold Let_def)
  next
    case Panic
    thus ?thesis using policy_step_simps(4)[OF p] by simp
  qed
qed


definition engine_request :: "SignTxRequest \<Rightarrow> Chain \<Rightarrow> EngineSignRequest" where
  "engine_request req chain =
     \<lparr>er_key_id = sq_key_id req, er_chain = chain, er_payload = sq_tx_payload req\<rparr>"

lemma dispatch_fst:
  assumes "ss_key_id ses = sq_key_id req" and "ss_chain ses = chain"
  shows "fst (dispatch sv req ses s) =
    and_then (map_err engine_status (fst (eng_sign (sv_engine sv) (engine_request req chain) (srv_engine s))))
      (\<lambda>sig. Ok \<lparr>sr_signing_session_id = ss_id ses, sr_signature = es_signature sig,
                 sr_public_key = es_public_key sig, sr_address = []\<rparr>)"
  using assms
  by (auto simp: dispatch_def Let_def case_prod_unfold engine_request_def split: result.splits)

lemma dispatch_used:
  assumes "dispatch sv req ses s = (r, s')"
  shows "srv_used s' = srv_used s"
  using assms by (auto simp: dispatch_def Let_def split: result.splits prod.splits)

lemma deny_simps [simp]:
  "srv_used (snd (deny sv ses reason code s)) = srv_used s"
  "srv_engine (snd (deny sv ses reason code s)) = srv_engine s"
  by (simp_all add: deny_def)

lemma approval_passes:
  assumes "checks_in_force sv" and "validate req = Ok chain"
  shows "(fst (policy_step sv req chain (snd (open_session sv req chain s))) = Ok ()) =
      (\<exists>c. policy_approved sv req chain s c) \<and>
    (wallet_step sv req = Ok ()) = wallet_approved sv req"
proof -
  have "\<not> sv_skip_policy sv" "\<not> sv_skip_wallet_check sv" "sq_key_id req \<noteq> []"
    using assms by (simp_all add: checks_in_force_def validate_Ok_iff)
  thus ?thesis using policy_step_Ok_iff[of sv req chain s] wallet_step_Ok_iff[of sv req] by blast
qed

lemma sign_tx_Ok_iff:
  assumes "checks_in_force sv"
  shows "fst (sign_tx sv req s) = Ok resp \<longleftrightarrow>
    (\<exists>chain c sig. validate req = Ok chain \<and> policy_approved sv req chain s c \<and> wallet_approved sv req \<and>
       fst (eng_sign (sv_engine sv) (engine_request req chain) (srv_engine s)) = Ok sig \<and>
       resp = \<lparr>sr_signing_session_id = shd (uuids (srv_world s)), sr_signature = es_signature sig,
               sr_public_key = es_public_key sig, sr_address = []\<rparr>)"
proof (cases "validate req")
  case (Ok chain)
  let ?s1 = "snd (open_session sv req chain s)" and ?ses = "fst (open_session sv req chain s)"
  obtain r s' where st: "sign_tx sv req s = (r, s')" by fastforce
  note ap = approval_passes[OF assms Ok, of s]
  from st Ok show ?thesis
  proof (cases rule: sign_tx_cases)
    case (engine s2)
    have "srv_engine s2 = srv_engine s" using policy_step_simps(2)[OF engine(1)] by simp
    hence "r = and_then (map_err engine_status
          (fst (eng_sign (sv_engine sv) (engine_request req chain) (srv_engine s))))
        (\<lambda>sig. Ok \<lparr>sr_signing_session_id = ss_id ?ses, sr_signature = es_signature sig,
                 sr_public_key = es_public_key sig, sr_address = []\<rparr>)"
      using dispatch_fst[of ?ses req chain sv s2] engine(3) by simp
    moreover have "\<exists>c. policy_approved sv req chain s c" and "wallet_approved sv req"
      using ap engine(1,2) by auto
    ultimately show ?thesis using st Ok by (auto simp: result_simps)
  qed (use ap st Ok in auto)
qed (simp_all add: sign_tx_def)

text \<open>
  A service in operation: requests in any order, Wallet Management answering each of them as it
  pleases.
\<close>

fun serve_all ::
  "'e MpcService \<Rightarrow> (SignTxRequest \<times> wallet_client option) list \<Rightarrow> 'e service_state \<Rightarrow>
   (SignTxResponse, Status) result list" where
  "serve_all sv [] s = []"
| "serve_all sv ((req, wallet) # rest) s =
     (case sign_tx (sv\<lparr>sv_wallet := wallet\<rparr>) req s of (r, s') \<Rightarrow> r # serve_all sv rest s')"

lemma sign_tx_used:
  assumes "sign_tx sv req s = (r, s')"
  shows "srv_used s' = srv_used s \<or> (\<exists>k e. srv_used s' = (srv_used s)(k \<mapsto> e))"
proof (cases "validate req")
  case (Ok chain)
  let ?s1 = "snd (open_session sv req chain s)"
  have pol: "srv_used s2 = srv_used s \<or> (\<exists>k e. srv_used s2 = (srv_used s)(k \<mapsto> e))"
    if "policy_step sv req chain ?s1 = (Ok (), s2)" for s2
  proof (cases "sv_skip_policy sv")
    case True thus ?thesis using that by (auto simp: policy_step_def)
  next
    case False thus ?thesis using policy_step_Ok_used[OF that] by blast
  qed
  from assms Ok show ?thesis
  proof (cases rule: sign_tx_cases)
    case (policy reason code s2)
    thus ?thesis using policy_step_simps(5)[OF policy(1)] by simp
  next
    case (wallet reason code s2)
    thus ?thesis using pol[OF wallet(1)] by simp
  next
    case (wallet_panic s2)
    thus ?thesis using pol[OF wallet_panic(1)] by simp
  next
    case (engine s2)
    thus ?thesis using pol[OF engine(1)] dispatch_used[OF engine(3)] by simp
  qed
qed (use assms in \<open>simp_all add: sign_tx_def\<close>)

lemma sign_tx_Ok_used:
  assumes "sign_tx sv req s = (Ok resp, s')" and "\<not> sv_skip_policy sv"
  shows "\<exists>v c. sv_verifier sv = Some v \<and> open_token (sv_crates sv) (sv_claims_serde sv)
      (tv_policy_pubkey v) (sq_policy_decision_token req) = Ok c \<and>
    srv_used s (pc_token_id c) = None \<and> srv_used s' (pc_token_id c) \<noteq> None"
proof -
  obtain chain where v: "validate req = Ok chain"
    using assms(1) by (cases "validate req") (auto simp: sign_tx_def)
  from assms(1) v show ?thesis
  proof (cases rule: sign_tx_cases)
    case (engine s2)
    obtain c where c: "policy_approved sv req chain s c"
        "srv_used s2 = (srv_used s)(pc_token_id c \<mapsto> pc_expires_at c)"
      using policy_step_Ok_used[OF engine(1) assms(2)] by blast
    thus ?thesis using dispatch_used[OF engine(3)] by (auto simp: policy_approved_def)
  qed auto
qed

definition token_wins :: "string \<Rightarrow> (SignTxRequest \<times> wallet_client option) list \<Rightarrow>
    (SignTxResponse, Status) result list \<Rightarrow> nat" where
  "token_wins tok qs rs = length (filter (\<lambda>((req, w), r). sq_policy_decision_token req = tok \<and> is_ok r) (zip qs rs))"

lemma serve_all_spent:
  assumes np: "\<not> sv_skip_policy sv"
    and tok: "sv_verifier sv = Some v" "open_token (sv_crates sv) (sv_claims_serde sv)
      (tv_policy_pubkey v) tok = Ok c"
  shows "srv_used s (pc_token_id c) \<noteq> None \<Longrightarrow> token_wins tok qs (serve_all sv qs s) = 0"
proof (induction qs arbitrary: s)
  case (Cons q qs)
  obtain req wallet where q: "q = (req, wallet)" by force
  let ?sv = "sv\<lparr>sv_wallet := wallet\<rparr>"
  obtain r s' where r: "sign_tx ?sv req s = (r, s')" by fastforce
  have "srv_used s' (pc_token_id c) \<noteq> None" using sign_tx_used[OF r] Cons.prems by auto
  hence IH: "token_wins tok qs (serve_all sv qs s') = 0" by (rule Cons.IH)
  have "\<not> (sq_policy_decision_token req = tok \<and> is_ok r)"
  proof
    assume A: "sq_policy_decision_token req = tok \<and> is_ok r"
    then obtain resp where "r = Ok resp" by (auto simp: is_ok_iff)
    thus False using sign_tx_Ok_used[of ?sv req s resp s'] r np tok A Cons.prems by auto
  qed
  with IH show ?case by (simp add: q r token_wins_def)
qed (simp add: token_wins_def)

lemma serve_all_once:
  assumes np: "\<not> sv_skip_policy sv"
  shows "token_wins tok qs (serve_all sv qs s) \<le> 1"
proof (induction qs arbitrary: s)
  case (Cons q qs)
  obtain req wallet where q: "q = (req, wallet)" by force
  let ?sv = "sv\<lparr>sv_wallet := wallet\<rparr>"
  obtain r s' where r: "sign_tx ?sv req s = (r, s')" by fastforce
  show ?case
  proof (cases "sq_policy_decision_token req = tok \<and> is_ok r")
    case True
    then obtain resp where "r = Ok resp" by (auto simp: is_ok_iff)
    then obtain v c where "sv_verifier sv = Some v" "open_token (sv_crates sv) (sv_claims_serde sv)
          (tv_policy_pubkey v) tok = Ok c" "srv_used s' (pc_token_id c) \<noteq> None"
      using sign_tx_Ok_used[of ?sv req s resp s'] r np True by auto
    hence "token_wins tok qs (serve_all sv qs s') = 0" using serve_all_spent[OF np] by blast
    thus ?thesis using True by (simp add: q r token_wins_def)
  next
    case False
    hence "token_wins tok (q # qs) (serve_all sv (q # qs) s) = token_wins tok qs (serve_all sv qs s')"
      by (auto simp: q r token_wins_def)
    thus ?thesis using Cons.IH[of s'] by simp
  qed
qed (simp add: token_wins_def)

section \<open>The service as a client of a verified engine\<close>

context verified_engine
begin

text \<open>Whatever the service answers over a verified engine, the chain's verifier accepts.\<close>

lemma response_accepted:
  assumes "eng_sign (sv_engine sv) = sign" and "inv (srv_engine s)"
    and "sign_tx sv req s = (Ok resp, s')"
  shows "\<exists>chain. chain_from_proto (sq_chain req) = Some chain \<and>
    accepts chain (sq_tx_payload req) (sr_signature resp) (sr_public_key resp)"
proof -
  obtain chain where v: "validate req = Ok chain"
    using assms(3) by (cases "validate req") (auto simp: sign_tx_def)
  from assms(3) v show ?thesis
  proof (cases rule: sign_tx_cases)
    case (engine s2)
    let ?ses = "fst (open_session sv req chain s)"
    have e: "srv_engine s2 = srv_engine s" using policy_step_simps(2)[OF engine(1)] by simp
    have "and_then (map_err engine_status (fst (sign (engine_request req chain) (srv_engine s))))
        (\<lambda>sig. Ok \<lparr>sr_signing_session_id = ss_id ?ses, sr_signature = es_signature sig,
                 sr_public_key = es_public_key sig, sr_address = []\<rparr>) = Ok resp"
      using dispatch_fst[of ?ses req chain sv s2] engine(3) e assms(1) by simp
    then obtain sig where sig: "fst (sign (engine_request req chain) (srv_engine s)) = Ok sig"
      and resp: "sr_signature resp = es_signature sig" "sr_public_key resp = es_public_key sig"
      by (auto simp: result_simps)
    have "accepts chain (sq_tx_payload req) (es_signature sig) (es_public_key sig)"
      using sign_accepted[OF assms(2), of "engine_request req chain" sig] sig
      by (metis engine_request_def EngineSignRequest.select_convs(2,3) prod.collapse)
    thus ?thesis using v resp by (simp add: validate_Ok_iff)
  qed auto
qed

end


section \<open>Lemmas: the audit trail\<close>

definition audit_lawful :: "'e MpcService \<Rightarrow> bool" where
  "audit_lawful sv \<longleftrightarrow> hex_laws (sv_crates sv) \<and> ed25519_laws (sv_crates sv) \<and>
     length (as_key (sv_audit_signer sv)) = 32"

text \<open>A record that belongs to a session, with a given outcome.\<close>

definition records ::
  "'e MpcService \<Rightarrow> SigningSession \<Rightarrow> AuditResult \<Rightarrow> string option \<Rightarrow> string option \<Rightarrow>
   SigningAuditRecord \<Rightarrow> bool" where
  "records sv ses res reason sig_hex rec \<longleftrightarrow>
     audit_verify (sv_crates sv) (sv_audit_serde sv) rec \<and>
     ar_signing_session_id rec = ss_id ses \<and> ar_key_id rec = ss_key_id ses \<and>
     ar_chain rec = ss_chain ses \<and> ar_request_hash rec = ss_request_hash ses \<and>
     ar_result rec = res \<and> ar_denial_reason rec = reason \<and> ar_signature rec = sig_hex"

lemma emit_record_records:
  assumes "audit_lawful sv"
  shows "\<exists>rec. srv_queue (emit_record sv ses res reason sg s) = emit rec (srv_queue s) \<and>
    records sv ses res reason sg rec"
proof -
  obtain rec w where rec: "audit_record (sv_crates sv) (sv_audit_serde sv) (sv_audit_signer sv)
      (ss_id ses) (ss_key_id ses) (ss_chain ses) (ss_request_hash ses) res reason sg (srv_world s) = (rec, w)"
    by fastforce
  have "records sv ses res reason sg rec"
    using audit_record_fields[OF rec] audit_record_verifies[OF _ _ _ rec] assms
    by (simp add: records_def audit_lawful_def)
  thus ?thesis by (auto simp: emit_record_def rec)
qed

text \<open>
  What a handled request leaves behind: one record for the queue and its session in the store, both
  with the outcome that was answered. \<open>passed\<close> says whether both checks let the request through to
  the engine. A handler that panics queues no record and leaves the session as it was.
\<close>

definition enqueued :: "SigningAuditRecord \<Rightarrow> SigningAuditRecord list \<Rightarrow> SigningAuditRecord list" where
  "enqueued rec q = (if length q < 1024 then q @ [rec] else q)"

lemma emit_enqueued: "emit rec q = enqueued rec q"
  by (simp add: emit_def enqueued_def audit_capacity_def)

definition audit_trail ::
  "'e MpcService \<Rightarrow> bool \<Rightarrow> SigningSession \<Rightarrow> SigningAuditRecord list \<Rightarrow> (SignTxResponse, Status) result \<Rightarrow>
   'e service_state \<Rightarrow> bool" where
  "audit_trail sv passed ses q r s' \<longleftrightarrow>
     (\<exists>st reason.
        session_get (srv_sessions s') (ss_id ses) = Some (ses\<lparr>ss_status := st, ss_denial_reason := reason\<rparr>) \<and>
        (case r of
           Ok resp \<Rightarrow> passed \<and> st = Signed \<and> reason = None \<and> ss_id ses = sr_signing_session_id resp \<and>
             (\<exists>rec. srv_queue s' = enqueued rec q \<and>
                records sv ses Audit_Signed None (Some (hex_encode (sv_crates sv) (sr_signature resp))) rec)
         | Err status \<Rightarrow> st = (if passed then Failed else Denied) \<and> reason = Some (st_message status) \<and>
             (\<exists>rec. srv_queue s' = enqueued rec q \<and>
                records sv ses (if passed then Audit_Failed else Audit_Denied) (Some (st_message status)) None rec)
         | Panic \<Rightarrow> st = (if passed then Signing else Pending) \<and> reason = None \<and> srv_queue s' = q))"

lemma denied_trail:
  assumes "audit_lawful sv" and "srv_queue s2 = q" and "srv_sessions s2 = session_insert m ses"
  shows "audit_trail sv False ses q (Err (status_new code reason)) (snd (deny sv ses reason code s2))"
proof -
  obtain rec where "srv_queue (snd (deny sv ses reason code s2)) = enqueued rec q"
      "records sv ses Audit_Denied (Some reason) None rec"
    using emit_record_records[OF assms(1), of ses Audit_Denied "Some reason" None
      "set_status (ss_id ses) Denied (Some reason) s2"] assms(2) by (auto simp: deny_def emit_enqueued)
  moreover have "session_get (srv_sessions (snd (deny sv ses reason code s2))) (ss_id ses) =
      Some (ses\<lparr>ss_status := Denied, ss_denial_reason := Some reason\<rparr>)"
    using assms(3) by (simp add: deny_def inmem_sessions.ins_upd)
  ultimately show ?thesis unfolding audit_trail_def by fastforce
qed

lemma dispatched_trail:
  assumes A: "audit_lawful sv" and q: "srv_queue s2 = q"
    and ses: "srv_sessions s2 = session_insert m ses"
    and d: "dispatch sv req ses s2 = (r, s')"
  shows "audit_trail sv True ses q r s'"
proof -
  let ?s1 = "set_status (ss_id ses) Signing None s2"
  obtain re e where re: "eng_sign (sv_engine sv)
      \<lparr>er_key_id = ss_key_id ses, er_chain = ss_chain ses, er_payload = sq_tx_payload req\<rparr>
      (srv_engine ?s1) = (re, e)" by fastforce
  let ?s2 = "?s1\<lparr>srv_engine := e\<rparr>"
  show ?thesis
  proof (cases re)
    case (Ok sig)
    thus ?thesis unfolding audit_trail_def using d re q ses
      emit_record_records[OF A, of ses Audit_Signed None
        "Some (hex_encode (sv_crates sv) (es_signature sig))" "set_status (ss_id ses) Signed None ?s2"]
      by (auto simp: dispatch_def Let_def inmem_sessions.ins_upd_upd emit_enqueued)
  next
    case (Err err)
    thus ?thesis unfolding audit_trail_def using d re q ses
      emit_record_records[OF A, of ses Audit_Failed "Some (engine_error_to_string err)" None
        "set_status (ss_id ses) Failed (Some (engine_error_to_string err)) ?s2"]
      by (auto simp: dispatch_def Let_def inmem_sessions.ins_upd_upd engine_status_def emit_enqueued)
  next
    case Panic
    thus ?thesis unfolding audit_trail_def using d re q ses
      by (auto simp: dispatch_def Let_def inmem_sessions.ins_upd)
  qed
qed

text \<open>Both checks of \<open>SignTx\<close> let the request through.\<close>

definition checks_passed :: "'e MpcService \<Rightarrow> SignTxRequest \<Rightarrow> Chain \<Rightarrow> 'e service_state \<Rightarrow> bool" where
  "checks_passed sv req chain s \<longleftrightarrow>
     is_ok (fst (policy_step sv req chain (snd (open_session sv req chain s)))) \<and> is_ok (wallet_step sv req)"

lemma sign_tx_trail:
  assumes "audit_lawful sv" and "validate req = Ok chain" and "sign_tx sv req s = (r, s')"
  shows "audit_trail sv (checks_passed sv req chain s) (fst (open_session sv req chain s)) (srv_queue s) r s'"
proof -
  let ?ses = "fst (open_session sv req chain s)" and ?s1 = "snd (open_session sv req chain s)"
  have state: "srv_queue s2 = srv_queue s" "srv_sessions s2 = session_insert (srv_sessions s) ?ses"
    if "policy_step sv req chain ?s1 = (p, s2)" for p s2
    using policy_step_simps(1,3)[OF that] by simp_all
  from assms(3,2) show ?thesis
  proof (cases rule: sign_tx_cases)
    case (policy reason code s2)
    thus ?thesis using denied_trail[OF assms(1) state[OF policy(1)]] by (simp add: checks_passed_def)
  next
    case (wallet reason code s2)
    thus ?thesis using denied_trail[OF assms(1) state[OF wallet(1)]] by (simp add: checks_passed_def)
  next
    case (wallet_panic s2)
    have "?ses\<lparr>ss_status := Pending, ss_denial_reason := None\<rparr> = ?ses"
      by (simp add: open_session_def Let_def new_session_id_def case_prod_unfold)
    with wallet_panic state[OF wallet_panic(1)] show ?thesis
      by (simp add: checks_passed_def audit_trail_def inmem_sessions.get_ins)
  next
    case (engine s2)
    hence "checks_passed sv req chain s" by (simp add: checks_passed_def)
    thus ?thesis using dispatched_trail[OF assms(1) state[OF engine(1)] engine(3)] by simp
  qed
qed

section \<open>A concrete service\<close>

definition demo_service :: "MockEngineState MpcService" where
  "demo_service = \<lparr>sv_crates = demo_crates, sv_claims_serde = demo_claims_serde demo_claims,
     sv_audit_serde = demo_audit_serde, sv_verifier = Some demo_verifier,
     sv_wallet = Some (\<lambda>w. Ok \<lparr>wk_key_ids = [''k1''], wk_current_key_id = ''k1''\<rparr>),
     sv_engine = MockEngine, sv_audit_signer = demo_signer, sv_skip_policy = False,
     sv_skip_wallet_check = False\<rparr>"

definition demo_request :: SignTxRequest where
  "demo_request = \<lparr>sq_key_id = ''k1'', sq_chain = 1, sq_tx_payload = [1, 2],
     sq_policy_decision_token = mint_token demo_crates (demo_claims_serde demo_claims) demo_seed demo_claims,
     sq_wallet_id = ''w''\<rparr>"

definition demo_state :: "MockEngineState service_state" where
  "demo_state = \<lparr>srv_sessions = Map.empty, srv_used = Map.empty, srv_queue = [],
     srv_engine = mock_engine_new, srv_world = demo_world 100\<rparr>"

lemma demo_checks: "checks_in_force demo_service"
  by (simp add: checks_in_force_def demo_service_def)

lemma demo_validate: "validate demo_request = Ok Evm"
  by (simp add: validate_Ok_iff demo_request_def chain_from_proto_def)

lemma demo_session_world:
  "srv_world (snd (open_session sv req chain demo_state)) = demo_world 100"
  by (simp add: open_session_def demo_state_def new_session_id_def new_v4_def demo_world_def
      unix_now_def read_clock_def Let_def)

lemma demo_approved: "policy_approved demo_service demo_request Evm demo_state demo_claims"
  by (simp add: policy_approved_def demo_session_world)
    (simp add: demo_service_def demo_request_def demo_state_def demo_verifier_def token_stale_def)

lemma demo_wallet: "wallet_approved demo_service demo_request"
  by (simp add: wallet_approved_def demo_service_def demo_request_def)

lemma demo_engine_answers:
  "fst (eng_sign (sv_engine demo_service) (engine_request demo_request Evm) (srv_engine demo_state)) =
     Ok \<lparr>es_signature = replicate 64 0xAA, es_public_key = replicate 33 0xBB\<rparr>"
  by (simp add: demo_service_def MockEngine_def mock_sign_def demo_state_def mock_engine_new_def)

lemma demo_signed: "\<exists>resp s'. sign_tx demo_service demo_request demo_state = (Ok resp, s')"
proof -
  have "\<exists>resp. fst (sign_tx demo_service demo_request demo_state) = Ok resp"
    unfolding sign_tx_Ok_iff[OF demo_checks]
    using demo_validate demo_approved demo_wallet demo_engine_answers by blast
  thus ?thesis by (metis prod.collapse)
qed

section \<open>Properties\<close>

text \<open>
  (C1) Refuse to sign without approval, and sign with it: with both checks in force, \<open>SignTx\<close>
  answers with a signature exactly when the request is valid, a policy token approves this
  payload, key and chain (signed by the Policy Engine, fresh, never used before), the wallet lists
  the key, and the engine signed exactly this payload with this key for this chain; the response is
  the engine's signature and public key.
\<close>
theorem sign_tx_signs_iff_approved:
  assumes "checks_in_force sv"
  shows "fst (sign_tx sv req s) = Ok resp \<longleftrightarrow>
    (\<exists>chain c sig. validate req = Ok chain \<and> policy_approved sv req chain s c \<and> wallet_approved sv req \<and>
       fst (eng_sign (sv_engine sv) (engine_request req chain) (srv_engine s)) = Ok sig \<and>
       resp = \<lparr>sr_signing_session_id = shd (uuids (srv_world s)), sr_signature = es_signature sig,
               sr_public_key = es_public_key sig, sr_address = []\<rparr>)"
  using assms by (rule sign_tx_Ok_iff)

theorem sign_tx_signs_iff_approved_witness:
  "fst (sign_tx demo_service demo_request demo_state) =
     Ok \<lparr>sr_signing_session_id = ''tok'', sr_signature = replicate 64 0xAA,
         sr_public_key = replicate 33 0xBB, sr_address = []\<rparr>"
proof -
  have "shd (uuids (srv_world demo_state)) = ''tok''" by (simp add: demo_state_def demo_world_def)
  thus ?thesis
    unfolding sign_tx_signs_iff_approved[OF demo_checks]
    using demo_validate demo_approved demo_wallet demo_engine_answers
    by (metis EngineSignature.select_convs(1,2))
qed

text \<open>
  (C4) Fail closed: with both checks in force, a request without policy approval or without wallet
  approval never reaches the engine, is never answered with a signature, and if it is answered,
  then with \<open>InvalidArgument\<close>, \<open>FailedPrecondition\<close> or \<open>Unavailable\<close>.
\<close>
theorem sign_tx_fails_closed:
  assumes "checks_in_force sv" and "sign_tx sv req s = (r, s')"
    and "\<nexists>chain c. validate req = Ok chain \<and> policy_approved sv req chain s c \<and> wallet_approved sv req"
  shows "srv_engine s' = srv_engine s \<and> \<not> is_ok r \<and>
    (\<forall>st. r = Err st \<longrightarrow> st_code st \<in> {Code_InvalidArgument, Code_FailedPrecondition, Code_Unavailable})"
proof (cases "validate req")
  case (Ok chain)
  note ap = approval_passes[OF assms(1) Ok, of s]
  from assms(2) Ok show ?thesis
  proof (cases rule: sign_tx_cases)
    case (policy reason code s2)
    hence "code = Code_FailedPrecondition"
      by (auto simp: policy_step_def result_simps split: if_splits option.splits prod.splits)
    thus ?thesis using policy policy_step_simps(2)[OF policy(1)] by simp
  next
    case (wallet reason code s2)
    hence "code \<in> {Code_FailedPrecondition, Code_Unavailable}"
      using wallet_denial_code
      by (auto simp: wallet_step_def result_simps split: if_splits option.splits) (metis snd_conv)
    thus ?thesis using wallet policy_step_simps(2)[OF wallet(1)] by auto
  next
    case (wallet_panic s2)
    thus ?thesis using policy_step_simps(2)[OF wallet_panic(1)] by simp
  next
    case (engine s2)
    hence False using ap assms(3) Ok by auto
    thus ?thesis ..
  qed
next
  case (Err st)
  hence "st_code st = Code_InvalidArgument"
    by (auto simp: validate_def invalid_argument_def split: option.splits if_splits)
  thus ?thesis using assms(2) Err by (auto simp: sign_tx_def)
qed simp

theorem sign_tx_fails_closed_witness:
  "let (r, s') = sign_tx (demo_service\<lparr>sv_wallet := None\<rparr>) demo_request demo_state
   in srv_engine s' = mock_engine_new \<and> \<not> is_ok r"
proof -
  let ?sv = "demo_service\<lparr>sv_wallet := None\<rparr>"
  obtain r s' where r: "sign_tx ?sv demo_request demo_state = (r, s')" by fastforce
  have "checks_in_force ?sv" by (simp add: checks_in_force_def demo_service_def)
  moreover have "\<nexists>chain c. validate demo_request = Ok chain \<and>
      policy_approved ?sv demo_request chain demo_state c \<and> wallet_approved ?sv demo_request"
    by (simp add: wallet_approved_def)
  ultimately show ?thesis using sign_tx_fails_closed[OF _ r] r by (simp add: demo_state_def)
qed

text \<open>
  (C5) Every validated request is accounted for. Its session is in the store with the key, chain and
  payload hash of the request. If the request is answered, one audit record is handed to the queue,
  which appends it unless it already holds 1024, and record, session status and answer agree: a
  signature is recorded as \<open>Signed\<close> with that signature, an error as \<open>Denied\<close> with the message the
  caller got when a check refused the request, and as \<open>Failed\<close> with that message when both checks
  passed and the engine failed. The record verifies and names session, key, chain and hash. If the
  handler panics, no record is queued and the session stays \<open>Signing\<close> (in the engine) or \<open>Pending\<close>
  (before it).
\<close>
theorem sign_tx_accountable:
  assumes "audit_lawful sv" and "validate req = Ok chain" and "sign_tx sv req s = (r, s')"
    and "passed \<longleftrightarrow> is_ok (fst (policy_step sv req chain (snd (open_session sv req chain s)))) \<and> is_ok (wallet_step sv req)"
  shows "\<exists>ses st reason.
    session_get (srv_sessions s') (ss_id ses) = Some (ses\<lparr>ss_status := st, ss_denial_reason := reason\<rparr>) \<and>
    ss_key_id ses = sq_key_id req \<and> ss_chain ses = chain \<and>
    ss_request_hash ses = sha256_hex (sv_crates sv) (sq_tx_payload req) \<and>
    (case r of
       Ok resp \<Rightarrow> passed \<and> st = Signed \<and> reason = None \<and> ss_id ses = sr_signing_session_id resp \<and>
         (\<exists>rec. srv_queue s' = (if length (srv_queue s) < 1024 then srv_queue s @ [rec] else srv_queue s) \<and>
            records sv ses Audit_Signed None (Some (hex_encode (sv_crates sv) (sr_signature resp))) rec)
     | Err status \<Rightarrow> st = (if passed then Failed else Denied) \<and> reason = Some (st_message status) \<and>
         (\<exists>rec. srv_queue s' = (if length (srv_queue s) < 1024 then srv_queue s @ [rec] else srv_queue s) \<and>
            records sv ses (if passed then Audit_Failed else Audit_Denied) (Some (st_message status)) None rec)
     | Panic \<Rightarrow> st = (if passed then Signing else Pending) \<and> reason = None \<and> srv_queue s' = srv_queue s)"
proof -
  have passed: "passed = checks_passed sv req chain s" using assms(4) by (simp add: checks_passed_def)
  show ?thesis
    using sign_tx_trail[OF assms(1-3)] unfolding audit_trail_def enqueued_def passed
    by (intro exI[of _ "fst (open_session sv req chain s)"]) (simp only: open_session_simps simp_thms)
qed

lemma demo_audit_lawful: "audit_lawful demo_service"
  by (simp add: audit_lawful_def demo_service_def demo_signer_def)

theorem sign_tx_accountable_witness:
  "\<exists>r s' rec ses. sign_tx demo_service demo_request demo_state = (r, s') \<and>
     srv_queue s' = [rec] \<and> ar_result rec = Audit_Signed \<and>
     session_get (srv_sessions s') (ar_signing_session_id rec) = Some ses \<and> ss_status ses = Signed"
proof -
  obtain resp s' where r: "sign_tx demo_service demo_request demo_state = (Ok resp, s')"
    using demo_signed by blast
  have "srv_queue demo_state = []" by (simp add: demo_state_def)
  with sign_tx_accountable[OF demo_audit_lawful demo_validate r refl]
  obtain rec ses where "srv_queue s' = [rec]"
      "records demo_service ses Audit_Signed None (Some (hex_encode demo_crates (sr_signature resp))) rec"
      "session_get (srv_sessions s') (ss_id ses) = Some (ses\<lparr>ss_status := Signed, ss_denial_reason := None\<rparr>)"
    by (auto simp: demo_service_def)
  thus ?thesis using r by (auto simp: records_def)
qed

text \<open>
  A request that fails validation leaves no trace: no session is opened and no audit record is
  produced, in particular not for a payload that is empty or a chain that is unknown.
\<close>
theorem invalid_requests_leave_no_trace:
  assumes "\<not> (sq_chain req \<in> {1, 2, 3, 4, 5} \<and> sq_key_id req \<noteq> [] \<and> sq_tx_payload req \<noteq> [])"
  shows "\<exists>msg. sign_tx sv req s = (Err (status_new Code_InvalidArgument msg), s)"
proof -
  have "\<nexists>chain. validate req = Ok chain"
    using assms chain_from_proto_SomeD by (auto simp: validate_Ok_iff)
  then obtain st where st: "validate req = Err st"
    using validate_not_Panic by (cases "validate req") auto
  moreover obtain msg where "st = status_new Code_InvalidArgument msg"
    using st by (auto simp: validate_def invalid_argument_def split: option.splits if_splits)
  ultimately show ?thesis by (auto simp: sign_tx_def)
qed

theorem invalid_requests_leave_no_trace_witness:
  "\<exists>msg. sign_tx demo_service (demo_request\<lparr>sq_chain := 0\<rparr>) demo_state =
     (Err (status_new Code_InvalidArgument msg), demo_state)"
  using invalid_requests_leave_no_trace[of "demo_request\<lparr>sq_chain := 0\<rparr>"] by simp

text \<open>
  One token, one signature: however many requests carry the same policy token, in whatever
  order and mixed with other requests, and whatever Wallet Management answers, at most one of
  them is answered with a signature.
\<close>
theorem token_signs_at_most_once:
  assumes "\<not> sv_skip_policy sv"
  shows "length (filter (\<lambda>((req, wallet), r). sq_policy_decision_token req = token \<and> is_ok r)
      (zip qs (serve_all sv qs s))) \<le> 1"
  using serve_all_once[OF assms, of token qs s] by (simp add: token_wins_def)

theorem token_signs_at_most_once_witness:
  "length (filter (\<lambda>((req, wallet), r). sq_policy_decision_token req = sq_policy_decision_token demo_request \<and> is_ok r)
     (zip (replicate 3 (demo_request, sv_wallet demo_service))
        (serve_all demo_service (replicate 3 (demo_request, sv_wallet demo_service)) demo_state))) \<le> 1"
  using token_signs_at_most_once[of demo_service] demo_checks by (simp add: checks_in_force_def)

text \<open>
  End to end over the threshold engine: in every reachable state of the engine, whatever
  signature \<open>SignTx\<close> answers with is valid for the submitted payload under the returned public
  key, by the verifier of the requested chain.
\<close>
theorem threshold_service_signatures_valid:
  assumes "threshold_lawful (E :: ('s :: field, 'p :: ab_group_add, 't :: field, 'q :: ab_group_add) threshold_env)"
    and "indices_distinct TYPE('s) n" and "indices_distinct TYPE('t) n"
    and "sv_engine sv = threshold_engine E" and "threshold_reach E t n (srv_engine s)"
    and "sign_tx sv req s = (Ok resp, s')"
  shows "\<exists>chain. chain_from_proto (sq_chain req) = Some chain \<and>
    chain_accepts E chain (sq_tx_payload req) (sr_signature resp) (sr_public_key resp)"
  using threshold.response_accepted[of sv E s req resp s'] threshold_reach_inv[OF assms(1-3,5)] assms
  by simp

definition demo_threshold_service :: "(gf5, gf5) ThresholdEngine MpcService" where
  "demo_threshold_service = \<lparr>sv_crates = demo_crates, sv_claims_serde = demo_claims_serde demo_claims,
     sv_audit_serde = demo_audit_serde, sv_verifier = None, sv_wallet = None,
     sv_engine = threshold_engine demo_env, sv_audit_signer = demo_signer, sv_skip_policy = True,
     sv_skip_wallet_check = True\<rparr>"

definition demo_threshold_request :: SignTxRequest where
  "demo_threshold_request = \<lparr>sq_key_id = ''mpc-u'', sq_chain = 5, sq_tx_payload = [1, 2],
     sq_policy_decision_token = [], sq_wallet_id = []\<rparr>"

theorem threshold_service_signatures_valid_witness:
  "\<exists>resp s'. sign_tx demo_threshold_service demo_threshold_request
       \<lparr>srv_sessions = Map.empty, srv_used = Map.empty, srv_queue = [], srv_engine = demo_engine,
        srv_world = demo_world 100\<rparr> = (Ok resp, s') \<and>
     chain_accepts demo_env Bitcoin [1, 2] (sr_signature resp) (sr_public_key resp)"
proof -
  let ?s = "\<lparr>srv_sessions = Map.empty, srv_used = Map.empty, srv_queue = [], srv_engine = demo_engine,
        srv_world = demo_world 100\<rparr>"
  have v: "validate demo_threshold_request = Ok Bitcoin"
    by (simp add: validate_Ok_iff demo_threshold_request_def chain_from_proto_def)
  have e: "sv_engine demo_threshold_service = threshold_engine demo_env"
    by (simp add: demo_threshold_service_def)
  obtain sig where sig: "fst (threshold_sign demo_env
      \<lparr>er_key_id = ''mpc-u'', er_chain = Bitcoin, er_payload = [1, 2]\<rparr> demo_engine) = Ok sig"
    using demo_sign_live by blast
  obtain r s' where r: "sign_tx demo_threshold_service demo_threshold_request ?s = (r, s')" by fastforce
  have "\<exists>resp. r = Ok resp" using r v
  proof (cases rule: sign_tx_cases)
    case (engine s2)
    have "srv_engine s2 = demo_engine" using policy_step_simps(2)[OF engine(1)] by simp
    moreover have "r = fst (dispatch demo_threshold_service demo_threshold_request
        (fst (open_session demo_threshold_service demo_threshold_request Bitcoin ?s)) s2)"
      using engine(3) by simp
    ultimately show ?thesis using sig
      by (simp add: dispatch_fst[where chain = Bitcoin] engine_request_def demo_threshold_request_def
          demo_threshold_service_def threshold_engine_def)
  qed (simp_all add: policy_step_def wallet_step_def demo_threshold_service_def)
  then obtain resp where resp: "sign_tx demo_threshold_service demo_threshold_request ?s = (Ok resp, s')"
    using r by blast
  from threshold_service_signatures_valid[OF demo_env_lawful demo_indices demo_indices e _ this]
  have "chain_accepts demo_env Bitcoin [1, 2] (sr_signature resp) (sr_public_key resp)"
    using demo_engine_reach by (simp add: demo_threshold_request_def chain_from_proto_def)
  with resp show ?thesis by blast
qed

text \<open>
  Control plane: \<open>Dkg\<close>, \<open>RotateKey\<close>, \<open>GetKeyMetadata\<close> and \<open>RestoreShare\<close> touch the engine only.
  They open no session, use no token and, whatever the engine does, queue no audit record; their
  success values are the engine's.
\<close>
theorem control_plane_unaudited:
  "srv_queue (snd (service_dkg sv dq s)) = srv_queue s \<and>
   srv_queue (snd (service_rotate_key sv k s)) = srv_queue s \<and>
   srv_queue (snd (service_restore_share sv tq s)) = srv_queue s \<and>
   srv_queue (snd (service_get_key_metadata sv k s)) = srv_queue s \<and>
   srv_sessions (snd (service_restore_share sv tq s)) = srv_sessions s \<and>
   (fst (service_rotate_key sv k s) = Ok rr \<longleftrightarrow> k \<noteq> [] \<and>
      (\<exists>out. fst (eng_rotate_key (sv_engine sv) k (srv_engine s)) = Ok out \<and>
             rr = \<lparr>rr_key_id = ro_key_id out, rr_public_key = ro_public_key out, rr_epoch = ro_epoch out\<rparr>))"
  by (auto simp: service_dkg_def service_rotate_key_def service_restore_share_def
      service_get_key_metadata_def call_engine_def result_simps split: option.splits prod.splits)

end
