(* ===== verification/Http.thy ===== *)
theory Http
  imports Engine Json
begin

text \<open>
  What the custody adapters share: HTTP requests and responses, the reqwest client as a
  parameter, time and the values the adapters read from outside, and the \<open>.await?\<close> sequencing of
  fallible calls over that state. Three judgements on such calls (what they send, what a success
  returns, that time does not run backwards) are closed under sequencing; the adapters' proofs
  are compositions of their rules, collected in \<open>io_intros\<close>.
\<close>

named_theorems io_intros \<open>compositional rules for effectful calls\<close>

section \<open>Requests and responses\<close>

record http_request =
  hr_method :: string
  hr_url :: string
  hr_headers :: "(string \<times> string) list"
  hr_body :: bytes

text \<open>
  A response has its status code and either its body or the text of the error met while reading
  the body.
\<close>

record http_response =
  rs_status :: nat
  rs_body :: "(bytes, string) result"

record reqwest_error =
  rq_is_timeout :: bool
  rq_is_connect :: bool
  rq_text :: string

text \<open>
  The client and the provider behind it, over a state \<open>'h\<close> of the outside world, and the
  rendering of a status code.
\<close>

record 'h http_env =
  he_send :: "http_request \<Rightarrow> 'h \<Rightarrow> (http_response, reqwest_error) result \<times> 'h"
  he_status_display :: "nat \<Rightarrow> string"
  he_build :: "(unit, string) result" \<comment> \<open>outcome of building the client\<close>

section \<open>State of an adapter's environment\<close>

text \<open>
  \<open>net_log\<close> records the requests sent so far, each with what came back. \<open>net_now\<close> is the monotonic clock (\<open>Instant\<close>) in
  milliseconds; sending a request takes an arbitrary time and sleeping takes at least the time
  asked for, the excess of both being the stream \<open>net_lags\<close>. \<open>net_world\<close> has the wall clock in
  seconds and the UUIDs, \<open>net_millis\<close> the wall clock in milliseconds.
\<close>

record 'h net =
  net_remote :: 'h
  net_log :: "(http_request \<times> (http_response, reqwest_error) result) list"
  net_now :: nat
  net_lags :: "nat stream"
  net_world :: world
  net_millis :: "nat option stream"

definition elapse :: "nat \<Rightarrow> 'h net \<Rightarrow> 'h net" where
  "elapse d s = s\<lparr>net_now := net_now s + d + shd (net_lags s), net_lags := stl (net_lags s)\<rparr>"

section \<open>Fallible calls in sequence\<close>

type_synonym ('a, 'h) io = "'h net \<Rightarrow> ('a, EngineError) result \<times> 'h net"

definition io_of :: "('a, EngineError) result \<Rightarrow> ('a, 'h) io" where
  "io_of r s = (r, s)"

definition io_bind :: "('a, 'h) io \<Rightarrow> ('a \<Rightarrow> ('b, 'h) io) \<Rightarrow> ('b, 'h) io" where
  "io_bind m f s =
     (case m s of (Ok x, s') \<Rightarrow> f x s' | (Err e, s') \<Rightarrow> (Err e, s') | (Panic, s') \<Rightarrow> (Panic, s'))"

fun classify_reqwest :: "reqwest_error \<Rightarrow> EngineError" where
  "classify_reqwest err =
     (if rq_is_timeout err \<or> rq_is_connect err then ProviderUnavailable (rq_text err)
      else Transient (rq_text err))"

text \<open>\<open>send().await.map_err(classify_reqwest)\<close>\<close>

definition http_send :: "'h http_env \<Rightarrow> http_request \<Rightarrow> (http_response, 'h) io" where
  "http_send E q s =
     (let (r, h) = he_send E q (net_remote s)
      in (map_err classify_reqwest r, elapse 0 (s\<lparr>net_remote := h, net_log := net_log s @ [(q, r)]\<rparr>)))"

definition sleep_ms :: "nat \<Rightarrow> (unit, 'h) io" where
  "sleep_ms d s = (Ok (), elapse d s)"

definition instant_now :: "(nat, 'h) io" where
  "instant_now s = (Ok (net_now s), s)"

definition io_uuid :: "(string, 'h) io" where
  "io_uuid s = (let (u, w) = new_v4 (net_world s) in (Ok u, s\<lparr>net_world := w\<rparr>))"

text \<open>
  \<open>chrono::Utc::now().timestamp()\<close>: it panics when the system time lies before the Unix epoch.
\<close>

definition utc_timestamp :: "(64 word, 'h) io" where
  "utc_timestamp s =
     (let (t, w) = read_clock (net_world s)
      in (case t of Some v \<Rightarrow> Ok v | None \<Rightarrow> Panic, s\<lparr>net_world := w\<rparr>))"

definition system_millis :: "(nat option, 'h) io" where
  "system_millis s = (Ok (shd (net_millis s)), s\<lparr>net_millis := stl (net_millis s)\<rparr>)"

text \<open>
  \<open>resp.json::<R>().await\<close>; a model string is a list of bytes, so \<open>String::from_utf8\<close> of the
  output of \<open>serde_json\<close>, which is valid UTF-8, is a change of representation.
\<close>

definition text_of :: "bytes \<Rightarrow> string" where
  "text_of b = map (\<lambda>x. char_of (unat x)) b"


definition response_json :: "'a serde \<Rightarrow> http_response \<Rightarrow> ('a, string) result" where
  "response_json R resp =
     and_then (rs_body resp) (\<lambda>b. ok_or (from_slice R b) (de_error R b))"

section \<open>Judgements\<close>

definition sends :: "(http_request \<Rightarrow> bool) \<Rightarrow> ('a, 'h) io \<Rightarrow> bool" where
  "sends P m \<longleftrightarrow>
     (\<forall>s. \<exists>new. net_log (snd (m s)) = net_log s @ new \<and> (\<forall>q \<in> set new. P (fst q)))"

definition returns :: "('a, 'h) io \<Rightarrow> ('a \<Rightarrow> bool) \<Rightarrow> bool" where
  "returns m Q \<longleftrightarrow> (\<forall>s x s'. m s = (Ok x, s') \<longrightarrow> Q x)"

definition time_passes :: "('a, 'h) io \<Rightarrow> bool" where
  "time_passes m \<longleftrightarrow> (\<forall>s. net_now s \<le> net_now (snd (m s)))"

definition sent_count :: "'h net \<Rightarrow> nat" where
  "sent_count s = length (net_log s)"

definition emits :: "((http_request \<times> (http_response, reqwest_error) result) list \<Rightarrow> bool) \<Rightarrow> ('a, 'h) io \<Rightarrow> bool" where
  "emits L m \<longleftrightarrow> (\<forall>s. \<exists>new. net_log (snd (m s)) = net_log s @ new \<and> L new)"

definition sends_at_most :: "nat \<Rightarrow> ('a, 'h) io \<Rightarrow> bool" where
  "sends_at_most n m \<longleftrightarrow> (\<forall>s. sent_count (snd (m s)) \<le> sent_count s + n)"

lemma sendsD:
  "sends P m \<Longrightarrow> m s = (r, s') \<Longrightarrow> \<exists>new. net_log s' = net_log s @ new \<and> (\<forall>q \<in> set new. P (fst q))"
  by (metis sends_def snd_conv)

lemma returnsD: "returns m Q \<Longrightarrow> m s = (Ok x, s') \<Longrightarrow> Q x"
  unfolding returns_def by blast

lemma time_passesD: "time_passes m \<Longrightarrow> m s = (r, s') \<Longrightarrow> net_now s \<le> net_now s'"
  by (metis time_passes_def snd_conv)

lemma sends_bind [io_intros]:
  assumes m: "sends P m" and f: "\<And>x. sends P (f x)"
  shows "sends P (io_bind m f)"
  unfolding sends_def
proof
  fix s
  obtain r s' where r: "m s = (r, s')" by (cases "m s")
  obtain new where new: "net_log s' = net_log s @ new" "\<forall>q \<in> set new. P (fst q)"
    using sendsD[OF m r] by blast
  show "\<exists>new. net_log (snd (io_bind m f s)) = net_log s @ new \<and> (\<forall>q \<in> set new. P (fst q))"
  proof (cases r)
    case (Ok x)
    obtain r2 s2 where r2: "f x s' = (r2, s2)" by (cases "f x s'")
    obtain new2 where "net_log s2 = net_log s' @ new2" "\<forall>q \<in> set new2. P (fst q)"
      using sendsD[OF f r2] by blast
    thus ?thesis using new by (auto simp: io_bind_def r Ok r2)
  qed (use new in \<open>auto simp: io_bind_def r\<close>)
qed

lemma time_passes_bind [io_intros]:
  assumes m: "time_passes m" and f: "\<And>x. time_passes (f x)"
  shows "time_passes (io_bind m f)"
  unfolding time_passes_def
proof
  fix s
  obtain r s' where r: "m s = (r, s')" by (cases "m s")
  have "net_now s \<le> net_now s'" by (rule time_passesD[OF m r])
  moreover have "net_now s' \<le> net_now (snd (f x s'))" for x
    using f[of x] by (simp add: time_passes_def)
  ultimately show "net_now s \<le> net_now (snd (io_bind m f s))"
    by (cases r) (auto simp: io_bind_def r intro: order_trans)
qed

lemma io_bind_OkE:
  assumes "io_bind m f s = (Ok y, s'')"
  obtains x s' where "m s = (Ok x, s')" "f x s' = (Ok y, s'')"
  using assms by (auto simp: io_bind_def split: prod.splits result.splits)

lemma returns_bind:
  assumes m: "returns m P" and f: "\<And>x. P x \<Longrightarrow> returns (f x) Q"
  shows "returns (io_bind m f) Q"
  unfolding returns_def
proof (intro allI impI)
  fix s y s''
  assume "io_bind m f s = (Ok y, s'')"
  then obtain x s' where x: "m s = (Ok x, s')" and y: "f x s' = (Ok y, s'')" by (rule io_bind_OkE)
  show "Q y" by (rule returnsD[OF f[OF returnsD[OF m x]] y])
qed

lemma returns_bind_last: "(\<And>x. returns (f x) Q) \<Longrightarrow> returns (io_bind m f) Q"
  by (rule returns_bind[where P = "\<lambda>_. True"]) (auto simp: returns_def)

lemma sends_bind_returns:
  assumes m: "sends P m" "returns m R" and f: "\<And>x. R x \<Longrightarrow> sends P (f x)"
  shows "sends P (io_bind m f)"
proof -
  define f' where "f' = (\<lambda>x. if R x then f x else io_of Panic)"
  have "sends P (f' x)" for x
    using f[of x] by (cases "R x") (simp_all add: f'_def sends_def io_of_def)
  hence "sends P (io_bind m f')" by (rule sends_bind[OF m(1)])
  moreover have "io_bind m f s = io_bind m f' s" for s
    using returnsD[OF m(2), of s] by (auto simp: io_bind_def f'_def split: prod.splits result.splits)
  ultimately show ?thesis by (simp add: sends_def)
qed

lemma sends_basic [io_intros]:
  "sends P (io_of r)" "sends P (sleep_ms d)" "sends P instant_now" "sends P io_uuid"
  "sends P utc_timestamp" "sends P system_millis"
  by (auto simp: sends_def io_of_def sleep_ms_def elapse_def instant_now_def io_uuid_def new_v4_def
        utc_timestamp_def read_clock_def system_millis_def)

lemma time_passes_basic [io_intros]:
  "time_passes (io_of r)" "time_passes (sleep_ms d)" "time_passes instant_now" "time_passes io_uuid"
  "time_passes utc_timestamp" "time_passes system_millis" "time_passes (http_send E q)"
  by (auto simp: time_passes_def io_of_def sleep_ms_def elapse_def instant_now_def io_uuid_def
        new_v4_def utc_timestamp_def read_clock_def system_millis_def http_send_def Let_def
        case_prod_unfold)

lemma sends_send: "P q \<Longrightarrow> sends P (http_send E q)"
  by (auto simp: sends_def http_send_def elapse_def Let_def case_prod_unfold)

lemma as_bytes_text_of [simp]: "as_bytes (text_of b) = b"
proof (induction b)
  case (Cons x b)
  have "(of_char (char_of (unat x)) :: u8) = of_nat (of_char (char_of (unat x)))"
    by (simp only: of_nat_of_char)
  also have "\<dots> = x" using unat_u8_less[of x] by simp
  finally show ?case using Cons by (simp add: as_bytes_def text_of_def)
qed (simp add: as_bytes_def text_of_def)

lemma sends_at_most_bind:
  assumes m: "sends_at_most i m" and f: "\<And>x. sends_at_most j (f x)" and "i + j \<le> k"
  shows "sends_at_most k (io_bind m f)"
  unfolding sends_at_most_def
proof
  fix s
  obtain r s' where r: "m s = (r, s')" by (cases "m s")
  have "sent_count s' \<le> sent_count s + i" using m r by (metis sends_at_most_def snd_conv)
  moreover have "sent_count (snd (f x s')) \<le> sent_count s' + j" for x
    using f[of x] by (simp add: sends_at_most_def)
  ultimately show "sent_count (snd (io_bind m f s)) \<le> sent_count s + k"
    using assms(3) by (cases r) (fastforce simp: io_bind_def r intro: order_trans)+
qed

lemma sends_at_most_basic:
  "sends_at_most 0 (io_of r)" "sends_at_most 0 (sleep_ms d)" "sends_at_most 0 instant_now"
  "sends_at_most 0 io_uuid" "sends_at_most 0 utc_timestamp" "sends_at_most 0 system_millis"
  "sends_at_most 1 (http_send E q)"
  by (auto simp: sends_at_most_def sent_count_def io_of_def sleep_ms_def elapse_def instant_now_def
        io_uuid_def new_v4_def utc_timestamp_def read_clock_def system_millis_def http_send_def
        Let_def case_prod_unfold)

text \<open>A property of the whole sequence of exchanges a call makes, closed under concatenation.\<close>

lemma emits_bind:
  assumes m: "emits L m" and f: "\<And>x. emits L (f x)" and L: "\<And>a b. L a \<Longrightarrow> L b \<Longrightarrow> L (a @ b)"
  shows "emits L (io_bind m f)"
  unfolding emits_def
proof
  fix s
  obtain r s' where r: "m s = (r, s')" by (cases "m s")
  obtain new where new: "net_log s' = net_log s @ new" "L new"
    using m r unfolding emits_def by (metis snd_conv)
  show "\<exists>new. net_log (snd (io_bind m f s)) = net_log s @ new \<and> L new"
  proof (cases r)
    case (Ok x)
    obtain new2 where "net_log (snd (f x s')) = net_log s' @ new2" "L new2"
      using f[of x] unfolding emits_def by blast
    thus ?thesis using new L by (auto simp: io_bind_def r Ok)
  qed (use new in \<open>auto simp: io_bind_def r\<close>)
qed

lemma emits_sends:
  assumes "sends P m" and "\<And>qs. (\<forall>q \<in> set qs. P (fst q)) \<Longrightarrow> L qs"
  shows "emits L m"
  using assms unfolding emits_def sends_def by meson

text \<open>A request whose response is decoded: what it adds to the log, and where a result comes from.\<close>

lemma send_decode_log:
  assumes "io_bind (http_send E q) (\<lambda>resp. io_of (dec resp)) s = (r, s')"
  obtains a where "net_log s' = net_log s @ [(q, a)]"
    and "\<And>x. r = Ok x \<Longrightarrow> \<exists>resp. a = Ok resp \<and> dec resp = Ok x"
proof -
  obtain a h where a: "he_send E q (net_remote s) = (a, h)" by (rule prod.exhaust)
  have "net_log s' = net_log s @ [(q, a)]" "\<And>x. r = Ok x \<Longrightarrow> \<exists>resp. a = Ok resp \<and> dec resp = Ok x"
    using assms a by (cases a; auto simp: io_bind_def http_send_def io_of_def elapse_def)+
  thus thesis by (rule that)
qed

lemma sends_mono: "sends P m \<Longrightarrow> (\<And>q. P q \<Longrightarrow> Q q) \<Longrightarrow> sends Q m"
  unfolding sends_def by meson

lemma returns_of: "(\<And>x. r = Ok x \<Longrightarrow> Q x) \<Longrightarrow> returns (io_of r) Q"
  by (auto simp: returns_def io_of_def)

lemma io_bind_simps:
  "m s = (Ok x, s') \<Longrightarrow> io_bind m f s = f x s'"
  "m s = (Err e, s') \<Longrightarrow> io_bind m f s = (Err e, s')"
  "m s = (Panic, s') \<Longrightarrow> io_bind m f s = (Panic, s')"
  by (simp_all add: io_bind_def)

lemma sleep_advances: "sleep_ms d s = (r, s') \<Longrightarrow> net_now s + d \<le> net_now s'"
  by (auto simp: sleep_ms_def elapse_def)

section \<open>A concrete environment\<close>

text \<open>
  A provider that answers every request with status 200 and an empty body, and codecs that decode
  every body to one given value, on which witnesses evaluate.
\<close>

definition demo_http :: "unit http_env" where
  "demo_http = \<lparr>he_send = (\<lambda>q h. (Ok \<lparr>rs_status = 200, rs_body = Ok []\<rparr>, h)),
     he_status_display = show_nat, he_build = Ok ()\<rparr>"

definition const_serde :: "'a \<Rightarrow> 'a serde" where
  "const_serde v = \<lparr>to_vec = (\<lambda>_. [1]), from_slice = (\<lambda>_. Some v), de_error = (\<lambda>_. [])\<rparr>"

definition demo_net :: "unit net" where
  "demo_net = \<lparr>net_remote = (), net_log = [], net_now = 0, net_lags = sconst 0,
     net_world = \<lparr>clock = sconst (Some 1000), uuids = sconst ''u''\<rparr>, net_millis = sconst (Some 1)\<rparr>"

section \<open>Polling against a deadline\<close>

text \<open>
  The polling loops of the adapters: query, decide, give up once the monotonic clock has reached
  the deadline, otherwise sleep and repeat. The contract of one loop and what follows for its
  number of rounds.
\<close>

locale polling =
  fixes query :: "('r, 'h) io"
    and decide :: "'r \<Rightarrow> ('a, EngineError) result option"
    and give_up :: "'r \<Rightarrow> EngineError"
    and pause :: nat
    and loop :: "nat \<Rightarrow> ('a, 'h) io"
  assumes loop_unfold:
      "loop deadline s = io_bind query (\<lambda>r. case decide r of
         Some d \<Rightarrow> io_of d
       | None \<Rightarrow> io_bind instant_now (\<lambda>now.
           if deadline \<le> now then io_of (Err (give_up r))
           else io_bind (sleep_ms pause) (\<lambda>_. loop deadline))) s"
    and query_time: "time_passes query"
    and query_once: "sends_at_most 1 query"
    and pause_pos: "0 < pause"
begin

text \<open>A round either ends the loop or moves the clock forward by at least the pause.\<close>

lemma round_cases:
  obtains (ended) r where "loop deadline s = (r, snd (query s))"
      "\<And>x. r = Ok x \<Longrightarrow> \<exists>y. fst (query s) = Ok y \<and> decide y = Some (Ok x)"
  | (again) s' where "loop deadline s = loop deadline s'" "net_now s + pause \<le> net_now s'"
      "net_now s < deadline" "net_log s' = net_log (snd (query s))"
proof -
  obtain r s1 where q: "query s = (r, s1)" by (cases "query s")
  have time: "net_now s \<le> net_now s1" by (rule time_passesD[OF query_time q])
  show ?thesis
  proof (cases "\<exists>x. r = Ok x \<and> decide x = None \<and> net_now s1 < deadline")
    case True
    then obtain x where x: "r = Ok x" "decide x = None" "net_now s1 < deadline" by blast
    obtain s2 where s2: "sleep_ms pause s1 = (Ok (), s2)" by (simp add: sleep_ms_def)
    have "loop deadline s = loop deadline s2"
      using q x by (subst loop_unfold) (simp add: io_bind_def instant_now_def s2)
    moreover have "net_log s2 = net_log s1" using s2 by (auto simp: sleep_ms_def elapse_def)
    ultimately show ?thesis
      using sleep_advances[OF s2] time x(3) q by (intro again[of s2]) auto
  next
    case False
    define r' where "r' = and_then r (\<lambda>x. case decide x of Some d \<Rightarrow> d | None \<Rightarrow> Err (give_up x))"
    have "loop deadline s = (r', s1)"
      using q False
      by (subst loop_unfold; cases r)
         (auto simp: r'_def io_bind_def instant_now_def io_of_def split: option.splits)
    moreover have "\<exists>y. r = Ok y \<and> decide y = Some (Ok x)" if "r' = Ok x" for x
      using that by (auto simp: r'_def result_simps split: option.splits)
    ultimately show ?thesis using q by (intro ended[of r']) auto
  qed
qed

lemma loop_sends:
  assumes "sends P query"
  shows "sends P (loop deadline)"
  unfolding sends_def
proof
  fix s
  show "\<exists>new. net_log (snd (loop deadline s)) = net_log s @ new \<and> (\<forall>q \<in> set new. P (fst q))"
  proof (induction "deadline - net_now s" arbitrary: s rule: less_induct)
    case less
    obtain new where new: "net_log (snd (query s)) = net_log s @ new" "\<forall>q \<in> set new. P (fst q)"
      using assms unfolding sends_def by blast
    show ?case
    proof (cases deadline s rule: round_cases)
      case ended
      thus ?thesis using new by simp
    next
      case (again s')
      have "deadline - net_now s' < deadline - net_now s" using again(2,3) pause_pos by linarith
      then obtain new' where "net_log (snd (loop deadline s')) = net_log s' @ new'"
        and "\<forall>q \<in> set new'. P (fst q)"
        using less.hyps by blast
      thus ?thesis using again(1,4) new by auto
    qed
  qed
qed

lemma loop_returns:
  assumes "loop deadline s = (Ok x, s')"
  shows "\<exists>y s1 s2. query s1 = (Ok y, s2) \<and> decide y = Some (Ok x)"
  using assms
proof (induction "deadline - net_now s" arbitrary: s rule: less_induct)
  case less
  show ?case
  proof (cases deadline s rule: round_cases)
    case (ended r)
    thus ?thesis using less.prems by (metis fst_conv prod.collapse)
  next
    case (again t)
    have "deadline - net_now t < deadline - net_now s" using again(2,3) pause_pos by linarith
    thus ?thesis using less again(1) by metis
  qed
qed

lemma rounds_bounded:
  "sent_count (snd (loop deadline s)) \<le> sent_count s + Suc ((deadline - net_now s + pause - 1) div pause)"
proof (induction "deadline - net_now s" arbitrary: s rule: less_induct)
  case less
  have sent: "sent_count (snd (query s)) \<le> Suc (sent_count s)"
    using query_once by (simp add: sends_at_most_def)
  show ?case
  proof (cases deadline s rule: round_cases)
    case ended
    thus ?thesis using sent by simp
  next
    case (again s')
    have lt: "deadline - net_now s' < deadline - net_now s" using again(2,3) pause_pos by linarith
    have "(deadline - net_now s' + pause - 1) div pause \<le> (deadline - net_now s - 1) div pause"
    proof (cases "net_now s' < deadline")
      case True
      hence "deadline - net_now s' + pause - 1 \<le> deadline - net_now s - 1"
        using again(2) by linarith
      thus ?thesis by (rule div_le_mono)
    qed (use pause_pos in simp)
    moreover have "(deadline - net_now s + pause - 1) div pause = Suc ((deadline - net_now s - 1) div pause)"
    proof -
      have "deadline - net_now s + pause - 1 = deadline - net_now s - 1 + pause" using again(3) by simp
      hence "(deadline - net_now s + pause - 1) div pause = (deadline - net_now s - 1 + pause) div pause"
        by (rule arg_cong)
      also have "\<dots> = Suc ((deadline - net_now s - 1) div pause)" using pause_pos by simp
      finally show ?thesis .
    qed
    ultimately show ?thesis using less.hyps[OF lt] again(1,4) sent by (simp add: sent_count_def)
  qed
qed

end

end
