(* ===== verification/Custody.thy ===== *)
theory Custody
  imports Http Prime_Field
begin

text \<open>
  \<open>src/engine/custody.rs\<close>: the provider-neutral HTTP client with its wire shapes, the error
  classification of provider responses, the local verification of provider signatures every
  adapter performs before it returns one, and the HMAC check of inbound webhooks.
\<close>

section \<open>Profile, wire shapes, client\<close>

record ProviderProfile =
  pp_name :: string
  pp_auth_header :: string
  pp_auth_prefix :: string

record SignRequestBody =
  srq_key_id :: string
  srq_chain :: string
  srq_payload_hex :: string

record SignResponseBody =
  srs_signature_hex :: string
  srs_public_key_hex :: string
  srs_status :: "string option"

record CreateKeyBody =
  ckb_chain :: string
  ckb_threshold :: u32
  ckb_parties :: u32

record KeyResponseBody =
  krb_key_id :: string
  krb_public_key_hex :: string
  krb_epoch :: u64
  krb_status :: "string option"

record CustodyHttp =
  ch_profile :: ProviderProfile
  ch_base_url :: string
  ch_api_key :: string

text \<open>Serialisation of the wire shapes, with the HTTP environment.\<close>

record 'h custody_env =
  ce_http :: "'h http_env"
  ce_crates :: crates
  ce_sign_req :: "SignRequestBody serde"
  ce_sign_resp :: "SignResponseBody serde"
  ce_create :: "CreateKeyBody serde"
  ce_key_resp :: "KeyResponseBody serde"
  ce_json :: "json serde"

definition custody_new ::
  "'h http_env \<Rightarrow> ProviderProfile \<Rightarrow> string \<Rightarrow> string \<Rightarrow> (CustodyHttp, EngineError) result" where
  "custody_new H profile base_url api_key =
     (if is_ok (he_build H)
      then Ok \<lparr>ch_profile = profile, ch_base_url = trim_end_matches CHR ''/'' base_url,
               ch_api_key = api_key\<rparr>
      else Panic)"

definition custody_url :: "CustodyHttp \<Rightarrow> string \<Rightarrow> string" where
  "custody_url c path = ch_base_url c @ ''/v1/'' @ pp_name (ch_profile c) @ path"

definition auth_value :: "CustodyHttp \<Rightarrow> string" where
  "auth_value c = pp_auth_prefix (ch_profile c) @ ch_api_key c"

section \<open>Responses\<close>

definition custody_decode_response ::
  "'h http_env \<Rightarrow> 'r serde \<Rightarrow> http_response \<Rightarrow> ('r, EngineError) result" where
  "custody_decode_response E R resp =
     (let status = rs_status resp; shown = he_status_display E status
      in if status = 404 then Err (KeyNotFound ''provider reports unknown key'')
         else if status = 403 \<or> status = 401 then Err (EngineDenied (''provider rejected request: '' @ shown))
         else if 500 \<le> status \<and> status < 600 then Err (ProviderUnavailable (''provider error: '' @ shown))
         else if \<not> (200 \<le> status \<and> status < 300) then Err (Transient (''provider returned '' @ shown))
         else map_err (\<lambda>e. EngineInternal (''provider response decode: '' @ e)) (response_json R resp))"

definition custody_post_json ::
  "'h custody_env \<Rightarrow> CustodyHttp \<Rightarrow> 'b serde \<Rightarrow> 'r serde \<Rightarrow> string \<Rightarrow> 'b \<Rightarrow> ('r, 'h) io" where
  "custody_post_json E c B R path body =
     io_bind (http_send (ce_http E) \<lparr>hr_method = ''POST'', hr_url = custody_url c path,
        hr_headers = [(pp_auth_header (ch_profile c), auth_value c),
                      (''Content-Type'', ''application/json'')],
        hr_body = to_vec B body\<rparr>)
     (\<lambda>resp. io_of (custody_decode_response (ce_http E) R resp))"

definition custody_get_json ::
  "'h custody_env \<Rightarrow> CustodyHttp \<Rightarrow> 'r serde \<Rightarrow> string \<Rightarrow> ('r, 'h) io" where
  "custody_get_json E c R path =
     io_bind (http_send (ce_http E) \<lparr>hr_method = ''GET'', hr_url = custody_url c path,
        hr_headers = [(pp_auth_header (ch_profile c), auth_value c)], hr_body = []\<rparr>)
     (\<lambda>resp. io_of (custody_decode_response (ce_http E) R resp))"

section \<open>Local verification of provider signatures\<close>

definition verify_fail :: "string \<Rightarrow> EngineError" where
  "verify_fail what = EngineInternal (''provider signature verification failed: '' @ what)"

definition verify_signature ::
  "('s, 'p) k256 \<Rightarrow> crates \<Rightarrow> Chain \<Rightarrow> bytes \<Rightarrow> bytes \<Rightarrow> bytes \<Rightarrow> (unit, EngineError) result" where
  "verify_signature K X chain payload signature public_key =
     (case scheme chain of
        EcdsaSecp256k1 \<Rightarrow>
          if \<not> k_vk_from_sec1_ok K public_key then Err (verify_fail ''bad public key'')
          else if \<not> k_sig_from_slice_ok K signature then Err (verify_fail ''bad signature encoding'')
          else if k_ecdsa_verify K public_key payload signature then Ok ()
          else Err (verify_fail ''mismatch'')
      | Ed25519Scheme \<Rightarrow>
          if length public_key \<noteq> 32 then Err (verify_fail ''bad public key'')
          else if length signature \<noteq> 64 then Err (verify_fail ''bad signature encoding'')
          else if \<not> vk_valid X public_key then Err (verify_fail ''bad public key'')
          else if ed_verify_strict X public_key payload signature then Ok ()
          else Err (verify_fail ''mismatch''))"

section \<open>Operations\<close>

abbreviation decode_hex_or :: "crates \<Rightarrow> string \<Rightarrow> string \<Rightarrow> (bytes, EngineError) result" where
  "decode_hex_or X s err \<equiv> ok_or (hex_decode X s) (EngineInternal err)"

definition custody_sign ::
  "('s, 'p) k256 \<Rightarrow> 'h custody_env \<Rightarrow> CustodyHttp \<Rightarrow> EngineSignRequest \<Rightarrow> (EngineSignature, 'h) io" where
  "custody_sign K E c req =
     io_bind (custody_post_json E c (ce_sign_req E) (ce_sign_resp E) ''/sign''
        \<lparr>srq_key_id = er_key_id req, srq_chain = chain_as_str (er_chain req),
         srq_payload_hex = hex_encode (ce_crates E) (er_payload req)\<rparr>) (\<lambda>resp.
     io_bind (io_of (decode_hex_or (ce_crates E) (srs_signature_hex resp)
        ''provider returned non-hex signature'')) (\<lambda>signature.
     io_bind (io_of (decode_hex_or (ce_crates E) (srs_public_key_hex resp)
        ''provider returned non-hex public key'')) (\<lambda>public_key.
     io_bind (io_of (verify_signature K (ce_crates E) (er_chain req) (er_payload req) signature public_key))
     (\<lambda>_. io_of (Ok \<lparr>es_signature = signature, es_public_key = public_key\<rparr>)))))"

definition custody_dkg :: "'h custody_env \<Rightarrow> CustodyHttp \<Rightarrow> DkgParams \<Rightarrow> (DkgOutcome, 'h) io" where
  "custody_dkg E c p =
     io_bind (custody_post_json E c (ce_create E) (ce_key_resp E) ''/keys''
        \<lparr>ckb_chain = chain_as_str (dp_chain p), ckb_threshold = dp_threshold p,
         ckb_parties = dp_parties p\<rparr>) (\<lambda>resp.
     io_bind (io_of (decode_hex_or (ce_crates E) (krb_public_key_hex resp)
        ''provider returned non-hex public key'')) (\<lambda>pk.
     io_of (Ok \<lparr>do_key_id = krb_key_id resp, do_public_key = pk\<rparr>)))"

definition custody_rotate :: "'h custody_env \<Rightarrow> CustodyHttp \<Rightarrow> KeyId \<Rightarrow> (RotateOutcome, 'h) io" where
  "custody_rotate E c key_id =
     io_bind (custody_post_json E c (ce_json E) (ce_key_resp E) (''/keys/'' @ key_id @ ''/rotate'')
        (JObject [])) (\<lambda>resp.
     io_bind (io_of (decode_hex_or (ce_crates E) (krb_public_key_hex resp)
        ''provider returned non-hex public key'')) (\<lambda>pk.
     io_of (Ok \<lparr>ro_key_id = key_id, ro_public_key = pk, ro_epoch = krb_epoch resp\<rparr>)))"

definition custody_key_metadata ::
  "'h custody_env \<Rightarrow> CustodyHttp \<Rightarrow> KeyId \<Rightarrow> Chain \<Rightarrow> (KeyMetadata, 'h) io" where
  "custody_key_metadata E c key_id chain =
     io_bind (custody_get_json E c (ce_key_resp E) (''/keys/'' @ key_id)) (\<lambda>resp.
     io_bind (io_of (decode_hex_or (ce_crates E) (krb_public_key_hex resp)
        ''provider returned non-hex public key'')) (\<lambda>pk.
     io_of (Ok \<lparr>km_key_id = krb_key_id resp, km_chain = chain, km_public_key = pk,
        km_status = (if krb_status resp = Some ''cooling'' then Cooling
                     else if krb_status resp = Some ''retired'' then Retired else Active),
        km_epoch = krb_epoch resp\<rparr>)))"

definition custody_restore :: "'h custody_env \<Rightarrow> CustodyHttp \<Rightarrow> RestoreParams \<Rightarrow> (bool, 'h) io" where
  "custody_restore E c p =
     (if rp_quorum_proof p = [] then io_of (Err (EngineDenied ''quorum proof required for restore''))
      else io_bind (custody_post_json E c (ce_json E) (ce_json E)
             (''/keys/'' @ rp_key_id p @ ''/restore'')
             (JObject [(''node_id'', JString (rp_node_id p)),
                (''quorum_proof_hex'', JString (hex_encode (ce_crates E) (rp_quorum_proof p)))]))
           (\<lambda>_. io_of (Ok True)))"

section \<open>Webhooks\<close>

definition webhook_signature :: "crates \<Rightarrow> string \<Rightarrow> bytes \<Rightarrow> string" where
  "webhook_signature X secret body = hex_encode X (hmac_sha256 X (as_bytes secret) body)"

text \<open>\<open>verify_slice\<close> compares the whole tag, so a slice of another length is refused.\<close>

definition verify_webhook :: "crates \<Rightarrow> string \<Rightarrow> bytes \<Rightarrow> string \<Rightarrow> bool" where
  "verify_webhook X secret body signature_hex =
     (case hex_decode X signature_hex of
        None \<Rightarrow> False
      | Some sig \<Rightarrow> sig = hmac_sha256 X (as_bytes secret) body)"

section \<open>Lemmas\<close>

definition provider_accepts ::
  "('s, 'p) k256 \<Rightarrow> crates \<Rightarrow> Chain \<Rightarrow> bytes \<Rightarrow> bytes \<Rightarrow> bytes \<Rightarrow> bool" where
  "provider_accepts K X chain payload sig pk \<longleftrightarrow> verify_signature K X chain payload sig pk = Ok ()"

lemma verify_signature_Ok_iff:
  "verify_signature K X chain payload sig pk = Ok () \<longleftrightarrow>
     (case scheme chain of
        EcdsaSecp256k1 \<Rightarrow> secp_verify K pk payload sig
      | Ed25519Scheme \<Rightarrow> length pk = 32 \<and> length sig = 64 \<and> vk_valid X pk \<and>
          ed_verify_strict X pk payload sig)"
  by (auto simp: verify_signature_def secp_verify_def split: SignatureScheme.split)

text \<open>The last steps every adapter shares: verify, then return the pair that was verified.\<close>

lemma returns_verified [io_intros]:
  "returns (io_bind (io_of (verify_signature K X chain payload sig pk))
     (\<lambda>_. io_of (Ok \<lparr>es_signature = sig, es_public_key = pk\<rparr>)))
   (\<lambda>s. provider_accepts K X chain payload (es_signature s) (es_public_key s))"
  by (rule returns_bind[where P = "\<lambda>_. verify_signature K X chain payload sig pk = Ok ()"])
     (auto intro!: returns_of simp: provider_accepts_def)

lemma custody_sign_verified:
  "returns (custody_sign K E c req)
     (\<lambda>s. provider_accepts K (ce_crates E) (er_chain req) (er_payload req) (es_signature s) (es_public_key s))"
  unfolding custody_sign_def by (intro returns_bind_last returns_verified)

lemma custody_net_inv: "verified_engine (custody_sign K E c) (provider_accepts K (ce_crates E)) (\<lambda>_. True)"
  by unfold_locales (auto dest: returnsD[OF custody_sign_verified])

interpretation custody_eng: verified_engine "custody_sign K E c" "provider_accepts K (ce_crates E)" "\<lambda>_. True"
  for K E c
  by (rule custody_net_inv)

text \<open>
  The webhook endpoint's check accepts exactly the hex encodings of the HMAC-SHA256 tag of
  the raw body under the configured secret: the signature the provider computes is accepted, and
  any text that decodes to something else, or does not decode, is refused.
\<close>

theorem webhook_accepts_iff:
  assumes "hex_laws X"
  shows "verify_webhook X secret body (webhook_signature X secret body) \<and>
    (verify_webhook X secret body sig \<longleftrightarrow>
       hex_decode X sig = hex_decode X (webhook_signature X secret body))"
  using assms
  by (auto simp: verify_webhook_def webhook_signature_def crate_laws split: option.split)

theorem webhook_accepts_iff_witness:
  "verify_webhook demo_crates ''s3cret'' [1, 2] (webhook_signature demo_crates ''s3cret'' [1, 2]) \<and>
   \<not> verify_webhook demo_crates ''s3cret'' [1, 2] ''deadbeef''"
  using webhook_accepts_iff[OF demo_hex, of "''s3cret''" "[1, 2]"]
  by (simp add: verify_webhook_def demo_crates_def)

text \<open>
  A provider's signature is trusted only if it verifies: the local check passes exactly when
  the curve's verifier accepts the pair over the payload, in the encodings of the chain's scheme
  (SEC1 key and fixed-size ECDSA signature, or 32-byte key and 64-byte Ed25519 signature under
  strict verification), and otherwise it reports an internal error.
\<close>

theorem provider_signature_check:
  "(case verify_signature K X chain payload sig pk of
      Ok u \<Rightarrow> (case scheme chain of
          EcdsaSecp256k1 \<Rightarrow> secp_verify K pk payload sig
        | Ed25519Scheme \<Rightarrow> length pk = 32 \<and> length sig = 64 \<and> vk_valid X pk \<and> ed_verify_strict X pk payload sig)
    | Err e \<Rightarrow> grpc_code e = Code_Internal \<and> (case scheme chain of
          EcdsaSecp256k1 \<Rightarrow> \<not> secp_verify K pk payload sig
        | Ed25519Scheme \<Rightarrow> \<not> (length pk = 32 \<and> length sig = 64 \<and> vk_valid X pk \<and> ed_verify_strict X pk payload sig))
    | Panic \<Rightarrow> False)"
  by (auto simp: verify_signature_def secp_verify_def verify_fail_def split: SignatureScheme.split)

end
