(* ===== verification/Config.thy ===== *)
theory Config
  imports Prelude
begin

text \<open>
  \<open>src/config.rs\<close>: configuration from environment variables, with the standard library's parsing
  of booleans and unsigned integers, and the selection of the signing backend. The environment
  and the file system are parameters.
\<close>

section \<open>Parsing of values\<close>

definition to_ascii_lowercase :: "string \<Rightarrow> string" where
  "to_ascii_lowercase s =
     map (\<lambda>c. let n = (of_char c :: nat) in if 65 \<le> n \<and> n \<le> 90 then char_of (n + 32) else c) s"

text \<open>\<open>bool::from_str\<close> accepts exactly two texts.\<close>

definition parse_bool :: "string \<Rightarrow> bool option" where
  "parse_bool s = (if s = ''true'' then Some True else if s = ''false'' then Some False else None)"

text \<open>
  \<open>from_str\<close> of an unsigned integer type with \<open>bound\<close> values: an optional plus sign, then one or
  more decimal digits whose value fits.
\<close>

definition digit_value :: "char \<Rightarrow> nat option" where
  "digit_value c =
     (let n = (of_char c :: nat) in if 48 \<le> n \<and> n \<le> 57 then Some (n - 48) else None)"

fun parse_digits :: "nat \<Rightarrow> nat \<Rightarrow> string \<Rightarrow> nat option" where
  "parse_digits bound acc [] = Some acc"
| "parse_digits bound acc (c # cs) =
     (case digit_value c of
        None \<Rightarrow> None
      | Some d \<Rightarrow> if bound \<le> 10 * acc + d then None else parse_digits bound (10 * acc + d) cs)"

definition parse_uint :: "nat \<Rightarrow> string \<Rightarrow> nat option" where
  "parse_uint bound s =
     (let digits = (case s of c # cs \<Rightarrow> if c = CHR ''+'' then cs else s | [] \<Rightarrow> [])
      in if digits = [] then None else parse_digits bound 0 digits)"

section \<open>Providers and settings\<close>

datatype CustodyProvider = InHouse | Fireblocks | Dfns | Turnkey

definition provider_parse :: "string \<Rightarrow> CustodyProvider option" where
  "provider_parse s =
     (let l = to_ascii_lowercase s
      in if l = ''in_house'' \<or> l = ''in-house'' \<or> l = ''inhouse'' then Some InHouse
         else if l = ''fireblocks'' then Some Fireblocks
         else if l = ''dfns'' then Some Dfns
         else if l = ''turnkey'' then Some Turnkey
         else None)"

record Config =
  http_port :: u16
  grpc_port :: u16
  policy_engine_pubkey :: "string option"
  token_max_skew :: u64
  wallet_management_url :: "string option"
  custody_provider :: CustodyProvider
  custody_api_url :: "string option"
  custody_api_key :: "string option"
  custody_api_secret_key :: "string option"
  custody_sandbox :: bool
  custody_webhook_secret :: "string option"
  custody_organization_id :: "string option"
  custody_api_private_key :: "string option"
  custody_sub_organization_id :: "string option"
  custody_service_account_key :: "string option"
  custody_service_account_secret :: "string option"
  audit_event_log_url :: "string option"
  kafka_brokers :: "string option"
  dev_mode :: bool
  node_id :: string
  node_signing_key :: "string option"
  insecure_skip_policy :: bool
  insecure_skip_wallet_check :: bool
  threshold_t :: nat
  total_n :: nat

definition config_default :: Config where
  "config_default = \<lparr>
     http_port = 8080, grpc_port = 9090, policy_engine_pubkey = None, token_max_skew = 30,
     wallet_management_url = None, custody_provider = InHouse, custody_api_url = None,
     custody_api_key = None, custody_api_secret_key = None, custody_sandbox = False,
     custody_webhook_secret = None, custody_organization_id = None,
     custody_api_private_key = None, custody_sub_organization_id = None,
     custody_service_account_key = None, custody_service_account_secret = None,
     audit_event_log_url = None, kafka_brokers = None, dev_mode = False, node_id = ''node-0'',
     node_signing_key = None, insecure_skip_policy = False, insecure_skip_wallet_check = False,
     threshold_t = 2, total_n = 3\<rparr>"

section \<open>Reading the environment\<close>

text \<open>\<open>std::env::var(key).ok()\<close> for every key.\<close>

type_synonym env = "string \<Rightarrow> string option"

definition env_opt :: "env \<Rightarrow> string \<Rightarrow> string option" where
  "env_opt env key =
     (case env key of None \<Rightarrow> None | Some v \<Rightarrow> if v = [] then None else Some v)"

definition env_parse :: "(string \<Rightarrow> 'a option) \<Rightarrow> env \<Rightarrow> string \<Rightarrow> 'a \<Rightarrow> 'a" where
  "env_parse parse env key dflt =
     (case Option.bind (env_opt env key) parse of Some v \<Rightarrow> v | None \<Rightarrow> dflt)"

definition env_u16 :: "env \<Rightarrow> string \<Rightarrow> u16 \<Rightarrow> u16" where
  "env_u16 = env_parse (\<lambda>s. map_option of_nat (parse_uint (2 ^ 16) s))"

definition env_u64 :: "env \<Rightarrow> string \<Rightarrow> u64 \<Rightarrow> u64" where
  "env_u64 = env_parse (\<lambda>s. map_option of_nat (parse_uint (2 ^ 64) s))"

definition env_usize :: "env \<Rightarrow> string \<Rightarrow> nat \<Rightarrow> nat" where
  "env_usize = env_parse (parse_uint (2 ^ 64))"

text \<open>\<open>std::fs::read_to_string(path).ok()\<close> is the parameter \<open>read_file\<close>.\<close>

definition load_secret_file :: "(string \<Rightarrow> string option) \<Rightarrow> string \<Rightarrow> string option" where
  "load_secret_file read_file path = read_file path"

definition from_env :: "(string \<Rightarrow> string option) \<Rightarrow> env \<Rightarrow> Config" where
  "from_env read_file env = \<lparr>
     http_port = env_u16 env ''PORT'' 8080,
     grpc_port = env_u16 env ''GRPC_PORT'' 9090,
     policy_engine_pubkey = env_opt env ''POLICY_ENGINE_PUBKEY'',
     token_max_skew = env_u64 env ''TOKEN_MAX_SKEW_SECS'' 30,
     wallet_management_url = env_opt env ''WALLET_MANAGEMENT_URL'',
     custody_provider =
       (case Option.bind (env_opt env ''CUSTODY_PROVIDER'') provider_parse of
          Some p \<Rightarrow> p | None \<Rightarrow> InHouse),
     custody_api_url = env_opt env ''CUSTODY_API_URL'',
     custody_api_key = env_opt env ''CUSTODY_API_KEY'',
     custody_api_secret_key =
       (case env_opt env ''CUSTODY_API_SECRET_KEY'' of
          Some v \<Rightarrow> Some v
        | None \<Rightarrow> Option.bind (env_opt env ''CUSTODY_API_SECRET_KEY_PATH'') (load_secret_file read_file)),
     custody_sandbox = env_parse parse_bool env ''CUSTODY_SANDBOX'' False,
     custody_webhook_secret = env_opt env ''CUSTODY_WEBHOOK_SECRET'',
     custody_organization_id = env_opt env ''CUSTODY_ORGANIZATION_ID'',
     custody_api_private_key = env_opt env ''CUSTODY_API_PRIVATE_KEY'',
     custody_sub_organization_id = env_opt env ''CUSTODY_SUB_ORGANIZATION_ID'',
     custody_service_account_key = env_opt env ''CUSTODY_SERVICE_ACCOUNT_KEY'',
     custody_service_account_secret = env_opt env ''CUSTODY_SERVICE_ACCOUNT_SECRET'',
     audit_event_log_url = env_opt env ''AUDIT_EVENT_LOG_URL'',
     kafka_brokers = env_opt env ''KAFKA_BROKERS'',
     dev_mode = env_parse parse_bool env ''DEV_MODE'' False,
     node_id = (case env_opt env ''NODE_ID'' of Some v \<Rightarrow> v | None \<Rightarrow> ''node-0''),
     node_signing_key = env_opt env ''NODE_SIGNING_KEY'',
     insecure_skip_policy = env_parse parse_bool env ''INSECURE_SKIP_POLICY'' False,
     insecure_skip_wallet_check = env_parse parse_bool env ''INSECURE_SKIP_WALLET_CHECK'' False,
     threshold_t = env_usize env ''THRESHOLD_T'' 2,
     total_n = env_usize env ''TOTAL_N'' 3\<rparr>"

section \<open>Lemmas\<close>

lemma env_opt_SomeD: "env_opt env k = Some v \<Longrightarrow> v \<noteq> [] \<and> env k = Some v"
  by (auto simp: env_opt_def split: option.splits if_splits)

lemma env_parse_set: "env k = Some v \<Longrightarrow> v \<noteq> [] \<Longrightarrow> parse v = Some x \<Longrightarrow> env_parse parse env k d = x"
  by (simp add: env_parse_def env_opt_def)

lemma env_parse_default: "env k = None \<Longrightarrow> env_parse parse env k d = d"
  by (simp add: env_parse_def env_opt_def)

lemma env_parse_bool_True_iff:
  "env_parse parse_bool env k False \<longleftrightarrow> env k = Some ''true''"
  by (auto simp: env_parse_def env_opt_def parse_bool_def split: option.splits if_splits)

lemma digit_value_digit: "d < (10 :: nat) \<Longrightarrow> digit_value (char_of (48 + d)) = Some d"
  by (simp add: digit_value_def)

lemma parse_digits_append:
  "parse_digits bound acc (xs @ ys) = Option.bind (parse_digits bound acc xs) (\<lambda>a. parse_digits bound a ys)"
  by (induction xs arbitrary: acc) (auto split: option.split)

lemma parse_digits_show_nat: "n < bound \<Longrightarrow> parse_digits bound 0 (show_nat n) = Some n"
proof (induction n rule: show_nat.induct)
  case (1 n)
  show ?case
  proof (cases "n < 10")
    case True
    thus ?thesis using 1(2) by (simp add: show_nat.simps digit_value_digit)
  next
    case False
    have "n div 10 < bound" using 1(2) by (meson div_le_dividend le_less_trans)
    hence "parse_digits bound 0 (show_nat (n div 10)) = Some (n div 10)" using 1(1) False by simp
    thus ?thesis
      using False 1(2) by (simp add: show_nat.simps[of n] parse_digits_append digit_value_digit)
  qed
qed

lemma show_nat_hd: "\<exists>d cs. show_nat n = char_of (48 + d) # cs \<and> d < (10 :: nat)"
proof (induction n rule: show_nat.induct)
  case (1 n)
  show ?case
  proof (cases "n < 10")
    case False
    then obtain d :: nat and cs where "show_nat (n div 10) = char_of (48 + d) # cs \<and> d < 10" using 1 by blast
    hence "show_nat n = char_of (48 + d) # cs @ [char_of (48 + n mod 10)] \<and> d < 10"
      using False by (simp add: show_nat.simps[of n])
    thus ?thesis by blast
  next
    case True
    hence "show_nat n = char_of (48 + n) # []" by (simp add: show_nat.simps)
    thus ?thesis using True by blast
  qed
qed

lemma parse_uint_show_nat: "n < bound \<Longrightarrow> parse_uint bound (show_nat n) = Some n"
proof -
  assume n: "n < bound"
  obtain d :: nat and cs where d: "show_nat n = char_of (48 + d) # cs" "d < 10" using show_nat_hd by blast
  have "(of_char (char_of (48 + d)) :: nat) \<noteq> of_char CHR ''+''" using d(2) by simp
  hence "char_of (48 + d) \<noteq> CHR ''+''" by metis
  thus ?thesis using parse_digits_show_nat[OF n] d(1) by (simp add: parse_uint_def)
qed

lemma parse_digits_bound: "parse_digits bound acc s = Some n \<Longrightarrow> acc < bound \<Longrightarrow> n < bound"
  by (induction s arbitrary: acc) (auto split: option.splits if_splits)

lemma parse_digits_mono:
  "parse_digits bound acc s = Some n \<Longrightarrow> bound \<le> bound' \<Longrightarrow> parse_digits bound' acc s = Some n"
  by (induction s arbitrary: acc) (auto split: option.splits if_splits)

lemma parse_uint_bound: "parse_uint bound s = Some n \<Longrightarrow> 0 < bound \<Longrightarrow> n < bound"
  by (auto simp: parse_uint_def Let_def simp del: parse_digits.simps
      split: list.splits if_splits intro: parse_digits_bound)

lemma parse_uint_mono: "parse_uint bound s = Some n \<Longrightarrow> bound \<le> bound' \<Longrightarrow> parse_uint bound' s = Some n"
  by (auto simp: parse_uint_def Let_def simp del: parse_digits.simps
      split: list.splits if_splits intro: parse_digits_mono)

lemma parse_uint_show_nat_iff:
  assumes "0 < bound"
  shows "parse_uint bound (show_nat n) = (if n < bound then Some n else None)"
proof (cases "parse_uint bound (show_nat n)")
  case (Some v)
  have v: "v < bound" by (rule parse_uint_bound[OF Some assms])
  show ?thesis
  proof (cases "n < bound")
    case False
    have "parse_uint (Suc n) (show_nat n) = Some v"
      using parse_uint_mono[OF Some] False by simp
    hence "v = n" using parse_uint_show_nat[of n "Suc n"] by simp
    thus ?thesis using v False by simp
  qed (simp add: parse_uint_show_nat)
qed (use parse_uint_show_nat[of n bound] in auto)

lemma show_nat_not_Nil [simp]: "show_nat n \<noteq> []"
  using show_nat_hd[of n] by auto

text \<open>
  The configuration follows the environment. With nothing set it is the default
  configuration. A port or node count given in decimal is read back as that number when it fits
  its type and is replaced by the default otherwise. The two switches that disable security checks are on
  exactly when their variable is the text \<open>true\<close>, so no other spelling turns a check off.
\<close>

theorem config_follows_environment:
  "from_env read_file (\<lambda>_. None) = config_default \<and>
   http_port (from_env read_file (env(''PORT'' \<mapsto> show_nat n))) =
     (if n < 2 ^ 16 then of_nat n else 8080) \<and>
   threshold_t (from_env read_file (env(''THRESHOLD_T'' \<mapsto> show_nat n))) = (if n < 2 ^ 64 then n else 2) \<and>
   (insecure_skip_policy (from_env read_file env) \<longleftrightarrow> env ''INSECURE_SKIP_POLICY'' = Some ''true'') \<and>
   (insecure_skip_wallet_check (from_env read_file env) \<longleftrightarrow>
      env ''INSECURE_SKIP_WALLET_CHECK'' = Some ''true'')"
proof (intro conjI)
  show "from_env read_file (\<lambda>_. None) = config_default"
    by (simp add: from_env_def config_default_def env_u16_def env_u64_def env_usize_def
          env_parse_def env_opt_def)
  show "http_port (from_env read_file (env(''PORT'' \<mapsto> show_nat n))) =
     (if n < 2 ^ 16 then of_nat n else 8080)"
    by (simp add: from_env_def env_u16_def env_parse_def env_opt_def parse_uint_show_nat_iff)
  show "threshold_t (from_env read_file (env(''THRESHOLD_T'' \<mapsto> show_nat n))) = (if n < 2 ^ 64 then n else 2)"
    by (simp add: from_env_def env_usize_def env_parse_def env_opt_def parse_uint_show_nat_iff)
qed (simp_all add: from_env_def env_parse_bool_True_iff)

text \<open>
  The documented way to enable developer mode and the sandbox does not: with
  \<open>DEV_MODE=1\<close> and \<open>CUSTODY_SANDBOX=1\<close> both settings stay off, because a boolean is parsed from
  the words \<open>true\<close> and \<open>false\<close> only and anything else falls back to the default.
\<close>

theorem numeric_switches_ignored:
  assumes "env ''DEV_MODE'' = Some ''1''" and "env ''CUSTODY_SANDBOX'' = Some ''1''"
  shows "\<not> dev_mode (from_env read_file env) \<and> \<not> custody_sandbox (from_env read_file env)"
  using assms by (simp add: from_env_def env_parse_bool_True_iff)

theorem numeric_switches_ignored_witness:
  "\<not> dev_mode (from_env (\<lambda>_. None) [''DEV_MODE'' \<mapsto> ''1'', ''CUSTODY_SANDBOX'' \<mapsto> ''1'']) \<and>
   \<not> custody_sandbox (from_env (\<lambda>_. None) [''DEV_MODE'' \<mapsto> ''1'', ''CUSTODY_SANDBOX'' \<mapsto> ''1''])"
  by (rule numeric_switches_ignored) simp_all

end
