(* ===== verification/Fireblocks_Engine.thy ===== *)
theory Fireblocks_Engine
  imports Custody Config
begin

text \<open>
  \<open>src/engine/fireblocks.rs\<close>: the Fireblocks adapter. Each request carries a JWT over its path and
  the hash of its body; signing submits a raw transaction and polls it against a deadline.
\<close>

section \<open>Wire shapes and state\<close>

record JwtHeader =
  jh_alg :: string
  jh_typ :: string

record JwtClaims =
  jc_uri :: string
  jc_nonce :: string
  jc_iat :: "64 word"
  jc_exp :: "64 word"
  jc_sub :: string
  jc_body_hash :: string

record VaultAccountResp =
  va_id :: string

record PublicKeyInfoResp =
  pki_public_key :: string

record SignedMessage =
  sm_signature :: "string option"
  sm_public_key :: "string option"

record TransactionResp =
  tr_id :: string
  tr_status :: string
  tr_signed_messages :: "SignedMessage list"

record FireblocksEngine =
  fb_base_url :: string
  fb_api_key :: string
  fb_encoding_key :: bytes

text \<open>The client, the crates, the codecs of the wire shapes and the functions of jsonwebtoken.\<close>

record 'h fireblocks_env =
  fe_http :: "'h http_env"
  fe_crates :: crates
  fe_json :: "json serde"
  fe_vault :: "VaultAccountResp serde"
  fe_key_info :: "PublicKeyInfoResp serde"
  fe_tx :: "TransactionResp serde"
  fe_from_rsa_pem :: "bytes \<Rightarrow> (bytes, string) result"
  fe_jwt_encode :: "JwtHeader \<Rightarrow> JwtClaims \<Rightarrow> bytes \<Rightarrow> (string, string) result"

definition FIREBLOCKS_API_BASE :: string where
  "FIREBLOCKS_API_BASE = ''https://api.fireblocks.io''"

definition FIREBLOCKS_SANDBOX_BASE :: string where
  "FIREBLOCKS_SANDBOX_BASE = ''https://sandbox-api.fireblocks.io''"

definition TX_POLL_INTERVAL :: nat where "TX_POLL_INTERVAL = 500"

definition TX_POLL_TIMEOUT :: nat where "TX_POLL_TIMEOUT = 30000"

definition EMPTY_BODY_HASH :: string where
  "EMPTY_BODY_HASH = ''e3b0c44298fc1c149afbf4c8996fb92427ae41e4649b934ca495991b7852b855''"

definition fireblocks_from_config ::
  "'h fireblocks_env \<Rightarrow> Config \<Rightarrow> (FireblocksEngine, string) result" where
  "fireblocks_from_config F cfg =
     and_then (ok_or (custody_api_key cfg) ''CUSTODY_API_KEY required for fireblocks'') (\<lambda>api_key.
     and_then (ok_or (custody_api_secret_key cfg)
        ''CUSTODY_API_SECRET_KEY (or CUSTODY_API_SECRET_KEY_PATH) required for fireblocks'') (\<lambda>pem.
     and_then (map_err (\<lambda>e. ''CUSTODY_API_SECRET_KEY is not a valid RSA PEM: '' @ e)
        (fe_from_rsa_pem F (as_bytes pem))) (\<lambda>encoding_key.
     let base_url = (case custody_api_url cfg of
           Some s \<Rightarrow> trim_end_matches CHR ''/'' s
         | None \<Rightarrow> if custody_sandbox cfg then FIREBLOCKS_SANDBOX_BASE else FIREBLOCKS_API_BASE)
     in and_then (map_err (\<lambda>e. ''reqwest client build: '' @ e) (he_build (fe_http F))) (\<lambda>_.
        Ok \<lparr>fb_base_url = base_url, fb_api_key = api_key, fb_encoding_key = encoding_key\<rparr>))))"

section \<open>Authenticated requests\<close>

definition fb_sign_jwt ::
  "'h fireblocks_env \<Rightarrow> FireblocksEngine \<Rightarrow> string \<Rightarrow> string \<Rightarrow> (string, 'h) io" where
  "fb_sign_jwt F c uri body_hash =
     io_bind utc_timestamp (\<lambda>iat.
     io_bind io_uuid (\<lambda>nonce.
       let claims = \<lparr>jc_uri = uri, jc_nonce = nonce, jc_iat = iat, jc_exp = iat + 29,
                     jc_sub = fb_api_key c, jc_body_hash = body_hash\<rparr>
       in io_of (map_err (\<lambda>e. EngineInternal (''jwt encode: '' @ e))
            (fe_jwt_encode F \<lparr>jh_alg = ''RS256'', jh_typ = ''JWT''\<rparr> claims (fb_encoding_key c)))))"

definition fb_body_hash :: "'h fireblocks_env \<Rightarrow> bytes option \<Rightarrow> string" where
  "fb_body_hash F body =
     (case body of
        Some b \<Rightarrow> hex_encode (fe_crates F) (sha256 (fe_crates F) b)
      | None \<Rightarrow> EMPTY_BODY_HASH)"

definition fb_decode_response ::
  "'h http_env \<Rightarrow> 'r serde \<Rightarrow> http_response \<Rightarrow> ('r, EngineError) result" where
  "fb_decode_response E R resp =
     (let status = rs_status resp; shown = he_status_display E status
      in if status = 404 then Err (KeyNotFound ''fireblocks reports unknown key'')
         else if status = 403 \<or> status = 401 then Err (EngineDenied (''fireblocks rejected request: '' @ shown))
         else if 500 \<le> status \<and> status < 600
         then Err (ProviderUnavailable (''fireblocks server error: '' @ shown))
         else if \<not> (200 \<le> status \<and> status < 300) then Err (Transient (''fireblocks returned '' @ shown))
         else map_err (\<lambda>e. EngineInternal (''fireblocks response decode: '' @ e)) (response_json R resp))"

definition fb_url :: "FireblocksEngine \<Rightarrow> string \<Rightarrow> string" where
  "fb_url c path_and_query = fb_base_url c @ path_and_query"

definition fb_post_json ::
  "'h fireblocks_env \<Rightarrow> FireblocksEngine \<Rightarrow> 'r serde \<Rightarrow> string \<Rightarrow> json \<Rightarrow> ('r, 'h) io" where
  "fb_post_json F c R path body =
     (let body_bytes = to_vec (fe_json F) body
      in io_bind (fb_sign_jwt F c path (fb_body_hash F (Some body_bytes))) (\<lambda>jwt.
         io_bind (http_send (fe_http F) \<lparr>hr_method = ''POST'', hr_url = fb_url c path,
            hr_headers = [(''X-API-Key'', fb_api_key c), (''Authorization'', ''Bearer '' @ jwt),
                          (''Content-Type'', ''application/json'')],
            hr_body = body_bytes\<rparr>) (\<lambda>resp.
         io_of (fb_decode_response (fe_http F) R resp))))"

definition fb_get_json ::
  "'h fireblocks_env \<Rightarrow> FireblocksEngine \<Rightarrow> 'r serde \<Rightarrow> string \<Rightarrow> ('r, 'h) io" where
  "fb_get_json F c R path =
     io_bind (fb_sign_jwt F c path (fb_body_hash F None)) (\<lambda>jwt.
     io_bind (http_send (fe_http F) \<lparr>hr_method = ''GET'', hr_url = fb_url c path,
        hr_headers = [(''X-API-Key'', fb_api_key c), (''Authorization'', ''Bearer '' @ jwt)],
        hr_body = []\<rparr>) (\<lambda>resp.
     io_of (fb_decode_response (fe_http F) R resp)))"

lemma fb_sign_jwt_time [io_intros]: "time_passes (fb_sign_jwt F c uri h)"
  unfolding fb_sign_jwt_def Let_def by (intro io_intros)

lemma fb_get_json_time [io_intros]: "time_passes (fb_get_json F c R path)"
  unfolding fb_get_json_def by (intro io_intros)

section \<open>Chain mapping and polling\<close>

fun asset_id :: "Chain \<Rightarrow> string" where
  "asset_id Evm = ''ETH''"
| "asset_id Solana = ''SOL''"
| "asset_id Bitcoin = ''BTC''"
| "asset_id Aptos = ''APT''"
| "asset_id Sui = ''SUI''"

definition mpc_algorithm :: "Chain \<Rightarrow> string" where
  "mpc_algorithm chain =
     (case scheme chain of
        EcdsaSecp256k1 \<Rightarrow> ''MPC_ECDSA_SECP256K1'' | Ed25519Scheme \<Rightarrow> ''MPC_EDDSA_ED25519'')"

definition fb_fetch_public_key ::
  "'h fireblocks_env \<Rightarrow> FireblocksEngine \<Rightarrow> string \<Rightarrow> string \<Rightarrow> u32 \<Rightarrow> u32 \<Rightarrow> (bytes, 'h) io" where
  "fb_fetch_public_key F c vault asset change address_index =
     io_bind (fb_get_json F c (fe_key_info F)
        (''/v1/vault/accounts/'' @ vault @ ''/'' @ asset @ ''/'' @ show_nat (unat change) @ ''/'' @
         show_nat (unat address_index) @ ''/public_key_info?compressed=false'')) (\<lambda>info.
     io_of (decode_hex_or (fe_crates F) (pki_public_key info) ''fireblocks returned non-hex public key''))"

text \<open>What a polled transaction decides: its completion, a terminal failure, or nothing yet.\<close>

definition fb_tx_decision :: "string \<Rightarrow> TransactionResp \<Rightarrow> (TransactionResp, EngineError) result option" where
  "fb_tx_decision tx_id tx =
     (if tr_status tx = ''COMPLETED'' then Some (Ok tx)
      else if tr_status tx = ''FAILED'' \<or> tr_status tx = ''REJECTED'' \<or> tr_status tx = ''CANCELLED''
      then Some (Err (EngineInternal (''fireblocks transaction '' @ tx_id @ '' terminal status: '' @
             tr_status tx)))
      else None)"

definition fb_poll_query :: "'h fireblocks_env \<Rightarrow> FireblocksEngine \<Rightarrow> string \<Rightarrow> (TransactionResp, 'h) io" where
  "fb_poll_query F c tx_id = fb_get_json F c (fe_tx F) (''/v1/transactions/'' @ tx_id)"

lemma fb_poll_query_mono: "(r, s') = fb_poll_query F c tx_id s \<Longrightarrow> net_now s \<le> net_now s'"
  using fb_get_json_time by (metis fb_poll_query_def time_passesD)

definition fb_poll_give_up :: "string \<Rightarrow> EngineError" where
  "fb_poll_give_up tx_id = Transient (''fireblocks transaction '' @ tx_id @ '' poll timed out'')"

text \<open>
  The loop ends because every round that repeats has slept, so the clock moves towards the
  deadline.
\<close>

function fb_poll_loop ::
  "'h fireblocks_env \<Rightarrow> FireblocksEngine \<Rightarrow> string \<Rightarrow> nat \<Rightarrow> (TransactionResp, 'h) io" where
  "fb_poll_loop F c tx_id deadline s =
     (case fb_poll_query F c tx_id s of
        (Ok tx, s1) \<Rightarrow>
          (case fb_tx_decision tx_id tx of
             Some d \<Rightarrow> (d, s1)
           | None \<Rightarrow>
               if deadline \<le> net_now s1 then (Err (fb_poll_give_up tx_id), s1)
               else fb_poll_loop F c tx_id deadline (snd (sleep_ms TX_POLL_INTERVAL s1)))
      | (Err e, s1) \<Rightarrow> (Err e, s1)
      | (Panic, s1) \<Rightarrow> (Panic, s1))"
  by pat_completeness auto

termination
  by (relation "measure (\<lambda>(F, c, tx_id, deadline, s). deadline - net_now s)")
     (auto simp: sleep_ms_def elapse_def TX_POLL_INTERVAL_def dest!: fb_poll_query_mono)

declare fb_poll_loop.simps [simp del]

definition fb_poll_transaction ::
  "'h fireblocks_env \<Rightarrow> FireblocksEngine \<Rightarrow> string \<Rightarrow> (TransactionResp, 'h) io" where
  "fb_poll_transaction F c tx_id =
     io_bind instant_now (\<lambda>now. fb_poll_loop F c tx_id (now + TX_POLL_TIMEOUT))"

section \<open>The engine\<close>

definition fb_dkg :: "'h fireblocks_env \<Rightarrow> FireblocksEngine \<Rightarrow> DkgParams \<Rightarrow> (DkgOutcome, 'h) io" where
  "fb_dkg F c p =
     io_bind io_uuid (\<lambda>u.
     io_bind (fb_post_json F c (fe_vault F) ''/v1/vault/accounts''
        (JObject [(''name'', JString (''key-'' @ u)), (''hiddenOnUI'', JBool True)])) (\<lambda>vault.
     let asset = asset_id (dp_chain p)
     in io_bind (fb_post_json F c (fe_json F)
          (''/v1/vault/accounts/'' @ va_id vault @ ''/'' @ asset) (JObject [])) (\<lambda>_.
        io_bind (fb_fetch_public_key F c (va_id vault) asset 0 0) (\<lambda>public_key.
        io_of (Ok \<lparr>do_key_id = va_id vault, do_public_key = public_key\<rparr>)))))"

definition fb_sign_body :: "'h fireblocks_env \<Rightarrow> EngineSignRequest \<Rightarrow> json" where
  "fb_sign_body F req = JObject
     [(''assetId'', JString (asset_id (er_chain req))),
      (''source'', JObject [(''type'', JString ''VAULT_ACCOUNT''), (''id'', JString (er_key_id req))]),
      (''operation'', JString ''RAW''),
      (''amount'', JString ''0''),
      (''note'', JString (''MPC signing request for key '' @ er_key_id req)),
      (''extraParameters'', JObject [(''rawMessageData'', JObject
         [(''messages'', JArray [JObject
             [(''content'', JString (hex_encode (fe_crates F) (er_payload req)))]]),
          (''algorithm'', JString (mpc_algorithm (er_chain req)))])])]"

definition fb_sign ::
  "('s, 'p) k256 \<Rightarrow> 'h fireblocks_env \<Rightarrow> FireblocksEngine \<Rightarrow> EngineSignRequest \<Rightarrow> (EngineSignature, 'h) io" where
  "fb_sign K F c req =
     io_bind (fb_post_json F c (fe_tx F) ''/v1/transactions'' (fb_sign_body F req)) (\<lambda>tx.
     io_bind (fb_poll_transaction F c (tr_id tx)) (\<lambda>final_tx.
     case tr_signed_messages final_tx of
       [] \<Rightarrow> io_of (Err (EngineInternal ''fireblocks completed transaction had no signed messages''))
     | msg # _ \<Rightarrow>
         io_bind (io_of (ok_or (sm_signature msg)
            (EngineInternal ''fireblocks signed message missing signature''))) (\<lambda>sig_hex.
         io_bind (io_of (ok_or (sm_public_key msg)
            (EngineInternal ''fireblocks signed message missing public key''))) (\<lambda>pk_hex.
         io_bind (io_of (decode_hex_or (fe_crates F) sig_hex
            ''fireblocks returned non-hex signature'')) (\<lambda>signature.
         io_bind (io_of (decode_hex_or (fe_crates F) pk_hex
            ''fireblocks returned non-hex public key'')) (\<lambda>public_key.
         io_bind (io_of (verify_signature K (fe_crates F) (er_chain req) (er_payload req)
            signature public_key)) (\<lambda>_.
         io_of (Ok \<lparr>es_signature = signature, es_public_key = public_key\<rparr>))))))))"

definition fb_rotate_key :: "'h fireblocks_env \<Rightarrow> FireblocksEngine \<Rightarrow> KeyId \<Rightarrow> (RotateOutcome, 'h) io" where
  "fb_rotate_key F c key_id =
     (let asset = asset_id Evm
      in io_bind (fb_post_json F c (fe_json F)
           (''/v1/vault/accounts/'' @ key_id @ ''/'' @ asset) (JObject [])) (\<lambda>_.
         io_bind (fb_fetch_public_key F c key_id asset 0 1) (\<lambda>public_key.
         io_of (Ok \<lparr>ro_key_id = key_id, ro_public_key = public_key, ro_epoch = 0\<rparr>))))"

definition fb_get_key_metadata ::
  "'h fireblocks_env \<Rightarrow> FireblocksEngine \<Rightarrow> KeyId \<Rightarrow> (KeyMetadata, 'h) io" where
  "fb_get_key_metadata F c key_id =
     io_bind (fb_fetch_public_key F c key_id (asset_id Evm) 0 0) (\<lambda>public_key.
     io_of (Ok \<lparr>km_key_id = key_id, km_chain = Evm, km_public_key = public_key,
                km_status = Active, km_epoch = 0\<rparr>))"

definition fb_restore_share :: "RestoreParams \<Rightarrow> (bool, 'h) io" where
  "fb_restore_share p =
     io_of (Err (EngineInternal ''Fireblocks manages key shares; restore is not applicable''))"

definition fireblocks_engine ::
  "('s, 'p) k256 \<Rightarrow> 'h fireblocks_env \<Rightarrow> FireblocksEngine \<Rightarrow> 'h net SigningEngine" where
  "fireblocks_engine K F c = \<lparr>eng_sign = fb_sign K F c, eng_dkg = fb_dkg F c,
     eng_rotate_key = fb_rotate_key F c, eng_get_key_metadata = fb_get_key_metadata F c,
     eng_restore_share = fb_restore_share\<rparr>"

section \<open>Signatures are verified\<close>

lemma fb_sign_verified:
  "returns (fb_sign K F c req)
     (\<lambda>s. provider_accepts K (fe_crates F) (er_chain req) (er_payload req) (es_signature s) (es_public_key s))"
  unfolding fb_sign_def
  by (intro returns_bind_last)
     (auto split: list.split intro!: returns_of returns_bind_last returns_verified)

interpretation fireblocks: verified_engine "fb_sign K F c" "provider_accepts K (fe_crates F)" "\<lambda>_. True"
  for K F c
  by unfold_locales (auto dest: returnsD[OF fb_sign_verified])

section \<open>Requests are bound to their token\<close>

text \<open>
  A request is authenticated when its bearer token is an RS256 JWT of this engine's key over the
  path it is sent to and the hash of the body it carries, valid for 29 seconds.
\<close>

definition fb_authenticated :: "'h fireblocks_env \<Rightarrow> FireblocksEngine \<Rightarrow> http_request \<Rightarrow> bool" where
  "fb_authenticated F c q \<longleftrightarrow>
     (\<exists>claims jwt.
        fe_jwt_encode F \<lparr>jh_alg = ''RS256'', jh_typ = ''JWT''\<rparr> claims (fb_encoding_key c) = Ok jwt \<and>
        (''X-API-Key'', fb_api_key c) \<in> set (hr_headers q) \<and>
        (''Authorization'', ''Bearer '' @ jwt) \<in> set (hr_headers q) \<and>
        hr_url q = fb_base_url c @ jc_uri claims \<and> jc_sub claims = fb_api_key c \<and>
        jc_exp claims = jc_iat claims + 29 \<and>
        (if hr_method q = ''POST''
         then jc_body_hash claims = hex_encode (fe_crates F) (sha256 (fe_crates F) (hr_body q))
         else hr_body q = [] \<and> jc_body_hash claims = EMPTY_BODY_HASH))"

definition fb_jwt_for :: "'h fireblocks_env \<Rightarrow> FireblocksEngine \<Rightarrow> string \<Rightarrow> string \<Rightarrow> string \<Rightarrow> bool" where
  "fb_jwt_for F c uri h jwt \<longleftrightarrow>
     (\<exists>claims. fe_jwt_encode F \<lparr>jh_alg = ''RS256'', jh_typ = ''JWT''\<rparr> claims (fb_encoding_key c) = Ok jwt \<and>
        jc_uri claims = uri \<and> jc_sub claims = fb_api_key c \<and> jc_exp claims = jc_iat claims + 29 \<and>
        jc_body_hash claims = h)"

lemma fb_sign_jwt_returns: "returns (fb_sign_jwt F c uri h) (fb_jwt_for F c uri h)"
proof -
  have "fb_jwt_for F c uri h jwt"
    if "fe_jwt_encode F \<lparr>jh_alg = ''RS256'', jh_typ = ''JWT''\<rparr>
          \<lparr>jc_uri = uri, jc_nonce = nonce, jc_iat = iat, jc_exp = iat + 29, jc_sub = fb_api_key c,
           jc_body_hash = h\<rparr> (fb_encoding_key c) = Ok jwt" for jwt nonce iat
    unfolding fb_jwt_for_def by (rule exI, rule conjI[OF that]) simp
  thus ?thesis
    unfolding fb_sign_jwt_def Let_def
    by (intro returns_bind_last returns_of) (auto simp: result_simps)
qed

lemma fb_sign_jwt_sends [io_intros]: "sends P (fb_sign_jwt F c uri h)"
  unfolding fb_sign_jwt_def Let_def by (intro io_intros)

lemma fb_post_json_sends [io_intros]: "sends (fb_authenticated F c) (fb_post_json F c R path body)"
  unfolding fb_post_json_def Let_def
  by (rule sends_bind_returns[OF fb_sign_jwt_sends fb_sign_jwt_returns])
     (auto simp: fb_jwt_for_def fb_authenticated_def fb_body_hash_def fb_url_def
       intro!: io_intros sends_send)

lemma fb_get_json_sends [io_intros]: "sends (fb_authenticated F c) (fb_get_json F c R path)"
  unfolding fb_get_json_def
  by (rule sends_bind_returns[OF fb_sign_jwt_sends fb_sign_jwt_returns])
     (auto simp: fb_jwt_for_def fb_authenticated_def fb_body_hash_def fb_url_def
       intro!: io_intros sends_send)

lemma fb_sign_jwt_count: "sends_at_most 0 (fb_sign_jwt F c uri h)"
  unfolding fb_sign_jwt_def Let_def
  by (intro sends_at_most_bind[where i = 0 and j = 0] sends_at_most_basic) simp_all

lemma fb_get_json_count: "sends_at_most 1 (fb_get_json F c R path)"
  unfolding fb_get_json_def
  by (intro sends_at_most_bind[where j = 1, OF fb_sign_jwt_count] sends_at_most_bind[where i = 1 and j = 0]
        sends_at_most_basic) simp_all

interpretation fb_poll: polling "fb_poll_query F c tx_id" "fb_tx_decision tx_id"
  "\<lambda>_. fb_poll_give_up tx_id" TX_POLL_INTERVAL "fb_poll_loop F c tx_id"
  for F c tx_id
proof
  show "fb_poll_loop F c tx_id deadline s = io_bind (fb_poll_query F c tx_id) (\<lambda>r.
     case fb_tx_decision tx_id r of
       Some d \<Rightarrow> io_of d
     | None \<Rightarrow> io_bind instant_now (\<lambda>now.
         if deadline \<le> now then io_of (Err (fb_poll_give_up tx_id))
         else io_bind (sleep_ms TX_POLL_INTERVAL) (\<lambda>_. fb_poll_loop F c tx_id deadline))) s"
    for deadline s
    by (subst fb_poll_loop.simps)
       (auto simp: io_bind_def io_of_def instant_now_def sleep_ms_def split: prod.splits result.splits option.splits)
qed (simp_all only: fb_poll_query_def fb_get_json_time fb_get_json_count TX_POLL_INTERVAL_def zero_less_numeral)

lemma fb_poll_transaction_sends [io_intros]: "sends (fb_authenticated F c) (fb_poll_transaction F c tx_id)"
  unfolding fb_poll_transaction_def
  by (intro io_intros fb_poll.loop_sends) (simp add: fb_poll_query_def fb_get_json_sends)

lemma fb_fetch_public_key_sends [io_intros]:
  "sends (fb_authenticated F c) (fb_fetch_public_key F c vault asset i j)"
  unfolding fb_fetch_public_key_def by (intro io_intros)

text \<open>
  (C28) Every HTTP request the Fireblocks engine sends, in any operation, on any branch and in
  every polling round, is authenticated for itself: its token is an RS256 JWT of the engine's key
  over exactly the path of the request and the SHA-256 of the body it carries, so a token cannot
  be replayed for another path or body.
\<close>

theorem fireblocks_requests_authenticated:
  "sends (fb_authenticated F c) (eng_sign (fireblocks_engine K F c) req) \<and>
   sends (fb_authenticated F c) (eng_dkg (fireblocks_engine K F c) params) \<and>
   sends (fb_authenticated F c) (eng_rotate_key (fireblocks_engine K F c) key_id) \<and>
   sends (fb_authenticated F c) (eng_get_key_metadata (fireblocks_engine K F c) key_id) \<and>
   sends (fb_authenticated F c) (eng_restore_share (fireblocks_engine K F c) restore)"
  unfolding fireblocks_engine_def SigningEngine.simps
  by (intro conjI)
     (auto simp: fb_sign_def fb_dkg_def fb_rotate_key_def fb_get_key_metadata_def fb_restore_share_def
        Let_def split: list.split intro!: io_intros)

text \<open>
  (C30) Polling a Fireblocks transaction ends: whatever the provider answers and however long each
  call takes, at most 61 queries are made, because each round that is repeated has slept at least
  500 ms of the 30 s allowed; and only a transaction reported as \<open>COMPLETED\<close> is returned.
\<close>

theorem fireblocks_poll_bounded:
  "sent_count (snd (fb_poll_transaction F c tx_id s)) \<le> sent_count s + 61 \<and>
   (case fst (fb_poll_transaction F c tx_id s) of Ok tx \<Rightarrow> tr_status tx = ''COMPLETED'' | _ \<Rightarrow> True)"
proof -
  let ?loop = "fb_poll_loop F c tx_id (net_now s + TX_POLL_TIMEOUT) s"
  have eq: "fb_poll_transaction F c tx_id s = ?loop"
    by (simp add: fb_poll_transaction_def io_bind_def instant_now_def)
  have "tr_status tx = ''COMPLETED''" if "fst ?loop = Ok tx" for tx
  proof -
    have "?loop = (Ok tx, snd ?loop)" using that by (simp add: prod_eq_iff)
    then obtain y where "fb_tx_decision tx_id y = Some (Ok tx)" using fb_poll.loop_returns by blast
    thus ?thesis by (auto simp: fb_tx_decision_def split: if_splits)
  qed
  thus ?thesis
    using fb_poll.rounds_bounded[of F c tx_id "net_now s + TX_POLL_TIMEOUT" s]
    by (auto simp: eq TX_POLL_TIMEOUT_def TX_POLL_INTERVAL_def split: result.split)
qed

end
