(* ===== verification/Dfns_Engine.thy ===== *)
theory Dfns_Engine
  imports Custody Config
begin

text \<open>
  \<open>src/engine/dfns.rs\<close>: the Dfns adapter. A state-changing request needs a one-time token, obtained
  by announcing the request, signing the provider's challenge with the service account's
  Ed25519 key and returning the assertion; signatures come inline or by polling.
\<close>

section \<open>Wire shapes and state\<close>

record SigningKeyDto =
  sk_id :: string
  sk_public_key :: string

record WalletResponse =
  wr_status :: string
  wr_signing_key :: SigningKeyDto

record KeyResponse =
  kr_status :: string
  kr_public_key :: string

record SignatureBody =
  sb_kind :: string
  sb_hash :: "string option"
  sb_message :: "string option"
  sb_blockchain_kind :: "string option"

record SignatureEncoded =
  se_encoded :: string

record SignatureRequestResponse =
  sgr_id :: string
  sgr_status :: string
  sgr_reason :: "string option"
  sgr_signature :: "SignatureEncoded option"
  sgr_public_key :: "string option"

record SignatureResult =
  sres_signature :: SignatureEncoded
  sres_public_key :: string

record InitActionBody =
  iab_http_method :: string
  iab_http_path :: string
  iab_payload :: string
  iab_server_kind :: "string option"

record InitActionResponse =
  iar_challenge :: string
  iar_challenge_identifier :: string

record CompleteActionBody =
  cab_challenge_identifier :: string
  cab_first_factor :: json

record CompleteActionResponse =
  car_user_action :: string

record DfnsEngine =
  df_base_url :: string
  df_auth_token :: string
  df_cred_id :: string
  df_signing_key :: bytes

record 'h dfns_env =
  de_http :: "'h http_env"
  de_crates :: crates
  de_hex_error :: "string \<Rightarrow> string" \<comment> \<open>the text of the error \<open>hex::decode\<close> reports\<close>
  de_json :: "json serde"
  de_wallet :: "WalletResponse serde"
  de_key :: "KeyResponse serde"
  de_sig_body :: "SignatureBody serde"
  de_sig_resp :: "SignatureRequestResponse serde"
  de_init :: "InitActionBody serde"
  de_init_resp :: "InitActionResponse serde"
  de_complete :: "CompleteActionBody serde"
  de_complete_resp :: "CompleteActionResponse serde"

definition DFNS_API_BASE :: string where "DFNS_API_BASE = ''https://api.dfns.co''"

definition DFNS_SANDBOX_BASE :: string where "DFNS_SANDBOX_BASE = ''https://sandbox-api.dfns.co''"

definition SIGN_POLL_INTERVAL :: nat where "SIGN_POLL_INTERVAL = 500"

definition SIGN_POLL_TIMEOUT :: nat where "SIGN_POLL_TIMEOUT = 30000"

definition dfns_from_config :: "'h dfns_env \<Rightarrow> Config \<Rightarrow> (DfnsEngine, string) result" where
  "dfns_from_config D cfg =
     and_then (ok_or (custody_api_key cfg)
        ''CUSTODY_API_KEY (Dfns service-account token) required for dfns'') (\<lambda>auth_token.
     and_then (ok_or (custody_service_account_key cfg)
        ''CUSTODY_SERVICE_ACCOUNT_KEY (Dfns credential id `cr-...`) required for dfns'') (\<lambda>cred_id.
     and_then (ok_or (custody_service_account_secret cfg)
        ''CUSTODY_SERVICE_ACCOUNT_SECRET (Ed25519 32-byte seed, hex) required for dfns'') (\<lambda>secret_hex.
     and_then (ok_or (hex_decode (de_crates D) secret_hex)
        (''CUSTODY_SERVICE_ACCOUNT_SECRET is not valid hex: '' @ de_hex_error D secret_hex)) (\<lambda>seed.
     if length seed \<noteq> 32
     then Err ''CUSTODY_SERVICE_ACCOUNT_SECRET must be exactly 32 bytes (64 hex chars)''
     else let base_url = (case custody_api_url cfg of
                Some s \<Rightarrow> trim_end_matches CHR ''/'' s
              | None \<Rightarrow> if custody_sandbox cfg then DFNS_SANDBOX_BASE else DFNS_API_BASE)
          in and_then (map_err (\<lambda>e. ''reqwest client build: '' @ e) (he_build (de_http D))) (\<lambda>_.
             Ok \<lparr>df_base_url = base_url, df_auth_token = auth_token, df_cred_id = cred_id,
                 df_signing_key = seed\<rparr>)))))"

definition dfns_url :: "DfnsEngine \<Rightarrow> string \<Rightarrow> string" where
  "dfns_url c path_and_query = df_base_url c @ path_and_query"

section \<open>Chain and status mapping\<close>

fun dfns_network :: "Chain \<Rightarrow> string" where
  "dfns_network Evm = ''Ethereum''"
| "dfns_network Solana = ''Solana''"
| "dfns_network Aptos = ''Aptos''"
| "dfns_network Sui = ''Sui''"
| "dfns_network Bitcoin = ''Bitcoin''"

definition signing_scheme :: "Chain \<Rightarrow> string" where
  "signing_scheme chain =
     (case scheme chain of EcdsaSecp256k1 \<Rightarrow> ''ECDSA'' | Ed25519Scheme \<Rightarrow> ''EdDSA'')"

fun blockchain_kind :: "Chain \<Rightarrow> string" where
  "blockchain_kind Evm = ''Evm''"
| "blockchain_kind Solana = ''Solana''"
| "blockchain_kind Aptos = ''Aptos''"
| "blockchain_kind Sui = ''Sui''"
| "blockchain_kind Bitcoin = ''Bitcoin''"

definition map_status :: "string \<Rightarrow> KeyShareStatus" where
  "map_status s =
     (if s = ''Active'' then Active
      else if s = ''Inactive'' \<or> s = ''Disabled'' then Cooling
      else if s = ''Archived'' then Retired
      else Active)"

section \<open>User actions\<close>

definition client_data :: "string \<Rightarrow> string \<Rightarrow> json" where
  "client_data challenge origin = JObject
     [(''type'', JString ''key.get''), (''challenge'', JString challenge),
      (''origin'', JString origin), (''crossOrigin'', JBool False)]"

definition sign_user_action :: "'h dfns_env \<Rightarrow> DfnsEngine \<Rightarrow> string \<Rightarrow> string \<Rightarrow> string" where
  "sign_user_action D c challenge origin =
     b64_encode (de_crates D)
       (ed_sign (de_crates D) (df_signing_key c) (to_vec (de_json D) (client_data challenge origin)))"

definition first_factor :: "'h dfns_env \<Rightarrow> DfnsEngine \<Rightarrow> string \<Rightarrow> string \<Rightarrow> json" where
  "first_factor D c challenge origin =
     (let client_data_b64 = b64_encode (de_crates D) (to_vec (de_json D) (client_data challenge origin));
          signature = sign_user_action D c challenge origin
      in JObject [(''kind'', JString ''Key''),
           (''credentialAssertion'', JObject [(''credId'', JString (df_cred_id c)),
              (''clientData'', JString client_data_b64), (''signature'', JString signature)])])"

text \<open>
  The body of a failed response is shown; a body that cannot be read is shown as empty. \<open>text()\<close>
  decodes the body leniently: on a UTF-8 body it is the body, and the model shows the bytes as
  they are. Only the wording of the error depends on it.
\<close>

definition dfns_decode_response ::
  "'h http_env \<Rightarrow> 'r serde \<Rightarrow> http_response \<Rightarrow> ('r, EngineError) result" where
  "dfns_decode_response E R resp =
     (let status = rs_status resp; shown = he_status_display E status
      in if status = 404 then Err (KeyNotFound ''dfns reports unknown key'')
         else if status = 403 \<or> status = 401 then Err (EngineDenied (''dfns rejected request: '' @ shown))
         else if 500 \<le> status \<and> status < 600 then Err (ProviderUnavailable (''dfns error: '' @ shown))
         else if \<not> (200 \<le> status \<and> status < 300)
         then Err (Transient (''dfns returned '' @ shown @ '': '' @
                (case rs_body resp of Ok b \<Rightarrow> text_of b | _ \<Rightarrow> [])))
         else map_err (\<lambda>e. EngineInternal (''dfns response decode: '' @ e)) (response_json R resp))"

definition dfns_post_json_no_action ::
  "'h dfns_env \<Rightarrow> DfnsEngine \<Rightarrow> 'b serde \<Rightarrow> 'r serde \<Rightarrow> string \<Rightarrow> 'b \<Rightarrow> ('r, 'h) io" where
  "dfns_post_json_no_action D c B R path body =
     io_bind (http_send (de_http D) \<lparr>hr_method = ''POST'', hr_url = dfns_url c path,
        hr_headers = [(''Authorization'', ''Bearer '' @ df_auth_token c),
                      (''Content-Type'', ''application/json'')],
        hr_body = to_vec B body\<rparr>)
     (\<lambda>resp. io_of (dfns_decode_response (de_http D) R resp))"

definition user_action_token ::
  "'h dfns_env \<Rightarrow> DfnsEngine \<Rightarrow> string \<Rightarrow> string \<Rightarrow> string \<Rightarrow> (string, 'h) io" where
  "user_action_token D c meth path body_json =
     io_bind (dfns_post_json_no_action D c (de_init D) (de_init_resp D) ''/auth/action/init''
        \<lparr>iab_http_method = meth, iab_http_path = path, iab_payload = body_json,
         iab_server_kind = Some ''Api''\<rparr>) (\<lambda>init_resp.
     let origin = ''https://api.dfns.co'';
         ff = first_factor D c (iar_challenge init_resp) origin
     in io_bind (dfns_post_json_no_action D c (de_complete D) (de_complete_resp D) ''/auth/action''
          \<lparr>cab_challenge_identifier = iar_challenge_identifier init_resp, cab_first_factor = ff\<rparr>)
        (\<lambda>complete_resp. io_of (Ok (car_user_action complete_resp))))"

text \<open>
  A POST with the token obtained for its path and body; \<open>post_json\<close> encodes its body and \<open>sign\<close>
  passes the bytes it has already encoded.
\<close>

definition dfns_post_action ::
  "'h dfns_env \<Rightarrow> DfnsEngine \<Rightarrow> 'r serde \<Rightarrow> string \<Rightarrow> bytes \<Rightarrow> ('r, 'h) io" where
  "dfns_post_action D c R path body_bytes =
     io_bind (user_action_token D c ''POST'' path (text_of body_bytes)) (\<lambda>action_token.
     io_bind (http_send (de_http D) \<lparr>hr_method = ''POST'', hr_url = dfns_url c path,
        hr_headers = [(''Authorization'', ''Bearer '' @ df_auth_token c),
                      (''X-DFNS-USERACTION'', action_token), (''Content-Type'', ''application/json'')],
        hr_body = body_bytes\<rparr>) (\<lambda>resp.
     io_of (dfns_decode_response (de_http D) R resp)))"

definition dfns_post_json ::
  "'h dfns_env \<Rightarrow> DfnsEngine \<Rightarrow> 'b serde \<Rightarrow> 'r serde \<Rightarrow> string \<Rightarrow> 'b \<Rightarrow> ('r, 'h) io" where
  "dfns_post_json D c B R path body = dfns_post_action D c R path (to_vec B body)"

definition dfns_get_json ::
  "'h dfns_env \<Rightarrow> DfnsEngine \<Rightarrow> 'r serde \<Rightarrow> string \<Rightarrow> ('r, 'h) io" where
  "dfns_get_json D c R path =
     io_bind (http_send (de_http D) \<lparr>hr_method = ''GET'', hr_url = dfns_url c path,
        hr_headers = [(''Authorization'', ''Bearer '' @ df_auth_token c)], hr_body = []\<rparr>)
     (\<lambda>resp. io_of (dfns_decode_response (de_http D) R resp))"

lemma dfns_get_json_time [io_intros]: "time_passes (dfns_get_json D c R path)"
  unfolding dfns_get_json_def by (intro io_intros)

section \<open>Waiting for a signature\<close>

definition hex_decode_dfns :: "crates \<Rightarrow> string \<Rightarrow> (bytes, EngineError) result" where
  "hex_decode_dfns X s =
     (let stripped = (case strip_prefix ''0x'' s of Some r \<Rightarrow> r | None \<Rightarrow> s)
      in decode_hex_or X stripped ''dfns returned non-hex signature/publicKey'')"

text \<open>The two parts of a response in a signed state.\<close>

definition dfns_signed_parts :: "SignatureRequestResponse \<Rightarrow> (SignatureResult, EngineError) result" where
  "dfns_signed_parts resp =
     and_then (ok_or (sgr_signature resp)
        (EngineInternal ''dfns reported Signed but no signature payload'')) (\<lambda>sig.
     and_then (ok_or (sgr_public_key resp) (EngineInternal ''dfns omitted publicKey'')) (\<lambda>public_key.
     Ok \<lparr>sres_signature = sig, sres_public_key = public_key\<rparr>))"

definition dfns_sig_decision ::
  "SignatureRequestResponse \<Rightarrow> (SignatureResult, EngineError) result option" where
  "dfns_sig_decision resp =
     (if sgr_status resp = ''Signed'' \<or> sgr_status resp = ''Confirmed'' then Some (dfns_signed_parts resp)
      else if sgr_status resp = ''Failed'' \<or> sgr_status resp = ''Rejected''
      then Some (Err (EngineDenied (''dfns signature request '' @ sgr_status resp @ '': '' @
             (case sgr_reason resp of Some r \<Rightarrow> r | None \<Rightarrow> []))))
      else None)"

definition dfns_poll_query ::
  "'h dfns_env \<Rightarrow> DfnsEngine \<Rightarrow> string \<Rightarrow> string \<Rightarrow> (SignatureRequestResponse, 'h) io" where
  "dfns_poll_query D c key_id signature_id =
     dfns_get_json D c (de_sig_resp D) (''/keys/'' @ key_id @ ''/signatures/'' @ signature_id)"

lemma dfns_poll_query_mono: "(r, s') = dfns_poll_query D c k i s \<Longrightarrow> net_now s \<le> net_now s'"
  using dfns_get_json_time by (metis dfns_poll_query_def time_passesD)

definition dfns_give_up :: "string \<Rightarrow> SignatureRequestResponse \<Rightarrow> EngineError" where
  "dfns_give_up signature_id resp =
     Transient (''dfns signature '' @ signature_id @ '' timed out in state '' @ sgr_status resp)"

function dfns_wait_loop ::
  "'h dfns_env \<Rightarrow> DfnsEngine \<Rightarrow> string \<Rightarrow> string \<Rightarrow> nat \<Rightarrow> (SignatureResult, 'h) io" where
  "dfns_wait_loop D c key_id signature_id deadline s =
     (case dfns_poll_query D c key_id signature_id s of
        (Ok resp, s1) \<Rightarrow>
          (case dfns_sig_decision resp of
             Some d \<Rightarrow> (d, s1)
           | None \<Rightarrow>
               if deadline \<le> net_now s1 then (Err (dfns_give_up signature_id resp), s1)
               else dfns_wait_loop D c key_id signature_id deadline (snd (sleep_ms SIGN_POLL_INTERVAL s1)))
      | (Err e, s1) \<Rightarrow> (Err e, s1)
      | (Panic, s1) \<Rightarrow> (Panic, s1))"
  by pat_completeness auto

termination
  by (relation "measure (\<lambda>(D, c, k, i, deadline, s). deadline - net_now s)")
     (auto simp: sleep_ms_def elapse_def SIGN_POLL_INTERVAL_def dest!: dfns_poll_query_mono)

declare dfns_wait_loop.simps [simp del]

definition wait_for_signature ::
  "'h dfns_env \<Rightarrow> DfnsEngine \<Rightarrow> string \<Rightarrow> string \<Rightarrow> (SignatureResult, 'h) io" where
  "wait_for_signature D c key_id signature_id =
     io_bind instant_now (\<lambda>now. dfns_wait_loop D c key_id signature_id (now + SIGN_POLL_TIMEOUT))"

section \<open>The engine\<close>

definition wallet_body :: "string \<Rightarrow> string \<Rightarrow> string \<Rightarrow> json" where
  "wallet_body name network sch = JObject
     [(''name'', JString name), (''network'', JString network),
      (''signingKey'', JObject [(''scheme'', JString sch)])]"

definition dfns_dkg :: "'h dfns_env \<Rightarrow> DfnsEngine \<Rightarrow> DkgParams \<Rightarrow> (DkgOutcome, 'h) io" where
  "dfns_dkg D c p =
     io_bind io_uuid (\<lambda>u.
     io_bind (dfns_post_json D c (de_json D) (de_wallet D) ''/wallets''
        (wallet_body (''key-'' @ u) (dfns_network (dp_chain p)) (signing_scheme (dp_chain p)))) (\<lambda>resp.
     io_bind (io_of (decode_hex_or (de_crates D) (sk_public_key (wr_signing_key resp))
        ''dfns returned non-hex signingKey.publicKey'')) (\<lambda>public_key.
     io_of (Ok \<lparr>do_key_id = sk_id (wr_signing_key resp), do_public_key = public_key\<rparr>))))"

definition dfns_signature_body :: "crates \<Rightarrow> EngineSignRequest \<Rightarrow> SignatureBody" where
  "dfns_signature_body X req =
     (case scheme (er_chain req) of
        EcdsaSecp256k1 \<Rightarrow> \<lparr>sb_kind = ''Hash'',
          sb_hash = Some (''0x'' @ hex_encode X (sha256 X (er_payload req))), sb_message = None,
          sb_blockchain_kind = Some (blockchain_kind (er_chain req))\<rparr>
      | Ed25519Scheme \<Rightarrow> \<lparr>sb_kind = ''Message'', sb_hash = None,
          sb_message = Some (''0x'' @ hex_encode X (er_payload req)),
          sb_blockchain_kind = Some (blockchain_kind (er_chain req))\<rparr>)"

definition dfns_sign ::
  "('s, 'p) k256 \<Rightarrow> 'h dfns_env \<Rightarrow> DfnsEngine \<Rightarrow> EngineSignRequest \<Rightarrow> (EngineSignature, 'h) io" where
  "dfns_sign K D c req =
     io_bind (dfns_post_action D c (de_sig_resp D) (''/keys/'' @ er_key_id req @ ''/signatures'')
        (to_vec (de_sig_body D) (dfns_signature_body (de_crates D) req))) (\<lambda>created.
     io_bind (if sgr_status created = ''Signed'' \<or> sgr_status created = ''Confirmed''
              then io_of (dfns_signed_parts created)
              else wait_for_signature D c (er_key_id req) (sgr_id created)) (\<lambda>signed.
     io_bind (io_of (hex_decode_dfns (de_crates D) (se_encoded (sres_signature signed)))) (\<lambda>signature.
     io_bind (io_of (hex_decode_dfns (de_crates D) (sres_public_key signed))) (\<lambda>public_key.
     io_bind (io_of (verify_signature K (de_crates D) (er_chain req) (er_payload req)
        signature public_key)) (\<lambda>_.
     io_of (Ok \<lparr>es_signature = signature, es_public_key = public_key\<rparr>))))))"

definition dfns_rotate_key :: "'h dfns_env \<Rightarrow> DfnsEngine \<Rightarrow> KeyId \<Rightarrow> (RotateOutcome, 'h) io" where
  "dfns_rotate_key D c key_id =
     io_bind io_uuid (\<lambda>u.
     io_bind (dfns_post_json D c (de_json D) (de_wallet D) ''/wallets''
        (wallet_body (''key-'' @ u @ ''-rotated'') ''Ethereum'' ''ECDSA'')) (\<lambda>resp.
     io_bind (io_of (decode_hex_or (de_crates D) (sk_public_key (wr_signing_key resp))
        ''dfns returned non-hex signingKey.publicKey'')) (\<lambda>public_key.
     io_of (Ok \<lparr>ro_key_id = key_id, ro_public_key = public_key, ro_epoch = 0\<rparr>))))"

definition dfns_try_key :: "'h dfns_env \<Rightarrow> DfnsEngine \<Rightarrow> KeyId \<Rightarrow> (KeyResponse option, 'h) io" where
  "dfns_try_key D c key_id s =
     (case dfns_get_json D c (de_key D) (''/keys/'' @ key_id) s of
        (Ok r, s1) \<Rightarrow> (Ok (Some r), s1)
      | (Err (KeyNotFound m), s1) \<Rightarrow> (Ok None, s1)
      | (Err e, s1) \<Rightarrow> (Err e, s1)
      | (Panic, s1) \<Rightarrow> (Panic, s1))"

definition dfns_get_key_metadata :: "'h dfns_env \<Rightarrow> DfnsEngine \<Rightarrow> KeyId \<Rightarrow> (KeyMetadata, 'h) io" where
  "dfns_get_key_metadata D c key_id =
     io_bind (dfns_try_key D c key_id) (\<lambda>key_resp.
     case key_resp of
       Some k \<Rightarrow>
         io_bind (io_of (decode_hex_or (de_crates D) (kr_public_key k) ''dfns returned non-hex publicKey''))
         (\<lambda>public_key. io_of (Ok \<lparr>km_key_id = key_id, km_chain = Evm, km_public_key = public_key,
            km_status = map_status (kr_status k), km_epoch = 0\<rparr>))
     | None \<Rightarrow>
         io_bind (dfns_get_json D c (de_wallet D) (''/wallets/'' @ key_id)) (\<lambda>w.
         io_bind (io_of (decode_hex_or (de_crates D) (sk_public_key (wr_signing_key w))
            ''dfns returned non-hex signingKey.publicKey'')) (\<lambda>public_key.
         io_of (Ok \<lparr>km_key_id = key_id, km_chain = Evm, km_public_key = public_key,
            km_status = map_status (wr_status w), km_epoch = 0\<rparr>))))"

definition dfns_restore_share :: "RestoreParams \<Rightarrow> (bool, 'h) io" where
  "dfns_restore_share p = io_of (Err (EngineInternal ''Dfns manages key shares; restore is not applicable''))"

definition dfns_engine ::
  "('s, 'p) k256 \<Rightarrow> 'h dfns_env \<Rightarrow> DfnsEngine \<Rightarrow> 'h net SigningEngine" where
  "dfns_engine K D c = \<lparr>eng_sign = dfns_sign K D c, eng_dkg = dfns_dkg D c,
     eng_rotate_key = dfns_rotate_key D c, eng_get_key_metadata = dfns_get_key_metadata D c,
     eng_restore_share = dfns_restore_share\<rparr>"

section \<open>Signatures are verified\<close>

lemma dfns_sign_verified:
  "returns (dfns_sign K D c req)
     (\<lambda>s. provider_accepts K (de_crates D) (er_chain req) (er_payload req) (es_signature s) (es_public_key s))"
  unfolding dfns_sign_def by (intro returns_bind_last returns_verified)

interpretation dfns: verified_engine "dfns_sign K D c" "provider_accepts K (de_crates D)" "\<lambda>_. True"
  for K D c
  by unfold_locales (auto dest: returnsD[OF dfns_sign_verified])

section \<open>Polling\<close>

lemma dfns_get_json_count: "sends_at_most 1 (dfns_get_json D c R path)"
  unfolding dfns_get_json_def
  by (intro sends_at_most_bind[where i = 1 and j = 0] sends_at_most_basic) simp_all

interpretation dfns_poll: polling "dfns_poll_query D c key_id signature_id" dfns_sig_decision
  "dfns_give_up signature_id" SIGN_POLL_INTERVAL "dfns_wait_loop D c key_id signature_id"
  for D c key_id signature_id
proof
  show "dfns_wait_loop D c key_id signature_id deadline s =
     io_bind (dfns_poll_query D c key_id signature_id) (\<lambda>r.
     case dfns_sig_decision r of
       Some d \<Rightarrow> io_of d
     | None \<Rightarrow> io_bind instant_now (\<lambda>now.
         if deadline \<le> now then io_of (Err (dfns_give_up signature_id r))
         else io_bind (sleep_ms SIGN_POLL_INTERVAL) (\<lambda>_. dfns_wait_loop D c key_id signature_id deadline))) s"
    for deadline s
    by (subst dfns_wait_loop.simps)
       (auto simp: io_bind_def io_of_def instant_now_def sleep_ms_def split: prod.splits result.splits option.splits)
qed (simp_all only: dfns_poll_query_def dfns_get_json_time dfns_get_json_count SIGN_POLL_INTERVAL_def zero_less_numeral)

text \<open>
  Waiting for a Dfns signature ends after at most 61 queries whatever the provider answers,
  because each repeated round has slept at least 500 ms of the 30 s allowed, and a result is
  returned only from a response in a signed state that carries both signature and public key.
\<close>

theorem dfns_wait_bounded:
  "sent_count (snd (wait_for_signature D c key_id signature_id s)) \<le> sent_count s + 61 \<and>
   (case fst (wait_for_signature D c key_id signature_id s) of
      Ok r \<Rightarrow> \<exists>resp s1 s2. dfns_poll_query D c key_id signature_id s1 = (Ok resp, s2) \<and>
        (sgr_status resp = ''Signed'' \<or> sgr_status resp = ''Confirmed'') \<and>
        sgr_signature resp = Some (sres_signature r) \<and> sgr_public_key resp = Some (sres_public_key r)
    | _ \<Rightarrow> True)"
proof -
  let ?loop = "dfns_wait_loop D c key_id signature_id (net_now s + SIGN_POLL_TIMEOUT) s"
  have eq: "wait_for_signature D c key_id signature_id s = ?loop"
    by (simp add: wait_for_signature_def io_bind_def instant_now_def)
  have "\<exists>resp s1 s2. dfns_poll_query D c key_id signature_id s1 = (Ok resp, s2) \<and>
      (sgr_status resp = ''Signed'' \<or> sgr_status resp = ''Confirmed'') \<and>
      sgr_signature resp = Some (sres_signature r) \<and> sgr_public_key resp = Some (sres_public_key r)"
    if "fst ?loop = Ok r" for r
  proof -
    have "?loop = (Ok r, snd ?loop)" using that by (simp add: prod_eq_iff)
    then obtain y s1 s2 where "dfns_poll_query D c key_id signature_id s1 = (Ok y, s2)"
      and "dfns_sig_decision y = Some (Ok r)"
      using dfns_poll.loop_returns by blast
    thus ?thesis
      by (intro exI[of _ y] exI[of _ s1] exI[of _ s2])
         (auto simp: dfns_sig_decision_def dfns_signed_parts_def result_simps split: if_splits)
  qed
  thus ?thesis
    using dfns_poll.rounds_bounded[of D c key_id signature_id "net_now s + SIGN_POLL_TIMEOUT" s]
    by (auto simp: eq SIGN_POLL_TIMEOUT_def SIGN_POLL_INTERVAL_def split: result.split)
qed

section \<open>User action assertions\<close>

lemma dfns_from_config_key: "dfns_from_config D cfg = Ok c \<Longrightarrow> length (df_signing_key c) = 32"
  by (auto simp: dfns_from_config_def result_simps Let_def split: if_splits)

text \<open>
  (C31) The assertion the engine returns for a challenge is valid for it: its \<open>clientData\<close> decodes to
  the JSON text of the object that names exactly this challenge and origin, and its \<open>signature\<close> decodes to an
  Ed25519 signature of those bytes that the public key of the configured service account
  accepts.
\<close>

theorem dfns_assertion_valid:
  assumes "dfns_from_config D cfg = Ok c" and "b64_laws (de_crates D)" and "ed25519_laws (de_crates D)"
  shows "\<exists>assertion data sig data_bytes sig_bytes.
    json_get ''credentialAssertion'' (first_factor D c challenge origin) = Some assertion \<and>
    json_get ''credId'' assertion = Some (JString (df_cred_id c)) \<and>
    json_get ''clientData'' assertion = Some (JString data) \<and>
    json_get ''signature'' assertion = Some (JString sig) \<and>
    b64_decode (de_crates D) data = Some data_bytes \<and> b64_decode (de_crates D) sig = Some sig_bytes \<and>
    data_bytes = to_vec (de_json D) (JObject [(''type'', JString ''key.get''), (''challenge'', JString challenge),
      (''origin'', JString origin), (''crossOrigin'', JBool False)]) \<and>
    ed_verify (de_crates D) (ed_public (de_crates D) (df_signing_key c)) data_bytes sig_bytes"
  using ed25519_sign_verify(4)[OF assms(3) dfns_from_config_key[OF assms(1)]]
  by (simp add: first_factor_def sign_user_action_def client_data_def Let_def b64_roundtrip[OF assms(2)])

section \<open>State changes are announced\<close>

definition dfns_init_request :: "'h dfns_env \<Rightarrow> DfnsEngine \<Rightarrow> string \<Rightarrow> bytes \<Rightarrow> http_request" where
  "dfns_init_request D c path body =
     \<lparr>hr_method = ''POST'', hr_url = dfns_url c ''/auth/action/init'',
      hr_headers = [(''Authorization'', ''Bearer '' @ df_auth_token c), (''Content-Type'', ''application/json'')],
      hr_body = to_vec (de_init D) \<lparr>iab_http_method = ''POST'', iab_http_path = path,
        iab_payload = text_of body, iab_server_kind = Some ''Api''\<rparr>\<rparr>"

text \<open>The answer to a challenge: the service account's signature of the client data that names it.\<close>

definition dfns_complete_request :: "'h dfns_env \<Rightarrow> DfnsEngine \<Rightarrow> string \<Rightarrow> string \<Rightarrow> http_request" where
  "dfns_complete_request D c challenge ident =
     (let X = de_crates D;
          data = to_vec (de_json D) (JObject [(''type'', JString ''key.get''), (''challenge'', JString challenge),
                   (''origin'', JString ''https://api.dfns.co''), (''crossOrigin'', JBool False)])
      in \<lparr>hr_method = ''POST'', hr_url = dfns_url c ''/auth/action'',
          hr_headers = [(''Authorization'', ''Bearer '' @ df_auth_token c), (''Content-Type'', ''application/json'')],
          hr_body = to_vec (de_complete D) \<lparr>cab_challenge_identifier = ident,
            cab_first_factor = JObject [(''kind'', JString ''Key''),
              (''credentialAssertion'', JObject [(''credId'', JString (df_cred_id c)),
                 (''clientData'', JString (b64_encode X data)),
                 (''signature'', JString (b64_encode X (ed_sign X (df_signing_key c) data)))])]\<rparr>\<rparr>)"

definition dfns_action_request :: "DfnsEngine \<Rightarrow> string \<Rightarrow> bytes \<Rightarrow> string \<Rightarrow> http_request" where
  "dfns_action_request c path body token =
     \<lparr>hr_method = ''POST'', hr_url = dfns_url c path,
      hr_headers = [(''Authorization'', ''Bearer '' @ df_auth_token c), (''X-DFNS-USERACTION'', token),
                    (''Content-Type'', ''application/json'')],
      hr_body = body\<rparr>"

text \<open>
  The exchanges the protocol allows: reads, and a state-changing POST only directly after
  the announcement of its own path and body and the answer to the very challenge the provider
  returned for it, under the identifier it came with, and with the token the provider returned for
  that answer. The two authorisation requests may stand alone when a call fails in between.
\<close>

definition answered :: "'a serde \<Rightarrow> (http_response, reqwest_error) result \<Rightarrow> 'a \<Rightarrow> bool" where
  "answered R a x \<longleftrightarrow> (\<exists>resp b. a = Ok resp \<and> 200 \<le> rs_status resp \<and> rs_status resp < 300 \<and>
     rs_body resp = Ok b \<and> from_slice R b = Some x)"

inductive dfns_authorised ::
  "'h dfns_env \<Rightarrow> DfnsEngine \<Rightarrow> (http_request \<times> (http_response, reqwest_error) result) list \<Rightarrow> bool" for D c where
  empty: "dfns_authorised D c []"
| read: "dfns_authorised D c t \<Longrightarrow> hr_method (fst q) = ''GET'' \<Longrightarrow> dfns_authorised D c (t @ [q])"
| announced: "dfns_authorised D c t \<Longrightarrow> dfns_authorised D c (t @ [(dfns_init_request D c path body, a1)])"
| confirmed: "\<lbrakk>dfns_authorised D c t; answered (de_init_resp D) a1 ir\<rbrakk> \<Longrightarrow>
    dfns_authorised D c (t @ [(dfns_init_request D c path body, a1),
      (dfns_complete_request D c (iar_challenge ir) (iar_challenge_identifier ir), a2)])"
| acted: "\<lbrakk>dfns_authorised D c t; answered (de_init_resp D) a1 ir; answered (de_complete_resp D) a2 cr\<rbrakk> \<Longrightarrow>
    dfns_authorised D c (t @ [(dfns_init_request D c path body, a1),
      (dfns_complete_request D c (iar_challenge ir) (iar_challenge_identifier ir), a2),
      (dfns_action_request c path body (car_user_action cr), a3)])"

lemmas dfns_authorised_append_rules =
  dfns_authorised.read dfns_authorised.announced dfns_authorised.confirmed dfns_authorised.acted

lemma dfns_authorised_append:
  assumes "dfns_authorised D c a" "dfns_authorised D c b"
  shows "dfns_authorised D c (a @ b)"
  using assms(2,1)
  by induction (auto simp flip: append_assoc intro: dfns_authorised_append_rules)

lemma dfns_authorised_reads: "\<forall>q \<in> set qs. hr_method (fst q) = ''GET'' \<Longrightarrow> dfns_authorised D c qs"
  by (induction qs rule: rev_induct) (auto intro: dfns_authorised.intros)

lemmas dfns_authorised_singles =
  dfns_authorised.announced[OF dfns_authorised.empty, simplified]
  dfns_authorised.confirmed[OF dfns_authorised.empty, simplified]
  dfns_authorised.acted[OF dfns_authorised.empty, simplified]

lemma decode_answered: "dfns_decode_response E R resp = Ok x \<Longrightarrow> answered R (Ok resp) x"
  by (auto simp: dfns_decode_response_def answered_def response_json_def result_simps Let_def split: if_splits)

lemma dfns_get_json_reads: "sends (\<lambda>q. hr_method q = ''GET'') (dfns_get_json D c R path)"
  unfolding dfns_get_json_def by (auto intro!: io_intros sends_send)

text \<open>What a plain POST sends and returns, and what obtaining a token sends and returns.\<close>

lemma dfns_post_no_action_log:
  assumes "dfns_post_json_no_action D c B R path body s = (r, s')"
  obtains a where "net_log s' = net_log s @ [(\<lparr>hr_method = ''POST'', hr_url = dfns_url c path,
     hr_headers = [(''Authorization'', ''Bearer '' @ df_auth_token c), (''Content-Type'', ''application/json'')],
     hr_body = to_vec B body\<rparr>, a)]" and "\<And>x. r = Ok x \<Longrightarrow> answered R a x"
proof (rule send_decode_log[OF assms[unfolded dfns_post_json_no_action_def]])
qed (rule that, assumption, metis decode_answered)

lemma dfns_init_log:
  assumes "dfns_post_json_no_action D c (de_init D) (de_init_resp D) ''/auth/action/init''
      \<lparr>iab_http_method = ''POST'', iab_http_path = path, iab_payload = text_of body,
       iab_server_kind = Some ''Api''\<rparr> s = (r, s')"
  obtains a where "net_log s' = net_log s @ [(dfns_init_request D c path body, a)]"
    and "\<And>ir. r = Ok ir \<Longrightarrow> answered (de_init_resp D) a ir"
  by (rule dfns_post_no_action_log[OF assms, folded dfns_init_request_def]) (rule that)

lemma dfns_complete_log:
  assumes "dfns_post_json_no_action D c (de_complete D) (de_complete_resp D) ''/auth/action''
      \<lparr>cab_challenge_identifier = ident, cab_first_factor = first_factor D c challenge ''https://api.dfns.co''\<rparr> s = (r, s')"
  obtains a where "net_log s' = net_log s @ [(dfns_complete_request D c challenge ident, a)]"
    and "\<And>cr. r = Ok cr \<Longrightarrow> answered (de_complete_resp D) a cr"
proof (rule dfns_post_no_action_log[OF assms])
  fix a assume "net_log s' = net_log s @ [(\<lparr>hr_method = ''POST'', hr_url = dfns_url c ''/auth/action'',
     hr_headers = [(''Authorization'', ''Bearer '' @ df_auth_token c), (''Content-Type'', ''application/json'')],
     hr_body = to_vec (de_complete D) \<lparr>cab_challenge_identifier = ident,
       cab_first_factor = first_factor D c challenge ''https://api.dfns.co''\<rparr>\<rparr>, a)]"
    and "\<And>x. r = Ok x \<Longrightarrow> answered (de_complete_resp D) a x"
  thus thesis
    by (intro that[of a])
      (simp_all add: dfns_complete_request_def first_factor_def sign_user_action_def client_data_def Let_def)
qed

lemma user_action_token_log:
  assumes "user_action_token D c ''POST'' path (text_of body) s = (r, s')"
  obtains (announced) a1 where "net_log s' = net_log s @ [(dfns_init_request D c path body, a1)]" "\<not> is_ok r"
  | (confirmed) a1 ir a2 where "answered (de_init_resp D) a1 ir"
      "net_log s' = net_log s @ [(dfns_init_request D c path body, a1),
         (dfns_complete_request D c (iar_challenge ir) (iar_challenge_identifier ir), a2)]"
      "\<And>token. r = Ok token \<Longrightarrow> \<exists>cr. answered (de_complete_resp D) a2 cr \<and> token = car_user_action cr"
proof -
  obtain r1 s1 where 1: "dfns_post_json_no_action D c (de_init D) (de_init_resp D) ''/auth/action/init''
      \<lparr>iab_http_method = ''POST'', iab_http_path = path, iab_payload = text_of body,
       iab_server_kind = Some ''Api''\<rparr> s = (r1, s1)"
    by (rule prod.exhaust)
  obtain a1 where a1: "net_log s1 = net_log s @ [(dfns_init_request D c path body, a1)]"
      "\<And>ir. r1 = Ok ir \<Longrightarrow> answered (de_init_resp D) a1 ir"
    by (rule dfns_init_log[OF 1]) blast
  show ?thesis
  proof (cases r1)
    case (Ok ir)
    obtain r2 s2 where 2: "dfns_post_json_no_action D c (de_complete D) (de_complete_resp D) ''/auth/action''
        \<lparr>cab_challenge_identifier = iar_challenge_identifier ir,
         cab_first_factor = first_factor D c (iar_challenge ir) ''https://api.dfns.co''\<rparr> s1 = (r2, s2)"
      by (rule prod.exhaust)
    obtain a2 where a2: "net_log s2 = net_log s1 @ [(dfns_complete_request D c (iar_challenge ir) (iar_challenge_identifier ir), a2)]"
        "\<And>cr. r2 = Ok cr \<Longrightarrow> answered (de_complete_resp D) a2 cr"
      by (rule dfns_complete_log[OF 2]) blast
    have "s' = s2" "\<And>token. r = Ok token \<Longrightarrow> \<exists>cr. r2 = Ok cr \<and> token = car_user_action cr"
      using assms 1 2 Ok by (cases r2; auto simp: user_action_token_def io_bind_def io_of_def Let_def)+
    thus ?thesis using a1 a2 Ok by (intro confirmed[of a1 ir a2]) auto
  qed (use assms 1 a1 announced in \<open>auto simp: user_action_token_def io_bind_def\<close>)
qed

lemma dfns_post_action_emits: "emits (dfns_authorised D c) (dfns_post_action D c R path body)"
  unfolding emits_def
proof
  fix s
  obtain r s1 where u: "user_action_token D c ''POST'' path (text_of body) s = (r, s1)"
    by (rule prod.exhaust)
  show "\<exists>new. net_log (snd (dfns_post_action D c R path body s)) = net_log s @ new \<and> dfns_authorised D c new"
  proof (cases "is_ok r")
    case True
    then obtain token where r: "r = Ok token" by (auto simp: is_ok_iff)
    obtain a3 where a3: "net_log (snd (dfns_post_action D c R path body s)) =
        net_log s1 @ [(dfns_action_request c path body token, a3)]"
    proof (rule send_decode_log[OF prod.collapse[symmetric]])
      fix a assume "net_log (snd (io_bind (http_send (de_http D) (dfns_action_request c path body token))
          (\<lambda>resp. io_of (dfns_decode_response (de_http D) R resp)) s1)) =
        net_log s1 @ [(dfns_action_request c path body token, a)]"
      thus thesis by (intro that[of a]) (simp add: dfns_post_action_def io_bind_def u r dfns_action_request_def)
    qed
    from u show ?thesis
    proof (cases rule: user_action_token_log)
      case (confirmed a1 ir a2)
      then obtain cr where "answered (de_complete_resp D) a2 cr" "token = car_user_action cr" using r by blast
      with confirmed a3 dfns_authorised_singles(3) show ?thesis by fastforce
    qed (use r in simp)
  next
    case False
    hence "snd (dfns_post_action D c R path body s) = s1"
      by (cases r) (simp_all add: dfns_post_action_def io_bind_def u)
    with u show ?thesis by (cases rule: user_action_token_log) (auto intro: dfns_authorised_singles)
  qed
qed

lemma dfns_get_json_emits: "emits (dfns_authorised D c) (dfns_get_json D c R path)"
  by (rule emits_sends[OF dfns_get_json_reads dfns_authorised_reads])

lemma dfns_basic_emits: "emits (dfns_authorised D c) (io_of r)" "emits (dfns_authorised D c) io_uuid"
  by (auto intro!: emits_sends[OF _ dfns_authorised_reads] io_intros)

lemma wait_for_signature_emits: "emits (dfns_authorised D c) (wait_for_signature D c k i)"
  unfolding wait_for_signature_def
  by (rule emits_sends[OF _ dfns_authorised_reads])
     (auto intro!: io_intros dfns_poll.loop_sends simp: dfns_poll_query_def dfns_get_json_reads)

lemma dfns_try_key_emits: "emits (dfns_authorised D c) (dfns_try_key D c k)"
proof -
  have "snd (dfns_try_key D c k s) = snd (dfns_get_json D c (de_key D) (''/keys/'' @ k) s)" for s
    by (auto simp: dfns_try_key_def split: prod.split result.split EngineError.split)
  thus ?thesis using dfns_get_json_emits unfolding emits_def by metis
qed

lemmas dfns_emits = dfns_post_action_emits dfns_get_json_emits dfns_basic_emits
  wait_for_signature_emits dfns_try_key_emits

lemma dfns_emits_bind:
  "emits (dfns_authorised D c) m \<Longrightarrow> (\<And>x. emits (dfns_authorised D c) (f x)) \<Longrightarrow>
   emits (dfns_authorised D c) (io_bind m f)"
  by (rule emits_bind) (auto intro: dfns_authorised_append)

text \<open>
  (C27) Whatever the Dfns engine exchanges with the provider, in any operation and on any error branch,
  is authorised: a state-changing POST is sent only directly after its own path and body have been
  announced; the challenge that the provider returned to that announcement has been answered with
  the service account's signature of the client data naming that challenge, under the identifier
  it came with; and the POST carries the token the provider returned to that answer. Everything
  else is a read.
\<close>

theorem dfns_state_changes_announced:
  "emits (dfns_authorised D c) (eng_sign (dfns_engine K D c) req) \<and>
   emits (dfns_authorised D c) (eng_dkg (dfns_engine K D c) params) \<and>
   emits (dfns_authorised D c) (eng_rotate_key (dfns_engine K D c) key_id) \<and>
   emits (dfns_authorised D c) (eng_get_key_metadata (dfns_engine K D c) key_id) \<and>
   emits (dfns_authorised D c) (eng_restore_share (dfns_engine K D c) restore)"
  unfolding dfns_engine_def SigningEngine.simps
  by (intro conjI)
     (auto simp: dfns_sign_def dfns_dkg_def dfns_rotate_key_def dfns_get_key_metadata_def
        dfns_restore_share_def dfns_post_json_def split: option.split
        intro!: dfns_emits_bind dfns_emits)

definition demo_dfns_config :: Config where
  "demo_dfns_config = config_default\<lparr>custody_provider := Dfns, custody_api_key := Some ''token'',
     custody_service_account_key := Some ''cr-1'',
     custody_service_account_secret := Some (demo_encode (replicate 32 7))\<rparr>"

definition demo_dfns_env :: "unit dfns_env" where
  "demo_dfns_env = \<lparr>de_http = demo_http, de_crates = demo_crates, de_hex_error = (\<lambda>_. []),
     de_json = const_serde JNull,
     de_wallet = const_serde \<lparr>wr_status = ''Active'', wr_signing_key =
       \<lparr>sk_id = ''key-1'', sk_public_key = demo_encode (replicate 32 9)\<rparr>\<rparr>,
     de_key = const_serde \<lparr>kr_status = ''Active'', kr_public_key = demo_encode (replicate 32 9)\<rparr>,
     de_sig_body = const_serde \<lparr>sb_kind = [], sb_hash = None, sb_message = None, sb_blockchain_kind = None\<rparr>,
     de_sig_resp = const_serde \<lparr>sgr_id = ''sig-1'', sgr_status = ''Signed'', sgr_reason = None,
       sgr_signature = Some \<lparr>se_encoded = demo_encode (pad_to 64 [1, 2, 3])\<rparr>,
       sgr_public_key = Some (demo_encode (replicate 32 9))\<rparr>,
     de_init = const_serde \<lparr>iab_http_method = [], iab_http_path = [], iab_payload = [], iab_server_kind = None\<rparr>,
     de_init_resp = const_serde \<lparr>iar_challenge = ''ch'', iar_challenge_identifier = ''id''\<rparr>,
     de_complete = const_serde \<lparr>cab_challenge_identifier = [], cab_first_factor = JNull\<rparr>,
     de_complete_resp = const_serde \<lparr>car_user_action = ''ua-1''\<rparr>\<rparr>"

definition demo_dfns :: DfnsEngine where
  "demo_dfns = \<lparr>df_base_url = DFNS_API_BASE, df_auth_token = ''token'', df_cred_id = ''cr-1'',
     df_signing_key = replicate 32 7\<rparr>"

lemma demo_dfns_from_config: "dfns_from_config demo_dfns_env demo_dfns_config = Ok demo_dfns"
  by (simp add: dfns_from_config_def demo_dfns_env_def demo_dfns_config_def demo_dfns_def config_default_def
        demo_crates_def demo_roundtrip demo_http_def del: demo_decode.simps)

theorem dfns_assertion_valid_witness:
  "\<exists>assertion data sig data_bytes sig_bytes.
    json_get ''credentialAssertion'' (first_factor demo_dfns_env demo_dfns ''ch'' ''o'') = Some assertion \<and>
    json_get ''credId'' assertion = Some (JString (df_cred_id demo_dfns)) \<and>
    json_get ''clientData'' assertion = Some (JString data) \<and>
    json_get ''signature'' assertion = Some (JString sig) \<and>
    b64_decode (de_crates demo_dfns_env) data = Some data_bytes \<and>
    b64_decode (de_crates demo_dfns_env) sig = Some sig_bytes \<and>
    data_bytes = to_vec (de_json demo_dfns_env) (JObject [(''type'', JString ''key.get''), (''challenge'', JString ''ch''),
      (''origin'', JString ''o''), (''crossOrigin'', JBool False)]) \<and>
    ed_verify (de_crates demo_dfns_env) (ed_public (de_crates demo_dfns_env) (df_signing_key demo_dfns))
      data_bytes sig_bytes"
  by (rule dfns_assertion_valid[OF demo_dfns_from_config]) (simp_all add: demo_dfns_env_def)

end
