(* ===== verification/Turnkey_Engine.thy ===== *)
theory Turnkey_Engine
  imports Custody Config
begin

text \<open>
  \<open>src/engine/turnkey.rs\<close>: the Turnkey adapter. Every call is a POST stamped with a secp256k1
  signature over its body; activities that are not complete at once are polled a fixed number
  of times.
\<close>

section \<open>Text\<close>

text \<open>
  \<open>str::trim\<close> on the UTF-8 bytes of a text: the code points with the \<open>White_Space\<close> property have one,
  two or three bytes. The end is trimmed on the reversed text.
\<close>

definition ws1 :: "char \<Rightarrow> bool" where
  "ws1 a = (let n = (of_char a :: nat) in 9 \<le> n \<and> n \<le> 13 \<or> n = 32)"

definition ws2 :: "char \<Rightarrow> char \<Rightarrow> bool" where
  "ws2 a b = ((of_char a :: nat) = 0xC2 \<and> (of_char b :: nat) \<in> {0x85, 0xA0})"

definition ws3 :: "char \<Rightarrow> char \<Rightarrow> char \<Rightarrow> bool" where
  "ws3 a b c =
     (let x = (of_char a :: nat); y = (of_char b :: nat); z = (of_char c :: nat)
      in x = 0xE1 \<and> y = 0x9A \<and> z = 0x80 \<or>
         x = 0xE2 \<and> y = 0x80 \<and> (0x80 \<le> z \<and> z \<le> 0x8A \<or> z = 0xA8 \<or> z = 0xA9 \<or> z = 0xAF) \<or>
         x = 0xE2 \<and> y = 0x81 \<and> z = 0x9F \<or> x = 0xE3 \<and> y = 0x80 \<and> z = 0x80)"

fun drop_ws :: "(char \<Rightarrow> char \<Rightarrow> bool) \<Rightarrow> (char \<Rightarrow> char \<Rightarrow> char \<Rightarrow> bool) \<Rightarrow> string \<Rightarrow> string" where
  "drop_ws w2 w3 (a # b # c # s) =
     (if ws1 a then drop_ws w2 w3 (b # c # s)
      else if w2 a b then drop_ws w2 w3 (c # s)
      else if w3 a b c then drop_ws w2 w3 s
      else a # b # c # s)"
| "drop_ws w2 w3 [a, b] = (if ws1 a then drop_ws w2 w3 [b] else if w2 a b then [] else [a, b])"
| "drop_ws w2 w3 [a] = (if ws1 a then [] else [a])"
| "drop_ws w2 w3 [] = []"

definition trim :: "string \<Rightarrow> string" where
  "trim s = rev (drop_ws (\<lambda>a b. ws2 b a) (\<lambda>a b c. ws3 c b a) (rev (drop_ws ws2 ws3 s)))"

definition eq_ignore_ascii_case :: "string \<Rightarrow> string \<Rightarrow> bool" where
  "eq_ignore_ascii_case a b \<longleftrightarrow> to_ascii_lowercase a = to_ascii_lowercase b"

section \<open>Wire shapes and state\<close>

record StampEnvelope =
  sv_public_key :: string
  sv_signature :: string
  sv_scheme :: string

record Activity =
  act_id :: string
  act_status :: string
  act_result :: "json option"

record ActivityEnvelope =
  ae_activity :: Activity

record WalletAccountParams =
  wap_curve :: string
  wap_path_format :: string
  wap_path :: string
  wap_address_format :: string

record CreateWalletParams =
  cwp_wallet_name :: string
  cwp_accounts :: "WalletAccountParams list"

record CreateWalletBody =
  cwb_activity_type :: string
  cwb_timestamp_ms :: string
  cwb_organization_id :: string
  cwb_parameters :: CreateWalletParams

record GetActivityBody =
  gab_organization_id :: string
  gab_activity_id :: string

record SignRawPayloadParams =
  spp_sign_with :: string
  spp_payload :: string
  spp_encoding :: string
  spp_hash_function :: string

record SignRawPayloadBody =
  spb_activity_type :: string
  spb_timestamp_ms :: string
  spb_organization_id :: string
  spb_parameters :: SignRawPayloadParams

record GetWalletAccountBody =
  gwb_organization_id :: string
  gwb_wallet_id :: string

record WalletAccount =
  wac_address :: string
  wac_public_key :: "string option"
  wac_curve :: string
  wac_path :: string

record GetWalletAccountResp =
  gwr_account :: WalletAccount

record RawSignature =
  rsig_r :: bytes
  rsig_s :: bytes

record TurnkeyEngine =
  tk_base_url :: string
  tk_organization_id :: string
  tk_sub_organization_id :: "string option"
  tk_api_public_key :: string
  tk_api_private_key :: bytes

text \<open>
  The client, the crates and the codecs. Of k256: \<open>SigningKey::from_slice\<close>, the SEC1 bytes of the
  verifying key, and the DER bytes of a signature over the SHA-256 digest of a message.
\<close>

record 'h turnkey_env =
  tke_http :: "'h http_env"
  tke_crates :: crates
  tke_hex_error :: "string \<Rightarrow> string"
  tke_from_slice :: "bytes \<Rightarrow> (bytes, string) result"
  tke_public_sec1 :: "bytes \<Rightarrow> bytes"
  tke_sign_digest_der :: "bytes \<Rightarrow> bytes \<Rightarrow> bytes"
  tke_stamp :: "StampEnvelope serde"
  tke_activity :: "ActivityEnvelope serde"
  tke_create :: "CreateWalletBody serde"
  tke_get_activity :: "GetActivityBody serde"
  tke_sign_raw :: "SignRawPayloadBody serde"
  tke_get_account :: "GetWalletAccountBody serde"
  tke_account_resp :: "GetWalletAccountResp serde"

definition TK_DEFAULT_API_BASE :: string where "TK_DEFAULT_API_BASE = ''https://api.turnkey.com''"

definition TK_COMPLETED :: string where "TK_COMPLETED = ''ACTIVITY_STATUS_COMPLETED''"

definition TK_FAILED :: string where "TK_FAILED = ''ACTIVITY_STATUS_FAILED''"

section \<open>Construction\<close>

definition parse_secp256k1_signing_key :: "'h turnkey_env \<Rightarrow> string \<Rightarrow> (bytes, string) result" where
  "parse_secp256k1_signing_key T hex_or_pem =
     (let trimmed = trim hex_or_pem
      in if strip_prefix ''-----BEGIN'' trimmed \<noteq> None
         then Err ''PEM-encoded secp256k1 keys are not supported; provide raw hex''
         else and_then (ok_or (hex_decode (tke_crates T) trimmed)
                (''non-hex private key: '' @ tke_hex_error T trimmed)) (\<lambda>b.
              map_err (\<lambda>e. ''invalid secp256k1 private key: '' @ e) (tke_from_slice T b)))"

definition turnkey_from_config :: "'h turnkey_env \<Rightarrow> Config \<Rightarrow> (TurnkeyEngine, string) result" where
  "turnkey_from_config T cfg =
     (let base_url = (case custody_api_url cfg of Some s \<Rightarrow> s | None \<Rightarrow> TK_DEFAULT_API_BASE)
      in and_then (ok_or (custody_organization_id cfg) ''CUSTODY_ORGANIZATION_ID required for turnkey'')
           (\<lambda>organization_id.
         and_then (ok_or (custody_api_key cfg) ''CUSTODY_API_KEY required for turnkey'') (\<lambda>api_public_key.
         and_then (ok_or (custody_api_private_key cfg) ''CUSTODY_API_PRIVATE_KEY required for turnkey'')
           (\<lambda>api_private_key_hex.
         and_then (map_err (\<lambda>e. ''invalid CUSTODY_API_PRIVATE_KEY: '' @ e)
             (parse_secp256k1_signing_key T api_private_key_hex)) (\<lambda>api_private_key.
         let derived_pub = hex_encode (tke_crates T) (tke_public_sec1 T api_private_key)
         in if \<not> eq_ignore_ascii_case derived_pub api_public_key
            then Err ''CUSTODY_API_KEY does not match the public key derived from CUSTODY_API_PRIVATE_KEY''
            else if \<not> is_ok (he_build (tke_http T)) then Panic
            else Ok \<lparr>tk_base_url = trim_end_matches CHR ''/'' base_url,
                     tk_organization_id = organization_id,
                     tk_sub_organization_id = custody_sub_organization_id cfg,
                     tk_api_public_key = api_public_key,
                     tk_api_private_key = api_private_key\<rparr>)))))"

definition effective_org :: "TurnkeyEngine \<Rightarrow> string" where
  "effective_org c =
     (case tk_sub_organization_id c of Some s \<Rightarrow> s | None \<Rightarrow> tk_organization_id c)"

section \<open>Stamped calls\<close>

definition stamp_request :: "'h turnkey_env \<Rightarrow> bytes \<Rightarrow> string \<Rightarrow> bytes \<Rightarrow> string" where
  "stamp_request T signing_key public_key_hex body =
     (let der = tke_sign_digest_der T signing_key body;
          envelope = \<lparr>sv_public_key = public_key_hex, sv_signature = hex_encode (tke_crates T) der,
                      sv_scheme = ''SIGNATURE_SCHEME_TK_API_SECP256K1''\<rparr>
      in b64_encode (tke_crates T) (to_vec (tke_stamp T) envelope))"

definition tk_decode_response ::
  "'h http_env \<Rightarrow> 'r serde \<Rightarrow> http_response \<Rightarrow> ('r, EngineError) result" where
  "tk_decode_response E R resp =
     (let status = rs_status resp; shown = he_status_display E status
      in if status = 404 then Err (KeyNotFound ''turnkey reports unknown key'')
         else if status = 403 \<or> status = 401 then Err (EngineDenied (''turnkey rejected request: '' @ shown))
         else if 500 \<le> status \<and> status < 600 then Err (ProviderUnavailable (''turnkey error: '' @ shown))
         else if \<not> (200 \<le> status \<and> status < 300) then Err (Transient (''turnkey returned '' @ shown))
         else map_err (\<lambda>e. EngineInternal (''turnkey response decode: '' @ e)) (response_json R resp))"

definition tk_rpc ::
  "'h turnkey_env \<Rightarrow> TurnkeyEngine \<Rightarrow> 'b serde \<Rightarrow> 'r serde \<Rightarrow> string \<Rightarrow> string \<Rightarrow> 'b \<Rightarrow> ('r, 'h) io" where
  "tk_rpc T c B R prefix endpoint body =
     (let raw = to_vec B body;
          stamp = stamp_request T (tk_api_private_key c) (tk_api_public_key c) raw
      in io_bind (http_send (tke_http T) \<lparr>hr_method = ''POST'',
           hr_url = tk_base_url c @ ''/public/v1/'' @ prefix @ ''/'' @ endpoint,
           hr_headers = [(''Content-Type'', ''application/json''), (''Accept'', ''application/json''),
                         (''X-Stamp'', stamp)],
           hr_body = raw\<rparr>)
         (\<lambda>resp. io_of (tk_decode_response (tke_http T) R resp)))"

definition tk_query ::
  "'h turnkey_env \<Rightarrow> TurnkeyEngine \<Rightarrow> 'b serde \<Rightarrow> 'r serde \<Rightarrow> string \<Rightarrow> 'b \<Rightarrow> ('r, 'h) io" where
  "tk_query T c B R endpoint body = tk_rpc T c B R ''query'' endpoint body"

text \<open>The rounds that are left, of the 60 the source allows.\<close>

fun tk_poll_rounds ::
  "'h turnkey_env \<Rightarrow> TurnkeyEngine \<Rightarrow> string \<Rightarrow> GetActivityBody \<Rightarrow> nat \<Rightarrow> (ActivityEnvelope, 'h) io" where
  "tk_poll_rounds T c activity_id body 0 =
     io_of (Err (ProviderUnavailable (''turnkey activity '' @ activity_id @ '' timed out'')))"
| "tk_poll_rounds T c activity_id body (Suc n) =
     io_bind (tk_query T c (tke_get_activity T) (tke_activity T) ''get_activity'' body) (\<lambda>env.
     if act_status (ae_activity env) = TK_COMPLETED then io_of (Ok env)
     else if act_status (ae_activity env) = TK_FAILED
     then io_of (Err (EngineInternal (''turnkey activity '' @ activity_id @ '' failed'')))
     else io_bind (sleep_ms 500) (\<lambda>_. tk_poll_rounds T c activity_id body n))"

definition tk_poll_activity ::
  "'h turnkey_env \<Rightarrow> TurnkeyEngine \<Rightarrow> string \<Rightarrow> (ActivityEnvelope, 'h) io" where
  "tk_poll_activity T c activity_id =
     tk_poll_rounds T c activity_id
       \<lparr>gab_organization_id = effective_org c, gab_activity_id = activity_id\<rparr> 60"

definition tk_submit_and_wait ::
  "'h turnkey_env \<Rightarrow> TurnkeyEngine \<Rightarrow> 'b serde \<Rightarrow> string \<Rightarrow> 'b \<Rightarrow> (ActivityEnvelope, 'h) io" where
  "tk_submit_and_wait T c B endpoint body =
     io_bind (tk_rpc T c B (tke_activity T) ''submit'' endpoint body) (\<lambda>env.
     if act_status (ae_activity env) = TK_COMPLETED then io_of (Ok env)
     else tk_poll_activity T c (act_id (ae_activity env)))"

definition chain_params :: "Chain \<Rightarrow> string \<times> string" where
  "chain_params chain =
     (case scheme chain of
        EcdsaSecp256k1 \<Rightarrow> (''CURVE_SECP256K1'', ''m/44'' @ [CHR 0x27] @ ''/60'' @ [CHR 0x27] @ ''/0'' @ [CHR 0x27] @ ''/0/0'')
      | Ed25519Scheme \<Rightarrow> (''CURVE_ED25519'',
          ''m/44'' @ [CHR 0x27] @ ''/501'' @ [CHR 0x27] @ ''/0'' @ [CHR 0x27] @ ''/0'' @ [CHR 0x27]))"

section \<open>Results of activities\<close>

definition extract_sign_raw_payload_result ::
  "crates \<Rightarrow> ActivityEnvelope \<Rightarrow> RawSignature option" where
  "extract_sign_raw_payload_result X env =
     Option.bind (act_result (ae_activity env)) (\<lambda>result.
     Option.bind (json_get ''signRawPayloadResult'' result) (\<lambda>rp.
     Option.bind (Option.bind (json_get ''r'' rp) json_as_str) (\<lambda>r_hex.
     Option.bind (Option.bind (json_get ''s'' rp) json_as_str) (\<lambda>s_hex.
     Option.bind (hex_decode X r_hex) (\<lambda>r.
     Option.bind (hex_decode X s_hex) (\<lambda>s.
     Some \<lparr>rsig_r = r, rsig_s = s\<rparr>))))))"

definition extract_create_wallet_result :: "ActivityEnvelope \<Rightarrow> (string \<times> string) option" where
  "extract_create_wallet_result env =
     Option.bind (act_result (ae_activity env)) (\<lambda>result.
     Option.bind (json_get ''createWalletResult'' result) (\<lambda>cw.
     Option.bind (Option.bind (json_get ''walletId'' cw) json_as_str) (\<lambda>wallet_id.
     Option.bind (Option.bind (json_get ''addresses'' cw) json_as_array) (\<lambda>addresses.
     Option.bind (case addresses of [] \<Rightarrow> None | a # _ \<Rightarrow> json_as_str a) (\<lambda>address.
     Some (wallet_id, address))))))"

definition timestamp_ms :: "(string, 'h) io" where
  "timestamp_ms =
     io_bind system_millis (\<lambda>m. io_of (Ok (show_nat (case m of Some d \<Rightarrow> d | None \<Rightarrow> 0))))"

section \<open>The engine\<close>

definition tk_fetch_wallet_account ::
  "'h turnkey_env \<Rightarrow> TurnkeyEngine \<Rightarrow> KeyId \<Rightarrow> (WalletAccount, 'h) io" where
  "tk_fetch_wallet_account T c key_id =
     io_bind (tk_query T c (tke_get_account T) (tke_account_resp T) ''get_wallet_account''
        \<lparr>gwb_organization_id = effective_org c, gwb_wallet_id = key_id\<rparr>) (\<lambda>resp.
     io_of (Ok (gwr_account resp)))"

definition tk_account_key :: "'h turnkey_env \<Rightarrow> WalletAccount \<Rightarrow> (bytes, EngineError) result" where
  "tk_account_key T account =
     and_then (ok_or (wac_public_key account) (EngineInternal ''turnkey returned no public key'')) (\<lambda>pk.
     decode_hex_or (tke_crates T) pk ''turnkey returned non-hex public key'')"

definition tk_fetch_public_key ::
  "'h turnkey_env \<Rightarrow> TurnkeyEngine \<Rightarrow> string \<Rightarrow> string \<Rightarrow> (bytes, 'h) io" where
  "tk_fetch_public_key T c wallet_id address =
     io_bind (tk_query T c (tke_get_account T) (tke_account_resp T) ''get_wallet_account''
        \<lparr>gwb_organization_id = effective_org c, gwb_wallet_id = wallet_id\<rparr>) (\<lambda>resp.
     io_of (tk_account_key T (gwr_account resp)))"

definition tk_raw_signature :: "Chain \<Rightarrow> RawSignature \<Rightarrow> bytes" where
  "tk_raw_signature chain r_s =
     (case scheme chain of
        EcdsaSecp256k1 \<Rightarrow> rsig_r r_s @ rsig_s r_s
      | Ed25519Scheme \<Rightarrow> if rsig_s r_s \<noteq> [] then rsig_r r_s @ rsig_s r_s else rsig_r r_s)"

definition tk_sign ::
  "('s, 'p) k256 \<Rightarrow> 'h turnkey_env \<Rightarrow> TurnkeyEngine \<Rightarrow> EngineSignRequest \<Rightarrow> (EngineSignature, 'h) io" where
  "tk_sign K T c req =
     io_bind (tk_fetch_wallet_account T c (er_key_id req)) (\<lambda>account.
     io_bind (io_of (tk_account_key T account)) (\<lambda>public_key.
     io_bind timestamp_ms (\<lambda>ts.
     let hash_function = (case scheme (er_chain req) of
           EcdsaSecp256k1 \<Rightarrow> ''HASH_FUNCTION_NO_OP'' | Ed25519Scheme \<Rightarrow> ''HASH_FUNCTION_NOT_APPLICABLE'');
         body = \<lparr>spb_activity_type = ''ACTIVITY_TYPE_SIGN_RAW_PAYLOAD_V2'', spb_timestamp_ms = ts,
           spb_organization_id = effective_org c,
           spb_parameters = \<lparr>spp_sign_with = wac_address account,
             spp_payload = hex_encode (tke_crates T) (er_payload req),
             spp_encoding = ''PAYLOAD_ENCODING_HEXADECIMAL'', spp_hash_function = hash_function\<rparr>\<rparr>
     in io_bind (tk_submit_and_wait T c (tke_sign_raw T) ''sign_raw_payload'' body) (\<lambda>result.
        io_bind (io_of (ok_or (extract_sign_raw_payload_result (tke_crates T) result)
          (EngineInternal ''turnkey missing signRawPayloadResult''))) (\<lambda>r_s.
        let signature = tk_raw_signature (er_chain req) r_s
        in io_bind (io_of (verify_signature K (tke_crates T) (er_chain req) (er_payload req)
             signature public_key)) (\<lambda>_.
           io_of (Ok \<lparr>es_signature = signature, es_public_key = public_key\<rparr>)))))))"

definition tk_create_wallet ::
  "'h turnkey_env \<Rightarrow> TurnkeyEngine \<Rightarrow> string \<Rightarrow> string \<Rightarrow> string \<Rightarrow> (string \<Rightarrow> string) \<Rightarrow>
   (string \<times> string, 'h) io" where
  "tk_create_wallet T c curve path address_format wallet_name =
     io_bind timestamp_ms (\<lambda>ts.
     io_bind io_uuid (\<lambda>u.
     io_bind (tk_submit_and_wait T c (tke_create T) ''create_wallet''
        \<lparr>cwb_activity_type = ''ACTIVITY_TYPE_CREATE_WALLET'', cwb_timestamp_ms = ts,
         cwb_organization_id = effective_org c,
         cwb_parameters = \<lparr>cwp_wallet_name = wallet_name u,
           cwp_accounts = [\<lparr>wap_curve = curve, wap_path_format = ''PATH_FORMAT_BIP32'',
             wap_path = path, wap_address_format = address_format\<rparr>]\<rparr>\<rparr>) (\<lambda>result.
     io_of (ok_or (extract_create_wallet_result result)
        (EngineInternal ''turnkey missing createWalletResult'')))))"

definition tk_dkg :: "'h turnkey_env \<Rightarrow> TurnkeyEngine \<Rightarrow> DkgParams \<Rightarrow> (DkgOutcome, 'h) io" where
  "tk_dkg T c p =
     (let (curve, path) = chain_params (dp_chain p);
          address_format = (case scheme (dp_chain p) of
            EcdsaSecp256k1 \<Rightarrow> ''ADDRESS_FORMAT_ETHEREUM'' | Ed25519Scheme \<Rightarrow> ''ADDRESS_FORMAT_SOLANA'')
      in io_bind (tk_create_wallet T c curve path address_format (\<lambda>u. ''key-'' @ u)) (\<lambda>(wallet_id, address).
         io_bind (tk_fetch_public_key T c wallet_id address) (\<lambda>public_key.
         io_of (Ok \<lparr>do_key_id = wallet_id, do_public_key = public_key\<rparr>))))"

definition tk_rotate_key :: "'h turnkey_env \<Rightarrow> TurnkeyEngine \<Rightarrow> KeyId \<Rightarrow> (RotateOutcome, 'h) io" where
  "tk_rotate_key T c key_id =
     (let (curve, path) = chain_params Evm
      in io_bind (tk_create_wallet T c curve path ''ADDRESS_FORMAT_ETHEREUM''
           (\<lambda>u. ''key-'' @ u @ ''-rotated'')) (\<lambda>(wallet_id, address).
         io_bind (tk_fetch_public_key T c wallet_id address) (\<lambda>public_key.
         io_of (Ok \<lparr>ro_key_id = wallet_id, ro_public_key = public_key, ro_epoch = 0\<rparr>))))"

definition tk_get_key_metadata :: "'h turnkey_env \<Rightarrow> TurnkeyEngine \<Rightarrow> KeyId \<Rightarrow> (KeyMetadata, 'h) io" where
  "tk_get_key_metadata T c key_id =
     io_bind (tk_fetch_wallet_account T c key_id) (\<lambda>account.
     io_bind (io_of (tk_account_key T account)) (\<lambda>public_key.
     io_bind (io_of (if wac_curve account = ''CURVE_SECP256K1'' then Ok Evm
                     else if wac_curve account = ''CURVE_ED25519'' then Ok Solana
                     else Err (Unsupported (''turnkey curve '' @ wac_curve account @ '' not mapped'')))) (\<lambda>chain.
     io_of (Ok \<lparr>km_key_id = key_id, km_chain = chain, km_public_key = public_key,
                km_status = Active, km_epoch = 0\<rparr>))))"

definition tk_restore_share :: "RestoreParams \<Rightarrow> (bool, 'h) io" where
  "tk_restore_share p =
     io_of (Err (Unsupported ''Turnkey manages key shares in enclaves; restore is not applicable''))"

definition turnkey_engine ::
  "('s, 'p) k256 \<Rightarrow> 'h turnkey_env \<Rightarrow> TurnkeyEngine \<Rightarrow> 'h net SigningEngine" where
  "turnkey_engine K T c = \<lparr>eng_sign = tk_sign K T c, eng_dkg = tk_dkg T c,
     eng_rotate_key = tk_rotate_key T c, eng_get_key_metadata = tk_get_key_metadata T c,
     eng_restore_share = tk_restore_share\<rparr>"

section \<open>Signatures are verified\<close>

lemma tk_sign_verified:
  "returns (tk_sign K T c req)
     (\<lambda>s. provider_accepts K (tke_crates T) (er_chain req) (er_payload req) (es_signature s) (es_public_key s))"
  unfolding tk_sign_def Let_def by (intro returns_bind_last returns_verified)

interpretation turnkey: verified_engine "tk_sign K T c" "provider_accepts K (tke_crates T)" "\<lambda>_. True"
  for K T c
  by unfold_locales (auto dest: returnsD[OF tk_sign_verified])

section \<open>Requests are stamped\<close>

definition tk_stamped :: "'h turnkey_env \<Rightarrow> TurnkeyEngine \<Rightarrow> http_request \<Rightarrow> bool" where
  "tk_stamped T c q \<longleftrightarrow>
     hr_method q = ''POST'' \<and>
     (\<exists>stamp. (''X-Stamp'', b64_encode (tke_crates T) (to_vec (tke_stamp T) stamp)) \<in> set (hr_headers q) \<and>
        sv_public_key stamp = tk_api_public_key c \<and>
        sv_signature stamp =
          hex_encode (tke_crates T) (tke_sign_digest_der T (tk_api_private_key c) (hr_body q)))"

lemma tk_rpc_sends [io_intros]: "sends (tk_stamped T c) (tk_rpc T c B R prefix endpoint body)"
  unfolding tk_rpc_def Let_def stamp_request_def
  by (intro io_intros sends_send) (auto simp: tk_stamped_def)

lemma tk_query_sends [io_intros]: "sends (tk_stamped T c) (tk_query T c B R endpoint body)"
  unfolding tk_query_def by (rule tk_rpc_sends)

lemma tk_poll_rounds_sends [io_intros]: "sends (tk_stamped T c) (tk_poll_rounds T c i body n)"
  by (induction n) (auto intro!: io_intros)

lemma tk_submit_sends [io_intros]: "sends (tk_stamped T c) (tk_submit_and_wait T c B endpoint body)"
  unfolding tk_submit_and_wait_def tk_poll_activity_def by (auto intro!: io_intros)

lemma timestamp_ms_sends [io_intros]: "sends P timestamp_ms"
  unfolding timestamp_ms_def by (intro io_intros)

lemma tk_account_sends [io_intros]:
  "sends (tk_stamped T c) (tk_fetch_wallet_account T c k)"
  "sends (tk_stamped T c) (tk_fetch_public_key T c k a)"
  "sends (tk_stamped T c) (tk_create_wallet T c curve path fmt name)"
  unfolding tk_fetch_wallet_account_def tk_fetch_public_key_def tk_create_wallet_def
  by (intro io_intros)+

lemma turnkey_from_config_key:
  "turnkey_from_config T cfg = Ok c \<Longrightarrow>
   eq_ignore_ascii_case (hex_encode (tke_crates T) (tke_public_sec1 T (tk_api_private_key c))) (tk_api_public_key c)"
  by (auto simp: turnkey_from_config_def result_simps Let_def split: if_splits)

text \<open>
  (C29) Every request of a configured Turnkey engine, in any operation and every polling round, is a
  POST that carries a stamp for itself: a signature by the API private key over the very body
  it sends, under the configured public key, which is the hex form of the key derived from that
  private key up to letter case.
\<close>

theorem turnkey_requests_stamped:
  assumes "turnkey_from_config T cfg = Ok c"
  shows "sends (tk_stamped T c) (eng_sign (turnkey_engine K T c) req) \<and>
    sends (tk_stamped T c) (eng_dkg (turnkey_engine K T c) params) \<and>
    sends (tk_stamped T c) (eng_rotate_key (turnkey_engine K T c) key_id) \<and>
    sends (tk_stamped T c) (eng_get_key_metadata (turnkey_engine K T c) key_id) \<and>
    sends (tk_stamped T c) (eng_restore_share (turnkey_engine K T c) restore) \<and>
    to_ascii_lowercase (tk_api_public_key c) =
      to_ascii_lowercase (hex_encode (tke_crates T) (tke_public_sec1 T (tk_api_private_key c)))"
  using turnkey_from_config_key[OF assms]
  unfolding turnkey_engine_def SigningEngine.simps eq_ignore_ascii_case_def
  by (intro conjI)
     (auto simp: tk_sign_def tk_dkg_def tk_rotate_key_def tk_get_key_metadata_def tk_restore_share_def
        Let_def split: prod.split intro!: io_intros)

section \<open>Polling\<close>

lemma tk_query_count: "sends_at_most 1 (tk_query T c B R endpoint body)"
  unfolding tk_query_def tk_rpc_def Let_def
  by (intro sends_at_most_bind[where i = 1 and j = 0] sends_at_most_basic) simp_all

lemma sends_at_most_mono: "sends_at_most i m \<Longrightarrow> i \<le> j \<Longrightarrow> sends_at_most j m"
  unfolding sends_at_most_def by (meson add_left_mono order_trans)

lemma tk_poll_rounds_count: "sends_at_most n (tk_poll_rounds T c i body n)"
proof (induction n)
  case (Suc n)
  have "sends_at_most n (io_bind (sleep_ms 500) (\<lambda>_. tk_poll_rounds T c i body n))"
    by (rule sends_at_most_bind[OF sends_at_most_basic(2) Suc]) simp
  moreover have "sends_at_most n (io_of r)" for r :: "(ActivityEnvelope, EngineError) result"
    by (rule sends_at_most_mono[OF sends_at_most_basic(1)]) simp
  ultimately show ?case
    by (auto intro!: sends_at_most_bind[where j = n, OF tk_query_count])
qed (simp add: sends_at_most_basic)

lemma tk_poll_rounds_returns:
  "returns (tk_poll_rounds T c i body n) (\<lambda>env. act_status (ae_activity env) = TK_COMPLETED)"
  by (induction n) (auto intro!: returns_bind_last returns_of)

lemma tk_submit_completed:
  "returns (tk_submit_and_wait T c B endpoint body) (\<lambda>env. act_status (ae_activity env) = TK_COMPLETED)"
  unfolding tk_submit_and_wait_def tk_poll_activity_def
  by (auto intro!: returns_bind_last returns_of tk_poll_rounds_returns)

text \<open>
  Submitting a Turnkey activity makes at most 61 requests, the submission and 60 status
  queries, whatever the provider answers, and hands back only an activity in state
  \<open>ACTIVITY_STATUS_COMPLETED\<close>; an activity that stays pending ends as an unavailable provider.
\<close>

theorem turnkey_submission_bounded:
  "sent_count (snd (tk_submit_and_wait T c B endpoint body s)) \<le> sent_count s + 61 \<and>
   (case fst (tk_submit_and_wait T c B endpoint body s) of
      Ok env \<Rightarrow> act_status (ae_activity env) = TK_COMPLETED | _ \<Rightarrow> True)"
proof -
  have "sends_at_most 61 (tk_submit_and_wait T c B endpoint body)"
    unfolding tk_submit_and_wait_def tk_poll_activity_def tk_query_def[symmetric]
    by (rule sends_at_most_bind[where i = 1 and j = 60])
       (auto simp: tk_rpc_def Let_def intro!: sends_at_most_bind[where i = 1 and j = 0] sends_at_most_basic
          tk_poll_rounds_count intro: sends_at_most_mono[OF sends_at_most_basic(1)])
  hence "sent_count (snd (tk_submit_and_wait T c B endpoint body s)) \<le> sent_count s + 61"
    by (simp add: sends_at_most_def)
  thus ?thesis
    using returnsD[OF tk_submit_completed[of T c B endpoint body], of s]
    by (cases "tk_submit_and_wait T c B endpoint body s") (auto split: result.split)
qed

section \<open>A concrete engine\<close>

definition demo_turnkey_config :: Config where
  "demo_turnkey_config = config_default\<lparr>custody_provider := Turnkey,
     custody_organization_id := Some ''org'', custody_api_key := Some (demo_encode [2, 7]),
     custody_api_private_key := Some (demo_encode [7])\<rparr>"

definition demo_turnkey_env :: "unit turnkey_env" where
  "demo_turnkey_env = \<lparr>tke_http = demo_http, tke_crates = demo_crates, tke_hex_error = (\<lambda>_. []),
     tke_from_slice = Ok, tke_public_sec1 = (\<lambda>k. 2 # k), tke_sign_digest_der = (\<lambda>k b. k @ b),
     tke_stamp = const_serde \<lparr>sv_public_key = [], sv_signature = [], sv_scheme = []\<rparr>,
     tke_activity = const_serde \<lparr>ae_activity = \<lparr>act_id = ''a'', act_status = TK_COMPLETED,
       act_result = Some (JObject [(''signRawPayloadResult'', JObject
         [(''r'', JString (demo_encode (pad_to 64 [1, 2, 3]))), (''s'', JString [])])])\<rparr>\<rparr>,
     tke_create = const_serde \<lparr>cwb_activity_type = [], cwb_timestamp_ms = [], cwb_organization_id = [],
       cwb_parameters = \<lparr>cwp_wallet_name = [], cwp_accounts = []\<rparr>\<rparr>,
     tke_get_activity = const_serde \<lparr>gab_organization_id = [], gab_activity_id = []\<rparr>,
     tke_sign_raw = const_serde \<lparr>spb_activity_type = [], spb_timestamp_ms = [], spb_organization_id = [],
       spb_parameters = \<lparr>spp_sign_with = [], spp_payload = [], spp_encoding = [], spp_hash_function = []\<rparr>\<rparr>,
     tke_get_account = const_serde \<lparr>gwb_organization_id = [], gwb_wallet_id = []\<rparr>,
     tke_account_resp = const_serde \<lparr>gwr_account = \<lparr>wac_address = ''addr'',
       wac_public_key = Some (demo_encode (replicate 32 9)), wac_curve = ''CURVE_ED25519'', wac_path = []\<rparr>\<rparr>\<rparr>"

definition demo_turnkey :: TurnkeyEngine where
  "demo_turnkey = \<lparr>tk_base_url = TK_DEFAULT_API_BASE, tk_organization_id = ''org'',
     tk_sub_organization_id = None, tk_api_public_key = demo_encode [2, 7], tk_api_private_key = [7]\<rparr>"

lemma demo_turnkey_from_config: "turnkey_from_config demo_turnkey_env demo_turnkey_config = Ok demo_turnkey"
  by code_simp

theorem turnkey_requests_stamped_witness:
  "sends (tk_stamped demo_turnkey_env demo_turnkey)
     (eng_dkg (turnkey_engine demo_k256 demo_turnkey_env demo_turnkey) \<lparr>dp_chain = Evm, dp_threshold = 2, dp_parties = 3\<rparr>)"
  using turnkey_requests_stamped[OF demo_turnkey_from_config] by blast

end
