(* ===== verification/Build.thy ===== *)
theory Build
  imports Service Fireblocks_Engine Dfns_Engine Turnkey_Engine
begin

text \<open>
  \<open>build_engine\<close> of \<open>src/engine/mod.rs\<close>: the engine selected by the configuration, behind one
  interface (\<open>Arc<dyn SigningEngine>\<close>). The state of the selected engine is its in-house state or
  the network its adapter talks to; each call goes to the engine that was built.
\<close>

section \<open>Selection\<close>

text \<open>The cargo features that decide which backends are compiled in.\<close>

record features =
  feat_in_house :: bool
  feat_fireblocks :: bool
  feat_dfns :: bool
  feat_turnkey :: bool

datatype ('s, 't) built =
    Built_InHouse "('s, 't) ThresholdEngine"
  | Built_Fireblocks FireblocksEngine
  | Built_Dfns DfnsEngine
  | Built_Turnkey TurnkeyEngine

text \<open>The crates and environments of the four backends; all of them link the same crates.\<close>

record ('s, 'p, 't, 'q, 'h) build_env =
  be_crates :: crates
  be_k256 :: "('s, 'p) k256"
  be_dalek :: "('t, 'q) dalek"
  be_timer :: timer
  be_fireblocks_env :: "'h fireblocks_env"
  be_dfns_env :: "'h dfns_env"
  be_turnkey_env :: "'h turnkey_env"

definition be_threshold :: "('s, 'p, 't, 'q, 'h) build_env \<Rightarrow> ('s, 'p, 't, 'q) threshold_env" where
  "be_threshold B = \<lparr>te_k256 = be_k256 B, te_ed = (be_crates B, be_dalek B), te_timer = be_timer B\<rparr>"

definition be_fireblocks :: "('s, 'p, 't, 'q, 'h) build_env \<Rightarrow> 'h fireblocks_env" where
  "be_fireblocks B = (be_fireblocks_env B)\<lparr>fe_crates := be_crates B\<rparr>"

definition be_dfns :: "('s, 'p, 't, 'q, 'h) build_env \<Rightarrow> 'h dfns_env" where
  "be_dfns B = (be_dfns_env B)\<lparr>de_crates := be_crates B\<rparr>"

definition be_turnkey :: "('s, 'p, 't, 'q, 'h) build_env \<Rightarrow> 'h turnkey_env" where
  "be_turnkey B = (be_turnkey_env B)\<lparr>tke_crates := be_crates B\<rparr>"

fun map_ok :: "('a \<Rightarrow> 'b) \<Rightarrow> ('a, 'e) result \<Rightarrow> ('b, 'e) result" where
  "map_ok f (Ok x) = Ok (f x)"
| "map_ok f (Err e) = Err e"
| "map_ok f Panic = Panic"

definition build_engine ::
  "('s, 'p, 't, 'q, 'h) build_env \<Rightarrow> features \<Rightarrow> world \<Rightarrow> 's rng \<Rightarrow> 't rng \<Rightarrow> Config \<Rightarrow>
   (('s, 't) built, string) result" where
  "build_engine B feat w g1 g2 cfg =
     (case custody_provider cfg of
        InHouse \<Rightarrow>
          if feat_in_house feat
          then map_ok Built_InHouse (map_err threshold_error_to_string
                 (threshold_new (threshold_t cfg) (total_n cfg) w g1 g2))
          else Err ''CUSTODY_PROVIDER=in_house but the in-house feature is not compiled in''
      | Fireblocks \<Rightarrow>
          if feat_fireblocks feat
          then map_ok Built_Fireblocks (fireblocks_from_config (be_fireblocks B) cfg)
          else Err ''CUSTODY_PROVIDER=fireblocks but the fireblocks feature is not compiled in''
      | Dfns \<Rightarrow>
          if feat_dfns feat then map_ok Built_Dfns (dfns_from_config (be_dfns B) cfg)
          else Err ''CUSTODY_PROVIDER=dfns but the dfns feature is not compiled in''
      | Turnkey \<Rightarrow>
          if feat_turnkey feat then map_ok Built_Turnkey (turnkey_from_config (be_turnkey B) cfg)
          else Err ''CUSTODY_PROVIDER=turnkey but the turnkey feature is not compiled in'')"

section \<open>Dynamic dispatch\<close>

record ('s, 't, 'h) dyn_state =
  dy_built :: "('s, 't) built"
  dy_net :: "'h net"

definition through_threshold ::
  "('r \<times> ('s, 't) ThresholdEngine) \<Rightarrow> ('s, 't, 'h) dyn_state \<Rightarrow> 'r \<times> ('s, 't, 'h) dyn_state" where
  "through_threshold re d = (case re of (r, e) \<Rightarrow> (r, d\<lparr>dy_built := Built_InHouse e\<rparr>))"

definition through_net ::
  "('a, 'h) io \<Rightarrow> ('s, 't, 'h) dyn_state \<Rightarrow> ('a, EngineError) result \<times> ('s, 't, 'h) dyn_state" where
  "through_net m d = (case m (dy_net d) of (r, n) \<Rightarrow> (r, d\<lparr>dy_net := n\<rparr>))"

definition dyn_sign ::
  "('s :: field, 'p :: ab_group_add, 't :: field, 'q :: ab_group_add, 'h) build_env \<Rightarrow> EngineSignRequest \<Rightarrow>
   ('s, 't, 'h) dyn_state \<Rightarrow> (EngineSignature, EngineError) result \<times> ('s, 't, 'h) dyn_state" where
  "dyn_sign B req d =
     (case dy_built d of
        Built_InHouse e \<Rightarrow> through_threshold (threshold_sign (be_threshold B) req e) d
      | Built_Fireblocks c \<Rightarrow> through_net (fb_sign (be_k256 B) (be_fireblocks B) c req) d
      | Built_Dfns c \<Rightarrow> through_net (dfns_sign (be_k256 B) (be_dfns B) c req) d
      | Built_Turnkey c \<Rightarrow> through_net (tk_sign (be_k256 B) (be_turnkey B) c req) d)"

definition dyn_dkg ::
  "('s :: field, 'p :: ab_group_add, 't :: field, 'q :: ab_group_add, 'h) build_env \<Rightarrow> DkgParams \<Rightarrow>
   ('s, 't, 'h) dyn_state \<Rightarrow> (DkgOutcome, EngineError) result \<times> ('s, 't, 'h) dyn_state" where
  "dyn_dkg B p d =
     (case dy_built d of
        Built_InHouse e \<Rightarrow> through_threshold (threshold_dkg (be_threshold B) p e) d
      | Built_Fireblocks c \<Rightarrow> through_net (fb_dkg (be_fireblocks B) c p) d
      | Built_Dfns c \<Rightarrow> through_net (dfns_dkg (be_dfns B) c p) d
      | Built_Turnkey c \<Rightarrow> through_net (tk_dkg (be_turnkey B) c p) d)"

definition dyn_rotate_key ::
  "('s :: field, 'p :: ab_group_add, 't :: field, 'q :: ab_group_add, 'h) build_env \<Rightarrow> KeyId \<Rightarrow>
   ('s, 't, 'h) dyn_state \<Rightarrow> (RotateOutcome, EngineError) result \<times> ('s, 't, 'h) dyn_state" where
  "dyn_rotate_key B k d =
     (case dy_built d of
        Built_InHouse e \<Rightarrow> through_threshold (threshold_rotate_key (be_threshold B) k e) d
      | Built_Fireblocks c \<Rightarrow> through_net (fb_rotate_key (be_fireblocks B) c k) d
      | Built_Dfns c \<Rightarrow> through_net (dfns_rotate_key (be_dfns B) c k) d
      | Built_Turnkey c \<Rightarrow> through_net (tk_rotate_key (be_turnkey B) c k) d)"

definition dyn_get_key_metadata ::
  "('s :: field, 'p :: ab_group_add, 't :: field, 'q :: ab_group_add, 'h) build_env \<Rightarrow> KeyId \<Rightarrow>
   ('s, 't, 'h) dyn_state \<Rightarrow> (KeyMetadata, EngineError) result \<times> ('s, 't, 'h) dyn_state" where
  "dyn_get_key_metadata B k d =
     (case dy_built d of
        Built_InHouse e \<Rightarrow> through_threshold (threshold_get_key_metadata k e) d
      | Built_Fireblocks c \<Rightarrow> through_net (fb_get_key_metadata (be_fireblocks B) c k) d
      | Built_Dfns c \<Rightarrow> through_net (dfns_get_key_metadata (be_dfns B) c k) d
      | Built_Turnkey c \<Rightarrow> through_net (tk_get_key_metadata (be_turnkey B) c k) d)"

definition dyn_restore_share ::
  "RestoreParams \<Rightarrow> ('s, 't, 'h) dyn_state \<Rightarrow>
   (bool, EngineError) result \<times> ('s, 't, 'h) dyn_state" where
  "dyn_restore_share p d =
     (case dy_built d of
        Built_InHouse e \<Rightarrow> through_threshold (threshold_restore_share p e) d
      | Built_Fireblocks c \<Rightarrow> through_net (fb_restore_share p) d
      | Built_Dfns c \<Rightarrow> through_net (dfns_restore_share p) d
      | Built_Turnkey c \<Rightarrow> through_net (tk_restore_share p) d)"

definition dyn_engine ::
  "('s :: field, 'p :: ab_group_add, 't :: field, 'q :: ab_group_add, 'h) build_env \<Rightarrow>
   ('s, 't, 'h) dyn_state SigningEngine" where
  "dyn_engine B = \<lparr>eng_sign = dyn_sign B, eng_dkg = dyn_dkg B, eng_rotate_key = dyn_rotate_key B,
     eng_get_key_metadata = dyn_get_key_metadata B, eng_restore_share = dyn_restore_share\<rparr>"

section \<open>The contract of every engine that can be built\<close>

text \<open>Strict Ed25519 verification accepts only what plain verification accepts.\<close>

definition ed_strict_laws :: "crates \<Rightarrow> bool" where
  "ed_strict_laws X \<longleftrightarrow> (\<forall>pk m sig. ed_verify_strict X pk m sig \<longrightarrow> ed_verify X pk m sig)"

definition build_lawful ::
  "('s :: field, 'p :: ab_group_add, 't :: field, 'q :: ab_group_add, 'h) build_env \<Rightarrow> bool" where
  "build_lawful B \<longleftrightarrow> threshold_lawful (be_threshold B) \<and> ed_strict_laws (be_crates B)"

definition dyn_inv ::
  "('s :: field, 'p :: ab_group_add, 't :: field, 'q :: ab_group_add, 'h) build_env \<Rightarrow>
   ('s, 't, 'h) dyn_state \<Rightarrow> bool" where
  "dyn_inv B d \<longleftrightarrow> (case dy_built d of Built_InHouse e \<Rightarrow> threshold_inv (be_threshold B) e | _ \<Rightarrow> True)"

lemma map_ok_eq_Ok [result_simps]: "map_ok f r = Ok y \<longleftrightarrow> (\<exists>x. r = Ok x \<and> y = f x)"
  by (cases r) auto

lemma provider_chain_accepts:
  assumes "ed_strict_laws (be_crates B)"
    and "provider_accepts (be_k256 B) (be_crates B) chain payload sig pk"
  shows "chain_accepts (be_threshold B) chain payload sig pk"
  using assms
  by (auto simp: provider_accepts_def verify_signature_Ok_iff chain_accepts_def be_threshold_def
      Secp256k1_def Ed25519_def ed_curve_verify_def ed_strict_laws_def split: SignatureScheme.splits)

lemma through_net_Ok:
  "through_net m d = (Ok x, d') \<Longrightarrow> \<exists>n. m (dy_net d) = (Ok x, n)"
  by (auto simp: through_net_def split: prod.splits)

lemma through_built [simp]:
  "dy_built (snd (through_threshold re d)) = Built_InHouse (snd re)"
  "dy_built (snd (through_net m d)) = dy_built d"
  by (auto simp: through_net_def through_threshold_def split: prod.splits)

lemma be_crates_simps [simp]:
  "fe_crates (be_fireblocks B) = be_crates B" "de_crates (be_dfns B) = be_crates B"
  "tke_crates (be_turnkey B) = be_crates B"
  by (simp_all add: be_fireblocks_def be_dfns_def be_turnkey_def)

lemma dyn_sign_accepted:
  assumes B: "build_lawful B" and d: "dyn_inv B d" and sign: "dyn_sign B req d = (Ok s, d')"
  shows "chain_accepts (be_threshold B) (er_chain req) (er_payload req) (es_signature s) (es_public_key s)"
proof (cases "dy_built d")
  case (Built_InHouse e)
  hence "threshold_sign (be_threshold B) req e = (Ok s, snd (threshold_sign (be_threshold B) req e))"
    using sign by (auto simp: dyn_sign_def through_threshold_def split: prod.splits)
  thus ?thesis
    using threshold.sign_accepted[of "be_threshold B" e req s] B d Built_InHouse
    by (auto simp: threshold_engine_def build_lawful_def dyn_inv_def)
next
  case (Built_Fireblocks c)
  then obtain n where "fb_sign (be_k256 B) (be_fireblocks B) c req (dy_net d) = (Ok s, n)"
    using sign by (auto simp: dyn_sign_def dest: through_net_Ok)
  from fireblocks.sign_accepted[OF TrueI this] show ?thesis
    using B by (intro provider_chain_accepts) (auto simp: build_lawful_def)
next
  case (Built_Dfns c)
  then obtain n where "dfns_sign (be_k256 B) (be_dfns B) c req (dy_net d) = (Ok s, n)"
    using sign by (auto simp: dyn_sign_def dest: through_net_Ok)
  from dfns.sign_accepted[OF TrueI this] show ?thesis
    using B by (intro provider_chain_accepts) (auto simp: build_lawful_def)
next
  case (Built_Turnkey c)
  then obtain n where "tk_sign (be_k256 B) (be_turnkey B) c req (dy_net d) = (Ok s, n)"
    using sign by (auto simp: dyn_sign_def dest: through_net_Ok)
  from turnkey.sign_accepted[OF TrueI this] show ?thesis
    using B by (intro provider_chain_accepts) (auto simp: build_lawful_def)
qed

lemma dyn_sign_inv:
  assumes "build_lawful B" "dyn_inv B d"
  shows "dyn_inv B (snd (dyn_sign B req d))"
proof (cases "dy_built d")
  case (Built_InHouse e)
  have "threshold_inv (be_threshold B) (snd (threshold_sign (be_threshold B) req e))"
    using threshold.sign_inv[of "be_threshold B" e req] assms Built_InHouse
    by (auto simp: threshold_engine_def build_lawful_def dyn_inv_def)
  thus ?thesis using Built_InHouse by (simp add: dyn_sign_def dyn_inv_def)
qed (simp_all add: dyn_sign_def dyn_inv_def)

interpretation dyn: verified_engine "eng_sign (dyn_engine B)" "chain_accepts (be_threshold B)"
  "\<lambda>d. build_lawful B \<and> dyn_inv B d" for B
  by unfold_locales (auto simp: dyn_engine_def dest: dyn_sign_accepted dyn_sign_inv)

section \<open>Life cycle of the built engine\<close>

definition dyn_key_fresh :: "('s, 't, 'h) dyn_state \<Rightarrow> bool" where
  "dyn_key_fresh d \<longleftrightarrow> (case dy_built d of Built_InHouse e \<Rightarrow> key_id_fresh e | _ \<Rightarrow> True)"

lemma dyn_dkg_inv:
  assumes "build_lawful B" "dyn_inv B d" "dyn_key_fresh d"
  shows "dyn_inv B (snd (dyn_dkg B p d))"
proof (cases "dy_built d")
  case (Built_InHouse e)
  obtain r e' where r: "threshold_dkg (be_threshold B) p e = (r, e')" by (rule prod.exhaust)
  have "threshold_inv (be_threshold B) e'"
    using threshold_dkg_inv[OF _ _ _ r] assms Built_InHouse
    by (auto simp: build_lawful_def dyn_inv_def dyn_key_fresh_def)
  thus ?thesis using Built_InHouse r by (simp add: dyn_dkg_def dyn_inv_def)
qed (simp_all add: dyn_dkg_def dyn_inv_def)

lemma dyn_restore_metadata_inv:
  assumes "dyn_inv B d"
  shows "dyn_inv B (snd (dyn_restore_share p d))" "dyn_inv B (snd (dyn_get_key_metadata B k d))"
  using assms
  by (cases "dy_built d";
      auto simp: dyn_restore_share_def dyn_get_key_metadata_def dyn_inv_def threshold_restore_share_def
        threshold_get_key_metadata_def Let_def split: option.splits prod.splits)+

lemma dyn_rotate_inv:
  assumes "build_lawful B" "dyn_inv B d"
  shows "dyn_inv B (snd (dyn_rotate_key B k d))"
proof (cases "dy_built d")
  case (Built_InHouse e)
  obtain r e' where r: "threshold_rotate_key (be_threshold B) k e = (r, e')" by (rule prod.exhaust)
  have "threshold_inv (be_threshold B) e'"
    using threshold_rotate_inv[OF _ _ r] assms Built_InHouse
    by (auto simp: build_lawful_def dyn_inv_def)
  thus ?thesis using Built_InHouse r by (simp add: dyn_rotate_key_def dyn_inv_def)
qed (simp_all add: dyn_rotate_key_def dyn_inv_def)

lemma build_engine_inv:
  fixes B :: "('s :: field, 'p :: ab_group_add, 't :: field, 'q :: ab_group_add, 'h) build_env"
  assumes "build_lawful B" and "indices_distinct TYPE('s) (total_n cfg)"
    and "indices_distinct TYPE('t) (total_n cfg)" and "build_engine B feat w g1 g2 cfg = Ok b"
  shows "dyn_inv B \<lparr>dy_built = b, dy_net = n\<rparr>"
proof (cases b)
  case (Built_InHouse e)
  hence "threshold_new (threshold_t cfg) (total_n cfg) w g1 g2 = Ok e"
    using assms(4)
    by (auto simp: build_engine_def result_simps split: CustodyProvider.splits if_splits)
  hence "threshold_reach (be_threshold B) (threshold_t cfg) (total_n cfg) e" by (rule tr_new)
  thus ?thesis
    using threshold_reach_inv[of "be_threshold B"] assms(1-3) Built_InHouse
    by (auto simp: dyn_inv_def build_lawful_def)
qed (simp_all add: dyn_inv_def)

text \<open>
  The backend is the configured one: a successful build is for the provider the
  configuration names, compiled in, and an in-house build has a threshold between one and the
  number of nodes; everything else is refused at startup.
\<close>

theorem build_selects_provider:
  assumes "build_engine B feat w g1 g2 cfg = Ok b"
  shows "(case b of
      Built_InHouse e \<Rightarrow> custody_provider cfg = InHouse \<and> feat_in_house feat \<and>
        1 \<le> threshold_t cfg \<and> threshold_t cfg \<le> total_n cfg
    | Built_Fireblocks c \<Rightarrow> custody_provider cfg = Fireblocks \<and> feat_fireblocks feat \<and>
        custody_api_key cfg = Some (fb_api_key c)
    | Built_Dfns c \<Rightarrow> custody_provider cfg = Dfns \<and> feat_dfns feat \<and>
        custody_api_key cfg = Some (df_auth_token c) \<and> length (df_signing_key c) = 32
    | Built_Turnkey c \<Rightarrow> custody_provider cfg = Turnkey \<and> feat_turnkey feat \<and>
        custody_api_key cfg = Some (tk_api_public_key c))"
  using assms dfns_from_config_key
  by (fastforce simp: build_engine_def result_simps threshold_new_def cluster_new_def
      fireblocks_from_config_def dfns_from_config_def turnkey_from_config_def Let_def
      split: CustodyProvider.splits if_splits built.split)

section \<open>A concrete build\<close>

definition demo_build_crates :: crates where
  "demo_build_crates = demo_ed_crates\<lparr>ed_verify_strict := ed_verify demo_ed_crates\<rparr>"

definition demo_fireblocks_env :: "unit fireblocks_env" where
  "demo_fireblocks_env = \<lparr>fe_http = demo_http, fe_crates = demo_build_crates, fe_json = const_serde JNull,
     fe_vault = const_serde \<lparr>va_id = ''7''\<rparr>,
     fe_key_info = const_serde \<lparr>pki_public_key = demo_encode [9]\<rparr>,
     fe_tx = const_serde \<lparr>tr_id = ''tx'', tr_status = ''COMPLETED'', tr_signed_messages =
       [\<lparr>sm_signature = Some (demo_encode [9, 1, 2]), sm_public_key = Some (demo_encode [9])\<rparr>]\<rparr>,
     fe_from_rsa_pem = Ok, fe_jwt_encode = (\<lambda>h c k. Ok (jc_uri c))\<rparr>"

definition demo_build :: "(gf5, gf5, gf5, gf5, unit) build_env" where
  "demo_build = \<lparr>be_crates = demo_build_crates, be_k256 = demo_k256, be_dalek = demo_dalek,
     be_timer = demo_timer, be_fireblocks_env = demo_fireblocks_env, be_dfns_env = demo_dfns_env,
     be_turnkey_env = demo_turnkey_env\<rparr>"

lemma demo_build_lawful: "build_lawful demo_build"
  by (simp add: build_lawful_def demo_build_def be_threshold_def threshold_lawful_def ed_strict_laws_def
      demo_build_crates_def dalek_laws_def demo_dalek_def demo_ed_crates_def demo_crates_def)

definition demo_features :: features where
  "demo_features = \<lparr>feat_in_house = True, feat_fireblocks = True, feat_dfns = True, feat_turnkey = True\<rparr>"

theorem build_selects_provider_witness:
  "custody_provider demo_turnkey_config = Turnkey \<and> feat_turnkey demo_features"
proof -
  have "be_turnkey (demo_build\<lparr>be_crates := demo_crates\<rparr>) = demo_turnkey_env"
    by (simp add: be_turnkey_def demo_build_def demo_turnkey_env_def)
  hence "build_engine (demo_build\<lparr>be_crates := demo_crates\<rparr>) demo_features (demo_world 1) (sconst G1) (sconst G1)
      demo_turnkey_config = Ok (Built_Turnkey demo_turnkey)"
    using demo_turnkey_from_config
    by (simp add: build_engine_def demo_turnkey_config_def demo_features_def)
  from build_selects_provider[OF this] show ?thesis by simp
qed

end
