(* ===== verification/Startup.thy ===== *)
theory Startup
  imports Build
begin

text \<open>
  \<open>src/mtls.rs\<close> and \<open>src/main.rs\<close>: the TLS material of the node, the webhook handler, and the
  wiring of configuration, policy verifier, wallet client, engine, audit and service at startup,
  with every way it can refuse to start.
\<close>

section \<open>mTLS material\<close>

record MtlsMaterial =
  cert_pem :: bytes
  key_pem :: bytes
  ca_pem :: bytes

definition mtls_from_paths ::
  "(string \<Rightarrow> (bytes, string) result) \<Rightarrow> string \<Rightarrow> string \<Rightarrow> string \<Rightarrow> (MtlsMaterial, string) result" where
  "mtls_from_paths read_bytes cert key ca =
     and_then (map_err (\<lambda>e. ''read MTLS_CERT '' @ cert @ '': '' @ e) (read_bytes cert)) (\<lambda>c.
     and_then (map_err (\<lambda>e. ''read MTLS_KEY '' @ key @ '': '' @ e) (read_bytes key)) (\<lambda>k.
     and_then (map_err (\<lambda>e. ''read MTLS_CA '' @ ca @ '': '' @ e) (read_bytes ca)) (\<lambda>a.
     Ok \<lparr>cert_pem = c, key_pem = k, ca_pem = a\<rparr>)))"

text \<open>A variable of the first name, or else of the second, both non-empty.\<close>

definition env_either :: "env \<Rightarrow> string \<Rightarrow> string \<Rightarrow> string option" where
  "env_either env k1 k2 = (case env_opt env k1 of Some v \<Rightarrow> Some v | None \<Rightarrow> env_opt env k2)"

definition mtls_from_env ::
  "(string \<Rightarrow> (bytes, string) result) \<Rightarrow> env \<Rightarrow> (MtlsMaterial option, string) result" where
  "mtls_from_env read_bytes env =
     (case (env_either env ''MTLS_CERT'' ''TLS_CERT_FILE'', env_either env ''MTLS_KEY'' ''TLS_KEY_FILE'',
            env_either env ''MTLS_CA'' ''TLS_CA_FILE'') of
        (Some c, Some k, Some a) \<Rightarrow> map_ok Some (mtls_from_paths read_bytes c k a)
      | (None, None, None) \<Rightarrow>
          if env ''DEV_MODE'' = Some ''1'' then Ok None
          else Err ''MTLS_CERT/MTLS_KEY/MTLS_CA (or TLS_CERT_FILE/TLS_KEY_FILE/TLS_CA_FILE) required when DEV_MODE!=1''
      | _ \<Rightarrow> Err ''MTLS_CERT, MTLS_KEY, and MTLS_CA must all be set together (or all unset)'')"

definition mtls_from_pem :: "bytes \<Rightarrow> bytes \<Rightarrow> bytes \<Rightarrow> MtlsMaterial" where
  "mtls_from_pem c k a = \<lparr>cert_pem = c, key_pem = k, ca_pem = a\<rparr>"

text \<open>The builder settings of tonic's TLS configurations: identity and trusted CA.\<close>

record ServerTlsConfig =
  stls_identity :: "bytes \<times> bytes"
  stls_client_ca_root :: bytes

record ClientTlsConfig =
  ctls_identity :: "bytes \<times> bytes"
  ctls_ca_certificate :: bytes
  ctls_domain_name :: string

definition server_config :: "MtlsMaterial \<Rightarrow> ServerTlsConfig" where
  "server_config m = \<lparr>stls_identity = (cert_pem m, key_pem m), stls_client_ca_root = ca_pem m\<rparr>"

definition client_config :: "MtlsMaterial \<Rightarrow> string \<Rightarrow> ClientTlsConfig" where
  "client_config m domain = \<lparr>ctls_identity = (cert_pem m, key_pem m), ctls_ca_certificate = ca_pem m,
     ctls_domain_name = domain\<rparr>"

section \<open>HTTP handlers\<close>

definition healthz :: json where
  "healthz = JObject [(''status'', JString ''ok'')]"

text \<open>\<open>HeaderValue::to_str\<close> succeeds on visible ASCII, space and tab.\<close>

definition header_to_str :: "bytes \<Rightarrow> string option" where
  "header_to_str b =
     (if list_all (\<lambda>x. 32 \<le> x \<and> x < 127 \<or> x = 9) b then Some (text_of b) else None)"

text \<open>\<open>headers\<close> gives the first value of a header.\<close>

definition custody_webhook ::
  "crates \<Rightarrow> string option \<Rightarrow> (string \<Rightarrow> bytes option) \<Rightarrow> bytes \<Rightarrow> nat \<times> json" where
  "custody_webhook X secret headers body =
     (case secret of
        None \<Rightarrow> (501, JObject [(''error'', JString ''webhook secret not configured'')])
      | Some secret \<Rightarrow>
          (let sig = (case Option.bind (headers ''x-custody-signature'') header_to_str of
                        Some s \<Rightarrow> s | None \<Rightarrow> [])
           in if \<not> verify_webhook X secret body sig
              then (401, JObject [(''error'', JString ''invalid webhook signature'')])
              else (200, JObject [(''status'', JString ''ok'')])))"

section \<open>Startup\<close>

datatype StartupError =
    SE_Policy PubkeyError
  | SE_Wallet WalletError
  | SE_Engine string
  | SE_Signer SignerError
  | SE_Kafka string
  | SE_NoKafka
  | SE_Bind string
  | SE_Tls string
  | SE_Serve string

text \<open>
  What the process finds: environment and files, the constructors of the wallet channel and the Kafka
  producer, the listener, the codecs, the randomness and the network.
\<close>

record ('s, 'p, 't, 'q, 'h) process =
  pr_build :: "('s, 'p, 't, 'q, 'h) build_env"
  pr_features :: features
  pr_env :: env
  pr_read_text :: "string \<Rightarrow> string option"
  pr_read_bytes :: "string \<Rightarrow> (bytes, string) result"
  pr_from_shared :: "string \<Rightarrow> (string, string) result"
  pr_channel_ready :: "Endpoint \<Rightarrow> (unit, string) result"
  pr_unary :: "Endpoint \<Rightarrow> string \<Rightarrow> ResolveKeyIdRequest \<Rightarrow> (WalletKeyRecord, Status) result"
  pr_show_status :: "Status \<Rightarrow> string"
  pr_kafka_create :: "producer \<Rightarrow> (unit, string) result"
  pr_bind :: "u16 \<Rightarrow> (unit, string) result"
  pr_claims_serde :: "PolicyClaims serde"
  pr_audit_serde :: "SigningAuditRecord serde"
  pr_seed :: bytes
  pr_engine_world :: world
  pr_rng_ecdsa :: "'s rng"
  pr_rng_eddsa :: "'t rng"
  pr_net :: "'h net"
  pr_world :: world

record ('s, 't, 'h) running =
  run_service :: "('s, 't, 'h) dyn_state MpcService"
  run_sink :: "KafkaAuditSink option"
  run_webhook_secret :: "string option"
  run_http_port :: u16
  run_grpc_port :: u16
  run_tls :: "ServerTlsConfig option"
  run_state :: "('s, 't, 'h) dyn_state service_state"

text \<open>The audit sink; without one, records are only logged.\<close>

definition start_sink ::
  "(producer \<Rightarrow> (unit, string) result) \<Rightarrow> Config \<Rightarrow> (KafkaAuditSink option, StartupError) result" where
  "start_sink create cfg =
     (case kafka_brokers cfg of
        Some brokers \<Rightarrow>
          (case kafka_sink_new create brokers (node_id cfg) of
             Ok sink \<Rightarrow> Ok (Some sink)
           | Err e \<Rightarrow> if dev_mode cfg then Ok None else Err (SE_Kafka e)
           | Panic \<Rightarrow> Panic)
      | None \<Rightarrow> if dev_mode cfg then Ok None else Err SE_NoKafka)"

definition start_verifier :: "crates \<Rightarrow> Config \<Rightarrow> (Ed25519TokenVerifier option, StartupError) result" where
  "start_verifier X cfg =
     (case policy_engine_pubkey cfg of
        Some pk \<Rightarrow> map_ok Some (map_err SE_Policy (token_verifier_new X pk (token_max_skew cfg)))
      | None \<Rightarrow> Ok None)"

definition start_wallet ::
  "(string \<Rightarrow> (string, string) result) \<Rightarrow> (GrpcWalletClient \<Rightarrow> wallet_client) \<Rightarrow> Config \<Rightarrow>
   (wallet_client option, StartupError) result" where
  "start_wallet from_shared client cfg =
     (case wallet_management_url cfg of
        Some url \<Rightarrow> map_ok (\<lambda>w. Some (client w)) (map_err SE_Wallet (grpc_wallet_connect from_shared url))
      | None \<Rightarrow> Ok None)"

text \<open>The methods of a connected wallet client.\<close>

definition pr_wallet :: "('s, 'p, 't, 'q, 'h) process \<Rightarrow> GrpcWalletClient \<Rightarrow> wallet_client" where
  "pr_wallet P w =
     grpc_resolve_keys (pr_channel_ready P (gw_channel w)) (pr_unary P (gw_channel w)) (pr_show_status P)"

text \<open>\<open>main\<close> up to the point where it serves.\<close>

definition main_start ::
  "('s :: field, 'p :: ab_group_add, 't :: field, 'q :: ab_group_add, 'h) process \<Rightarrow>
   (('s, 't, 'h) running, StartupError) result" where
  "main_start P =
     (let X = be_crates (pr_build P); cfg = from_env (pr_read_text P) (pr_env P)
      in and_then (start_verifier X cfg) (\<lambda>verifier.
         and_then (start_wallet (pr_from_shared P) (pr_wallet P) cfg) (\<lambda>wallet.
         and_then (map_err SE_Engine (build_engine (pr_build P) (pr_features P) (pr_engine_world P)
            (pr_rng_ecdsa P) (pr_rng_eddsa P) cfg)) (\<lambda>engine.
         and_then (map_err SE_Signer
            (audit_signer_new X (pr_seed P) (node_id cfg) (node_signing_key cfg))) (\<lambda>signer.
         and_then (start_sink (pr_kafka_create P) cfg) (\<lambda>sink.
         let audit = emitter_start sink;
             service = \<lparr>sv_crates = X, sv_claims_serde = pr_claims_serde P,
               sv_audit_serde = pr_audit_serde P, sv_verifier = verifier, sv_wallet = wallet,
               sv_engine = dyn_engine (pr_build P), sv_audit_signer = signer,
               sv_skip_policy = insecure_skip_policy cfg,
               sv_skip_wallet_check = insecure_skip_wallet_check cfg\<rparr>
         in and_then (map_err SE_Bind (pr_bind P (http_port cfg))) (\<lambda>_.
            and_then (map_err SE_Tls (mtls_from_env (pr_read_bytes P) (pr_env P))) (\<lambda>material.
            Ok \<lparr>run_service = service, run_sink = em_sink audit,
                run_webhook_secret = custody_webhook_secret cfg, run_http_port = http_port cfg,
                run_grpc_port = grpc_port cfg, run_tls = map_option server_config material,
                run_state = \<lparr>srv_sessions = session_store_new, srv_used = token_store_new,
                  srv_queue = em_queue audit, srv_engine = \<lparr>dy_built = engine, dy_net = pr_net P\<rparr>,
                  srv_world = pr_world P\<rparr>\<rparr>))))))))"

section \<open>Lemmas\<close>

lemma map_ok_Err_iff [result_simps]: "map_ok f r = Err e \<longleftrightarrow> r = Err e"
  by (cases r) auto

lemma mtls_from_env_None:
  "mtls_from_env rd env = Ok None \<Longrightarrow>
   env ''DEV_MODE'' = Some ''1'' \<and> env_opt env ''MTLS_CERT'' = None \<and> env_opt env ''TLS_CERT_FILE'' = None"
  by (auto simp: mtls_from_env_def env_either_def result_simps split: option.splits if_splits)

lemma start_sink_None: "start_sink create cfg = Ok None \<Longrightarrow> dev_mode cfg"
  by (auto simp: start_sink_def split: option.splits result.splits if_splits)

lemma from_env_sel [simp]:
  "insecure_skip_policy (from_env f env) \<longleftrightarrow> env ''INSECURE_SKIP_POLICY'' = Some ''true''"
  "insecure_skip_wallet_check (from_env f env) \<longleftrightarrow> env ''INSECURE_SKIP_WALLET_CHECK'' = Some ''true''"
  "dev_mode (from_env f env) \<longleftrightarrow> env ''DEV_MODE'' = Some ''true''"
  "policy_engine_pubkey (from_env f env) = env_opt env ''POLICY_ENGINE_PUBKEY''"
  "wallet_management_url (from_env f env) = env_opt env ''WALLET_MANAGEMENT_URL''"
  by (simp_all add: from_env_def env_parse_bool_True_iff)

lemma main_start_OkE:
  assumes "main_start P = Ok run"
  obtains verifier wallet engine signer sink material where
    "start_verifier (be_crates (pr_build P)) (from_env (pr_read_text P) (pr_env P)) = Ok verifier"
    "start_wallet (pr_from_shared P) (pr_wallet P) (from_env (pr_read_text P) (pr_env P)) = Ok wallet"
    "build_engine (pr_build P) (pr_features P) (pr_engine_world P) (pr_rng_ecdsa P) (pr_rng_eddsa P)
       (from_env (pr_read_text P) (pr_env P)) = Ok engine"
    "start_sink (pr_kafka_create P) (from_env (pr_read_text P) (pr_env P)) = Ok sink"
    "mtls_from_env (pr_read_bytes P) (pr_env P) = Ok material"
    "run_sink run = sink" "run_tls run = map_option server_config material"
    "sv_verifier (run_service run) = verifier" "sv_wallet (run_service run) = wallet"
    "sv_engine (run_service run) = dyn_engine (pr_build P)"
    "sv_skip_policy (run_service run) \<longleftrightarrow> pr_env P ''INSECURE_SKIP_POLICY'' = Some ''true''"
    "sv_skip_wallet_check (run_service run) \<longleftrightarrow> pr_env P ''INSECURE_SKIP_WALLET_CHECK'' = Some ''true''"
    "srv_engine (run_state run) = \<lparr>dy_built = engine, dy_net = pr_net P\<rparr>"
    "sv_audit_signer (run_service run) = signer" "sv_crates (run_service run) = be_crates (pr_build P)"
    "audit_signer_new (be_crates (pr_build P)) (pr_seed P) (node_id (from_env (pr_read_text P) (pr_env P)))
       (node_signing_key (from_env (pr_read_text P) (pr_env P))) = Ok signer"
    "srv_queue (run_state run) = []"
  using assms unfolding main_start_def Let_def
  by (auto simp: result_simps emitter_start_def)

section \<open>The deployed service\<close>

text \<open>
  The states of a started process that answers one call at a time: any sequence of whole calls of
  the service, the UUIDs drawn for new in-house keys being new and Wallet Management answering as it
  likes, while the delivery task takes records from the audit queue. Handlers that overlap are the
  steps of \<open>Interleaved_Service\<close>, and engine calls that overlap those of \<open>Engine_Tasks\<close>.
\<close>

inductive deployed ::
  "('s :: field, 'p :: ab_group_add, 't :: field, 'q :: ab_group_add, 'h) process \<Rightarrow>
   ('s, 't, 'h) dyn_state MpcService \<Rightarrow> ('s, 't, 'h) dyn_state service_state \<Rightarrow> bool" for P where
  dep_start: "main_start P = Ok run \<Longrightarrow> deployed P (run_service run) (run_state run)"
| dep_sign: "\<lbrakk>deployed P sv s; wallet_answers sv wc\<rbrakk> \<Longrightarrow> deployed P sv (snd (sign_tx (sv\<lparr>sv_wallet := wc\<rparr>) req s))"
| dep_dkg: "deployed P sv s \<Longrightarrow> dyn_key_fresh (srv_engine s) \<Longrightarrow> deployed P sv (snd (service_dkg sv dq s))"
| dep_rotate: "deployed P sv s \<Longrightarrow> deployed P sv (snd (service_rotate_key sv k s))"
| dep_metadata: "deployed P sv s \<Longrightarrow> deployed P sv (snd (service_get_key_metadata sv k s))"
| dep_restore: "deployed P sv s \<Longrightarrow> deployed P sv (snd (service_restore_share sv tq s))"
| dep_audit: "deployed P sv s \<Longrightarrow> deployed P sv (s\<lparr>srv_queue := drop n (srv_queue s)\<rparr>)"

lemma call_engine_state: "srv_engine (snd (call_engine re f s)) = snd re"
  by (simp add: call_engine_def split: prod.split)

lemma dispatch_engine:
  assumes "ss_key_id ses = sq_key_id req" and "ss_chain ses = chain"
  shows "srv_engine (snd (dispatch sv req ses s)) =
    snd (eng_sign (sv_engine sv) (engine_request req chain) (srv_engine s))"
  using assms
  by (auto simp: dispatch_def Let_def case_prod_unfold engine_request_def split: result.splits)

lemma sign_tx_engine_state:
  "srv_engine (snd (sign_tx sv req s)) = srv_engine s \<or>
   (\<exists>q. srv_engine (snd (sign_tx sv req s)) = snd (eng_sign (sv_engine sv) q (srv_engine s)))"
proof -
  obtain r s' where run: "sign_tx sv req s = (r, s')" by (rule prod.exhaust)
  show ?thesis
  proof (cases "validate req")
    case (Ok chain)
    from run Ok show ?thesis
    proof (cases rule: sign_tx_cases)
      case (engine s2)
      have "srv_engine s2 = srv_engine s" using policy_step_simps(2)[OF engine(1)] by simp
      moreover have "srv_engine s' = snd (eng_sign (sv_engine sv) (engine_request req chain) (srv_engine s2))"
        using engine(3) dispatch_engine[of "fst (open_session sv req chain s)" req chain sv s2] by simp
      ultimately show ?thesis using run by auto
    qed (use run in \<open>auto dest!: policy_step_simps(2)\<close>)
  qed (use run in \<open>auto simp: sign_tx_def\<close>)
qed

definition process_lawful ::
  "('s :: field, 'p :: ab_group_add, 't :: field, 'q :: ab_group_add, 'h) process \<Rightarrow> bool" where
  "process_lawful P \<longleftrightarrow> build_lawful (pr_build P) \<and>
     indices_distinct TYPE('s) (total_n (from_env (pr_read_text P) (pr_env P))) \<and>
     indices_distinct TYPE('t) (total_n (from_env (pr_read_text P) (pr_env P)))"

lemma deployed_inv:
  fixes P :: "('s :: field, 'p :: ab_group_add, 't :: field, 'q :: ab_group_add, 'h) process"
  assumes "process_lawful P"
  shows "deployed P sv s \<Longrightarrow> sv_engine sv = dyn_engine (pr_build P) \<and> dyn_inv (pr_build P) (srv_engine s)"
proof (induction rule: deployed.induct)
  case (dep_start run)
  show ?case
    by (rule main_start_OkE[OF dep_start])
       (use build_engine_inv assms in \<open>auto simp: process_lawful_def\<close>)
next
  case (dep_sign sv s wc req)
  thus ?case
    using sign_tx_engine_state[of "sv\<lparr>sv_wallet := wc\<rparr>" req s] dyn_sign_inv[of "pr_build P" "srv_engine s"] assms
    by (auto simp: process_lawful_def dyn_engine_def)
next
  case (dep_dkg sv s dq)
  thus ?case
    using dyn_dkg_inv[of "pr_build P" "srv_engine s"] assms
    by (auto simp: process_lawful_def service_dkg_def call_engine_state dyn_engine_def split: option.split)
next
  case (dep_rotate sv s k)
  thus ?case
    using dyn_rotate_inv[of "pr_build P" "srv_engine s"] assms
    by (auto simp: process_lawful_def service_rotate_key_def call_engine_state dyn_engine_def)
next
  case (dep_metadata sv s k)
  thus ?case
    using dyn_restore_metadata_inv(2)[of "pr_build P" "srv_engine s"]
    by (auto simp: service_get_key_metadata_def call_engine_state dyn_engine_def)
next
  case (dep_restore sv s tq)
  thus ?case
    using dyn_restore_metadata_inv(1)[of "pr_build P" "srv_engine s"]
    by (auto simp: service_restore_share_def call_engine_state dyn_engine_def)
qed simp

section \<open>Properties\<close>

text \<open>
  (C2) End to end, whatever backend the configuration selects, for a process whose calls come one after
  the other, each answered before the next begins: in every state it can reach from startup by such
  calls, in any order, a signature \<open>SignTx\<close> answers with is valid for the submitted payload under the
  public key returned with it, by the verifier of the requested chain. Wallet Management may answer
  each call differently. (Calls of the in-house engine that overlap are in \<open>Engine_Tasks\<close>: a rotation
  that overtakes a signature breaks this, calls that do not overlap on a key keep it.)
\<close>
theorem deployment_signatures_valid:
  assumes "process_lawful P" and "deployed P sv s" and "wallet_answers sv wc"
    and "sign_tx (sv\<lparr>sv_wallet := wc\<rparr>) req s = (Ok resp, s')"
  shows "\<exists>chain. chain_from_proto (sq_chain req) = Some chain \<and>
    chain_accepts (be_threshold (pr_build P)) chain (sq_tx_payload req) (sr_signature resp) (sr_public_key resp)"
  using dyn.response_accepted[of "sv\<lparr>sv_wallet := wc\<rparr>" "pr_build P" s req resp s'] deployed_inv[OF assms(1,2)] assms
  by (simp add: process_lawful_def)

text \<open>
  (C36) A process that starts without a policy key and without the developer switch fails closed: in
  any state, no request is answered with a signature and none reaches the engine.
\<close>
theorem unconfigured_policy_fails_closed:
  assumes "main_start P = Ok run" and "env_opt (pr_env P) ''POLICY_ENGINE_PUBKEY'' = None"
    and "pr_env P ''INSECURE_SKIP_POLICY'' \<noteq> Some ''true''"
    and "sign_tx (run_service run) req s = (r, s')"
  shows "\<not> is_ok r \<and> srv_engine s' = srv_engine s"
proof -
  have closed: "\<not> sv_skip_policy (run_service run)" "sv_verifier (run_service run) = None"
    using assms(2,3) by (auto simp: start_verifier_def intro: main_start_OkE[OF assms(1)])
  show ?thesis
  proof (cases "validate req")
    case (Ok chain)
    from assms(4) Ok show ?thesis
      by (cases rule: sign_tx_cases) (use closed in \<open>auto simp: policy_step_def\<close>)
  qed (use assms(4) in \<open>auto simp: sign_tx_def\<close>)
qed

text \<open>
  (C37) A started process always has an audit sink or TLS: no value of \<open>DEV_MODE\<close> lets it start without
  both, because the two checks read the variable differently (the text \<open>true\<close> against the text
  \<open>1\<close>).
\<close>
theorem started_with_audit_or_tls:
  assumes "main_start P = Ok run"
  shows "run_sink run \<noteq> None \<or> run_tls run \<noteq> None"
proof (rule main_start_OkE[OF assms])
  fix sink material
  assume "start_sink (pr_kafka_create P) (from_env (pr_read_text P) (pr_env P)) = Ok sink"
    and "mtls_from_env (pr_read_bytes P) (pr_env P) = Ok material"
    and "run_sink run = sink" "run_tls run = map_option server_config material"
  thus ?thesis
    using start_sink_None[of "pr_kafka_create P" "from_env (pr_read_text P) (pr_env P)"]
      mtls_from_env_None[of "pr_read_bytes P" "pr_env P"]
    by (cases sink; cases material) auto
qed

text \<open>
  The webhook endpoint: without a configured secret it answers 501, with one it answers 200
  exactly when the signature header is present, readable and decodes to the HMAC-SHA256 tag of
  the raw body, and 401 otherwise.
\<close>
theorem webhook_endpoint_authenticates:
  assumes "hmac_laws X" and "hex_decode X [] = Some []"
  shows "fst (custody_webhook X None headers body) = 501 \<and>
    fst (custody_webhook X (Some secret) headers body) =
      (if \<exists>v sig. headers ''x-custody-signature'' = Some v \<and> header_to_str v = Some sig \<and>
            hex_decode X sig = Some (hmac_sha256 X (as_bytes secret) body)
       then 200 else 401)"
proof -
  have "hmac_sha256 X (as_bytes secret) body \<noteq> []"
    using hmac_length[OF assms(1), of "as_bytes secret" body] by auto
  thus ?thesis
    using assms(2)
    by (cases "Option.bind (headers ''x-custody-signature'') header_to_str")
       (auto simp: custody_webhook_def verify_webhook_def bind_eq_Some_conv bind_eq_None_conv
          split: option.splits)
qed

theorem webhook_endpoint_authenticates_witness:
  "fst (custody_webhook demo_crates (Some ''s'') (\<lambda>_. None) [1]) = 401 \<and>
   fst (custody_webhook demo_crates (Some ''s'')
     (\<lambda>_. Some (as_bytes (webhook_signature demo_crates ''s'' [1]))) [1]) = 200"
proof -
  have "hex_decode demo_crates [] = Some []" by (simp add: demo_crates_def)
  note W = webhook_endpoint_authenticates[OF demo_hmac this]
  have "header_to_str (as_bytes (webhook_signature demo_crates ''s'' [1])) =
      Some (webhook_signature demo_crates ''s'' [1])"
    by code_simp
  moreover have "hex_decode demo_crates (webhook_signature demo_crates ''s'' [1]) =
      Some (hmac_sha256 demo_crates (as_bytes ''s'') [1])"
    by (simp add: webhook_signature_def crate_laws)
  ultimately show ?thesis using W[of _ "[1]" "''s''"] by simp
qed

section \<open>A concrete process\<close>

definition demo_vars :: env where
  "demo_vars = [''CUSTODY_PROVIDER'' \<mapsto> ''fireblocks'', ''CUSTODY_API_KEY'' \<mapsto> ''k'',
     ''CUSTODY_API_SECRET_KEY'' \<mapsto> ''pem'', ''KAFKA_BROKERS'' \<mapsto> ''kafka:9092'', ''MTLS_CERT'' \<mapsto> ''c'',
     ''MTLS_KEY'' \<mapsto> ''k'', ''MTLS_CA'' \<mapsto> ''a'']"

definition demo_process :: "env \<Rightarrow> (gf5, gf5, gf5, gf5, unit) process" where
  "demo_process env = \<lparr>pr_build = demo_build, pr_features = demo_features, pr_env = env,
     pr_read_text = (\<lambda>_. None), pr_read_bytes = (\<lambda>p. Ok (as_bytes p)),
     pr_from_shared = Ok, pr_channel_ready = (\<lambda>_. Ok ()),
     pr_unary = (\<lambda>_ _ _. Err (status_new Code_NotFound [])), pr_show_status = st_message,
     pr_kafka_create = (\<lambda>_. Ok ()), pr_bind = (\<lambda>_. Ok ()),
     pr_claims_serde = demo_claims_serde demo_claims, pr_audit_serde = demo_audit_serde,
     pr_seed = replicate 32 5, pr_engine_world = demo_world 1, pr_rng_ecdsa = sconst G1,
     pr_rng_eddsa = sconst G1, pr_net = demo_net, pr_world = demo_world 100\<rparr>"

lemma demo_start:
  assumes "env ''CUSTODY_PROVIDER'' = Some ''fireblocks''" "env ''CUSTODY_API_KEY'' = Some ''k''"
    "env ''CUSTODY_API_SECRET_KEY'' = Some ''pem''" "env ''KAFKA_BROKERS'' = Some ''kafka:9092''"
    "env ''MTLS_CERT'' = Some ''c''" "env ''MTLS_KEY'' = Some ''k''" "env ''MTLS_CA'' = Some ''a''"
    "env ''POLICY_ENGINE_PUBKEY'' = None" "env ''WALLET_MANAGEMENT_URL'' = None"
    "env ''NODE_SIGNING_KEY'' = None"
  shows "\<exists>run. main_start (demo_process env) = Ok run"
  using assms
  by (simp add: main_start_def demo_process_def Let_def start_verifier_def start_wallet_def from_env_def
      env_opt_def provider_parse_def to_ascii_lowercase_def build_engine_def demo_features_def
      fireblocks_from_config_def be_fireblocks_def demo_build_def demo_fireblocks_env_def demo_http_def
      audit_signer_new_def start_sink_def kafka_sink_new_def mtls_from_env_def env_either_def mtls_from_paths_def)

lemma demo_vars_start: "\<exists>run. main_start (demo_process demo_vars) = Ok run"
  by (rule demo_start) (simp_all add: demo_vars_def)

theorem started_with_audit_or_tls_witness:
  "\<exists>run. main_start (demo_process demo_vars) = Ok run \<and> (run_sink run \<noteq> None \<or> run_tls run \<noteq> None)"
  using demo_vars_start started_with_audit_or_tls by blast

theorem unconfigured_policy_fails_closed_witness:
  "\<exists>run. main_start (demo_process demo_vars) = Ok run \<and>
     \<not> is_ok (fst (sign_tx (run_service run) demo_request (run_state run)))"
proof -
  obtain run where run: "main_start (demo_process demo_vars) = Ok run" using demo_vars_start by blast
  have env: "env_opt (pr_env (demo_process demo_vars)) ''POLICY_ENGINE_PUBKEY'' = None"
    "pr_env (demo_process demo_vars) ''INSECURE_SKIP_POLICY'' \<noteq> Some ''true''"
    by (simp_all add: demo_process_def demo_vars_def env_opt_def)
  have "\<not> is_ok (fst (sign_tx (run_service run) demo_request (run_state run)))"
    using unconfigured_policy_fails_closed[OF run env, of demo_request "run_state run"]
    by (metis prod.collapse)
  with run show ?thesis by blast
qed

definition demo_open_vars :: env where
  "demo_open_vars = demo_vars(''INSECURE_SKIP_POLICY'' \<mapsto> ''true'', ''INSECURE_SKIP_WALLET_CHECK'' \<mapsto> ''true'')"

definition demo_fb_request :: SignTxRequest where
  "demo_fb_request = \<lparr>sq_key_id = ''7'', sq_chain = 1, sq_tx_payload = [1, 2],
     sq_policy_decision_token = [], sq_wallet_id = []\<rparr>"

lemma demo_fb_sign:
  "fst (fb_sign demo_k256 demo_fireblocks_env c \<lparr>er_key_id = ''7'', er_chain = Evm, er_payload = [1, 2]\<rparr>
     demo_net) = Ok \<lparr>es_signature = [9, 1, 2], es_public_key = [9]\<rparr>"
  by (simp add: fb_sign_def fb_post_json_def fb_get_json_def fb_sign_jwt_def fb_poll_transaction_def
      fb_poll_loop.simps fb_poll_query_def fb_tx_decision_def io_bind_def io_of_def utc_timestamp_def
      io_uuid_def new_v4_def read_clock_def instant_now_def http_send_def elapse_def demo_net_def
      demo_fireblocks_env_def demo_http_def const_serde_def fb_decode_response_def response_json_def
      demo_build_crates_def demo_ed_crates_def demo_crates_def demo_roundtrip verify_signature_def
      demo_k256_def Let_def del: demo_decode.simps)

lemma demo_built_fireblocks:
  assumes "main_start (demo_process demo_open_vars) = Ok run"
  shows "\<exists>c. srv_engine (run_state run) = \<lparr>dy_built = Built_Fireblocks c, dy_net = demo_net\<rparr>"
proof -
  have p: "custody_provider (from_env rd demo_open_vars) = Fireblocks" for rd
    by (simp add: from_env_def demo_open_vars_def demo_vars_def env_opt_def provider_parse_def
        to_ascii_lowercase_def)
  obtain engine where b: "build_engine demo_build demo_features (demo_world 1) (sconst G1) (sconst G1)
      (from_env (\<lambda>_. None) demo_open_vars) = Ok engine"
    and e: "srv_engine (run_state run) = \<lparr>dy_built = engine, dy_net = demo_net\<rparr>"
    by (rule main_start_OkE[OF assms]) (simp add: demo_process_def)
  from b obtain c where "engine = Built_Fireblocks c"
    by (auto simp: build_engine_def p result_simps split: if_splits)
  with e show ?thesis by blast
qed

lemma demo_process_lawful: "process_lawful (demo_process demo_open_vars)"
proof -
  have "total_n (from_env (\<lambda>_. None) demo_open_vars) = 3"
    by (simp add: from_env_def env_usize_def env_parse_def env_opt_def demo_open_vars_def demo_vars_def)
  thus ?thesis
    by (simp add: process_lawful_def demo_process_def demo_build_lawful demo_indices)
qed

lemma demo_signs:
  "\<exists>run resp s'. main_start (demo_process demo_open_vars) = Ok run \<and>
     sign_tx (run_service run) demo_fb_request (run_state run) = (Ok resp, s')"
proof -
  obtain run where run: "main_start (demo_process demo_open_vars) = Ok run"
    using demo_start[of demo_open_vars] by (auto simp: demo_open_vars_def demo_vars_def)
  have skip: "sv_skip_policy (run_service run)" "sv_skip_wallet_check (run_service run)"
    "sv_engine (run_service run) = dyn_engine demo_build"
    by (rule main_start_OkE[OF run]; simp add: demo_process_def demo_open_vars_def)+
  obtain c where c: "srv_engine (run_state run) = \<lparr>dy_built = Built_Fireblocks c, dy_net = demo_net\<rparr>"
    using demo_built_fireblocks[OF run] by blast
  have env: "be_fireblocks demo_build = demo_fireblocks_env" "be_k256 demo_build = demo_k256"
    by (simp_all add: be_fireblocks_def demo_build_def demo_fireblocks_env_def)
  have v: "validate demo_fb_request = Ok Evm"
    by (simp add: validate_Ok_iff demo_fb_request_def chain_from_proto_def)
  obtain r s' where r: "sign_tx (run_service run) demo_fb_request (run_state run) = (r, s')" by (rule prod.exhaust)
  have "\<exists>resp. r = Ok resp" using r v
  proof (cases rule: sign_tx_cases)
    case (engine s2)
    have "srv_engine s2 = srv_engine (run_state run)" using policy_step_simps(2)[OF engine(1)] by simp
    moreover have "r = fst (dispatch (run_service run) demo_fb_request
        (fst (open_session (run_service run) demo_fb_request Evm (run_state run))) s2)"
      using engine(3) by simp
    ultimately show ?thesis
      using demo_fb_sign[of c]
      by (simp add: dispatch_fst[where chain = Evm] engine_request_def demo_fb_request_def skip c
          dyn_engine_def dyn_sign_def through_net_def env case_prod_unfold)
  qed (simp_all add: policy_step_def wallet_step_def skip)
  with r run show ?thesis by blast
qed

theorem deployment_signatures_valid_witness:
  "\<exists>run resp s'. main_start (demo_process demo_open_vars) = Ok run \<and>
     sign_tx (run_service run) demo_fb_request (run_state run) = (Ok resp, s') \<and>
     chain_accepts (be_threshold demo_build) Evm [1, 2] (sr_signature resp) (sr_public_key resp)"
proof -
  obtain run resp s' where run: "main_start (demo_process demo_open_vars) = Ok run"
    and resp: "sign_tx (run_service run) demo_fb_request (run_state run) = (Ok resp, s')"
    using demo_signs by blast
  from deployment_signatures_valid[OF demo_process_lawful dep_start[OF run], of "sv_wallet (run_service run)" demo_fb_request resp s'] resp
  have "chain_accepts (be_threshold demo_build) Evm [1, 2] (sr_signature resp) (sr_public_key resp)"
    by (simp add: demo_fb_request_def chain_from_proto_def demo_process_def)
  with run resp show ?thesis by blast
qed

end
