(* ===== verification/Service_Types.thy ===== *)
theory Service_Types
  imports Service
begin

text \<open>
  The shape of the service's data, beyond what the types of \<open>src/domain.rs\<close> and \<open>src/audit.rs\<close>
  enforce: which sessions carry a denial reason, which audit records a signature, under which
  name a session is stored, and how long the audit queue can be. Every handler of
  \<open>src/grpc/service.rs\<close> keeps it.
\<close>

section \<open>Well-typed sessions, records and states\<close>

fun status_fits :: "SessionStatus \<Rightarrow> string option \<Rightarrow> bool" where
  "status_fits Denied reason \<longleftrightarrow> reason \<noteq> None"
| "status_fits Failed reason \<longleftrightarrow> reason \<noteq> None"
| "status_fits _ reason \<longleftrightarrow> reason = None"

definition session_typed :: "SigningSessionId \<Rightarrow> SigningSession \<Rightarrow> bool" where
  "session_typed i ses \<longleftrightarrow> ss_id ses = i \<and> ss_key_id ses \<noteq> [] \<and> status_fits (ss_status ses) (ss_denial_reason ses)"

fun result_fits :: "AuditResult \<Rightarrow> string option \<Rightarrow> string option \<Rightarrow> bool" where
  "result_fits Audit_Signed reason sig \<longleftrightarrow> reason = None \<and> sig \<noteq> None"
| "result_fits _ reason sig \<longleftrightarrow> reason \<noteq> None \<and> sig = None"

definition record_typed :: "SigningAuditRecord \<Rightarrow> bool" where
  "record_typed r \<longleftrightarrow> ar_key_id r \<noteq> [] \<and> result_fits (ar_result r) (ar_denial_reason r) (ar_signature r) \<and>
     (\<exists>n. ar_participants r = [ns_node_id n] \<and> ar_node_signatures r = [n])"

definition service_typed :: "'e service_state \<Rightarrow> bool" where
  "service_typed s \<longleftrightarrow>
     (\<forall>i ses. session_get (srv_sessions s) i = Some ses \<longrightarrow> session_typed i ses) \<and>
     length (srv_queue s) \<le> audit_capacity \<and> (\<forall>r \<in> set (srv_queue s). record_typed r)"

section \<open>Lemmas\<close>

lemma service_typed_frame:
  "\<lbrakk>service_typed s; srv_sessions s' = srv_sessions s; srv_queue s' = srv_queue s\<rbrakk> \<Longrightarrow> service_typed s'"
  by (simp add: service_typed_def)

lemma service_typed_drop:
  "service_typed s \<Longrightarrow> srv_queue s = xs @ q \<Longrightarrow> service_typed (s\<lparr>srv_queue := q\<rparr>)"
  by (simp add: service_typed_def)

lemma open_session_typed:
  assumes "service_typed s" and "validate req = Ok chain"
  shows "service_typed (snd (open_session sv req chain s))"
    and "ss_key_id (fst (open_session sv req chain s)) \<noteq> []"
  using assms
  by (auto simp: open_session_def service_typed_def session_typed_def inmem_sessions.get_ins validate_Ok_iff
      Let_def case_prod_unfold split: if_splits)

lemma set_status_typed:
  "\<lbrakk>service_typed s; status_fits st reason\<rbrakk> \<Longrightarrow> service_typed (set_status i st reason s)"
  by (auto simp: set_status_def service_typed_def session_typed_def inmem_sessions.get_upd split: if_splits)

lemma emit_record_typed:
  assumes "service_typed s" and "ss_key_id ses \<noteq> []" and "result_fits res reason sg"
  shows "service_typed (emit_record sv ses res reason sg s)"
proof -
  obtain rec w where rec: "audit_record (sv_crates sv) (sv_audit_serde sv) (sv_audit_signer sv)
      (ss_id ses) (ss_key_id ses) (ss_chain ses) (ss_request_hash ses) res reason sg (srv_world s) = (rec, w)"
    by fastforce
  have "record_typed rec"
    using audit_record_fields[OF rec] audit_record_signatures[OF rec] assms(2,3) by (simp add: record_typed_def)
  thus ?thesis using assms(1) by (auto simp: emit_record_def rec emit_def service_typed_def)
qed

lemma deny_typed:
  "\<lbrakk>service_typed s; ss_key_id ses \<noteq> []\<rbrakk> \<Longrightarrow> service_typed (snd (deny sv ses reason code s))"
  by (simp add: deny_def emit_record_typed set_status_typed)

lemma dispatch_typed:
  assumes "service_typed s" and "ss_key_id ses \<noteq> []"
  shows "service_typed (snd (dispatch sv req ses s))"
proof -
  obtain re e where re: "eng_sign (sv_engine sv)
      \<lparr>er_key_id = ss_key_id ses, er_chain = ss_chain ses, er_payload = sq_tx_payload req\<rparr>
      (srv_engine (set_status (ss_id ses) Signing None s)) = (re, e)" by fastforce
  have "service_typed ((set_status (ss_id ses) Signing None s)\<lparr>srv_engine := e\<rparr>)"
    by (rule service_typed_frame[OF set_status_typed[OF assms(1)]]) simp_all
  with re assms(2) show ?thesis
    by (cases re) (simp_all add: dispatch_def Let_def emit_record_typed set_status_typed)
qed

lemma sign_tx_typed:
  assumes "service_typed s"
  shows "service_typed (snd (sign_tx sv req s))"
proof (cases "validate req")
  case (Ok chain)
  note opened = open_session_typed[OF assms Ok, of sv]
  obtain r s' where run: "sign_tx sv req s = (r, s')" by (rule prod.exhaust)
  have typed: "service_typed s2"
    if "policy_step sv req chain (snd (open_session sv req chain s)) = (pr, s2)" for pr s2
    by (rule service_typed_frame[OF opened(1)]) (use policy_step_simps[OF that] in simp_all)
  from run Ok have "service_typed s'"
  proof (cases rule: sign_tx_cases)
    case (policy reason code s2)
    show ?thesis unfolding policy(3) by (rule deny_typed[OF typed[OF policy(1)] opened(2)])
  next
    case (wallet reason code s2)
    show ?thesis unfolding wallet(4) by (rule deny_typed[OF typed[OF wallet(1)] opened(2)])
  next
    case (wallet_panic s2)
    show ?thesis unfolding wallet_panic(4) by (rule typed[OF wallet_panic(1)])
  next
    case (engine s2)
    from dispatch_typed[OF typed[OF engine(1)] opened(2), of sv req] show ?thesis by (simp add: engine(3))
  qed
  with run show ?thesis by simp
qed (use assms in \<open>simp_all add: sign_tx_def\<close>)

lemma call_engine_typed: "service_typed s \<Longrightarrow> service_typed (snd (call_engine re f s))"
  by (simp add: call_engine_def service_typed_def split: prod.split)

lemma control_plane_typed:
  assumes "service_typed s"
  shows "service_typed (snd (service_dkg sv dq s))" and "service_typed (snd (service_rotate_key sv k s))"
    and "service_typed (snd (service_get_key_metadata sv k s))"
    and "service_typed (snd (service_restore_share sv tq s))"
  using assms
  by (simp_all add: service_dkg_def service_rotate_key_def service_get_key_metadata_def
      service_restore_share_def call_engine_typed split: option.split)

end
