(* ===== verification/Lifecycle.thy ===== *)
theory Lifecycle
  imports Startup Service_Types
begin

text \<open>
  \<open>src/main.rs\<close> from start to exit: the routes of the HTTP port, the future that asks for shutdown,
  \<open>serve\<close> of \<open>src/grpc/service.rs\<close>, and the life of the process, in which the handlers fill the
  audit queue, the delivery task of \<open>src/audit.rs\<close> empties it, and \<open>main\<close> returns once serving has
  ended. Returning from \<open>main\<close> drops the runtime and with it the delivery task.
\<close>

section \<open>HTTP routes\<close>

type_synonym http_handler = "(string \<Rightarrow> bytes option) \<Rightarrow> bytes \<Rightarrow> nat \<times> json"

definition http_app :: "crates \<Rightarrow> string option \<Rightarrow> (string \<times> string \<times> http_handler) list" where
  "http_app X webhook_secret =
     [(''/healthz'', ''GET'', \<lambda>_ _. (200, healthz)),
      (''/v1/custody/webhook'', ''POST'', custody_webhook X webhook_secret)]"

section \<open>Shutdown\<close>

datatype signal = Ctrl_C | Sig_Term

text \<open>
  What the operating system does for the two futures: whether a handler can be installed, and the
  signals that have arrived. A future whose handler cannot be installed is ready at once; the
  first one ready decides.
\<close>

record signals =
  sg_ctrl_c_installs :: bool
  sg_term_installs :: bool
  sg_received :: "signal list"

definition shutdown_signal :: "signals \<Rightarrow> bool" where
  "shutdown_signal S \<longleftrightarrow>
     (\<not> sg_ctrl_c_installs S \<or> Ctrl_C \<in> set (sg_received S)) \<or>
     (\<not> sg_term_installs S \<or> Sig_Term \<in> set (sg_received S))"

text \<open>
  \<open>tls_config\<close> is tonic's check of the TLS settings, \<open>served\<close> the outcome of serving until the
  shutdown future is ready.
\<close>

definition serve ::
  "(ServerTlsConfig \<Rightarrow> (unit, string) result) \<Rightarrow> ServerTlsConfig option \<Rightarrow> (unit, string) result \<Rightarrow>
   (unit, string) result" where
  "serve tls_config tls served =
     and_then (case tls of Some t \<Rightarrow> tls_config t | None \<Rightarrow> Ok ()) (\<lambda>_. served)"

section \<open>The process\<close>

record ('s, 't, 'h, 'k) live =
  lv_run :: "('s, 't, 'h) running"
  lv_state :: "('s, 't, 'h) dyn_state service_state"
  lv_delivery :: "'k delivery"
  lv_signals :: signals

datatype ('s, 't, 'h, 'k) lifecycle =
    Live "('s, 't, 'h, 'k) live"
  | Exited "(unit, StartupError) result" "'k delivery" "SigningAuditRecord list" signals

text \<open>
  \<open>sink_of\<close> gives the methods of the sink that \<open>main\<close> built, \<open>k0\<close> its state; \<open>tls_config\<close> is as above.
\<close>

record 'k host =
  ho_sink_of :: "KafkaAuditSink \<Rightarrow> 'k sink"
  ho_sink_state :: 'k
  ho_tls_config :: "ServerTlsConfig \<Rightarrow> (unit, string) result"
  ho_ctrl_c_installs :: bool
  ho_term_installs :: bool

definition host_signals :: "'k host \<Rightarrow> signals" where
  "host_signals H = \<lparr>sg_ctrl_c_installs = ho_ctrl_c_installs H, sg_term_installs = ho_term_installs H,
     sg_received = []\<rparr>"

definition main_begin ::
  "'k host \<Rightarrow> ('s :: field, 'p :: ab_group_add, 't :: field, 'q :: ab_group_add, 'h) process \<Rightarrow>
   ('s, 't, 'h, 'k) lifecycle" where
  "main_begin H P =
     (let d = delivery_start (ho_sink_state H) in
      case main_start P of
        Ok run \<Rightarrow>
          (case serve (ho_tls_config H) (run_tls run) (Ok ()) of
             Ok u \<Rightarrow> Live \<lparr>lv_run = run, lv_state = run_state run, lv_delivery = d,
                            lv_signals = host_signals H\<rparr>
           | Err e \<Rightarrow> Exited (Err (SE_Serve e)) d (srv_queue (run_state run)) (host_signals H)
           | Panic \<Rightarrow> Exited Panic d (srv_queue (run_state run)) (host_signals H))
      | Err e \<Rightarrow> Exited (Err e) d [] (host_signals H)
      | Panic \<Rightarrow> Exited Panic d [] (host_signals H))"

text \<open>
  While the process serves: calls of the service, steps of the delivery task, signals. Serving
  ends when the shutdown future is ready, or with an error of the listener; then \<open>main\<close> returns,
  whatever the audit queue holds.
\<close>

inductive lifecycle_step ::
  "'k host \<Rightarrow> ('s :: field, 't :: field, 'h, 'k) lifecycle \<Rightarrow> ('s, 't, 'h, 'k) lifecycle \<Rightarrow> bool" for H where
  lc_sign: "wallet_answers (run_service (lv_run L)) wc \<Longrightarrow> lifecycle_step H (Live L)
    (Live (L\<lparr>lv_state := snd (sign_tx ((run_service (lv_run L))\<lparr>sv_wallet := wc\<rparr>) req (lv_state L))\<rparr>))"
| lc_dkg: "dyn_key_fresh (srv_engine (lv_state L)) \<Longrightarrow>
    lifecycle_step H (Live L) (Live (L\<lparr>lv_state := snd (service_dkg (run_service (lv_run L)) dq (lv_state L))\<rparr>))"
| lc_rotate:
    "lifecycle_step H (Live L) (Live (L\<lparr>lv_state := snd (service_rotate_key (run_service (lv_run L)) rq (lv_state L))\<rparr>))"
| lc_metadata:
    "lifecycle_step H (Live L) (Live (L\<lparr>lv_state := snd (service_get_key_metadata (run_service (lv_run L)) mq (lv_state L))\<rparr>))"
| lc_restore:
    "lifecycle_step H (Live L) (Live (L\<lparr>lv_state := snd (service_restore_share (run_service (lv_run L)) tq (lv_state L))\<rparr>))"
| lc_deliver: "delivery_step (map_option (ho_sink_of H) (run_sink (lv_run L))) (srv_queue (lv_state L)) (lv_delivery L) = (q, d)
    \<Longrightarrow> lifecycle_step H (Live L) (Live (L\<lparr>lv_state := (lv_state L)\<lparr>srv_queue := q\<rparr>, lv_delivery := d\<rparr>))"
| lc_signal: "lifecycle_step H (Live L)
    (Live (L\<lparr>lv_signals := (lv_signals L)\<lparr>sg_received := sg_received (lv_signals L) @ [g]\<rparr>\<rparr>))"
| lc_stop: "shutdown_signal (lv_signals L) \<Longrightarrow>
    lifecycle_step H (Live L) (Exited (Ok ()) (lv_delivery L) (srv_queue (lv_state L)) (lv_signals L))"
| lc_fail: "lifecycle_step H (Live L)
    (Exited (Err (SE_Serve e)) (lv_delivery L) (srv_queue (lv_state L)) (lv_signals L))"

abbreviation lifecycle_run where
  "lifecycle_run H P \<sigma> \<equiv> (lifecycle_step H)\<^sup>*\<^sup>* (main_begin H P) \<sigma>"

section \<open>Lemmas\<close>

inductive_cases lifecycle_stepE: "lifecycle_step H \<sigma> \<sigma>'"

lemma emit_record_queue:
  "\<exists>rec. srv_queue (emit_record sv ses res reason sg s) = emit rec (srv_queue s) \<and>
    ar_result rec = res \<and> ar_signing_session_id rec = ss_id ses"
proof -
  obtain rec w where rec: "audit_record (sv_crates sv) (sv_audit_serde sv) (sv_audit_signer sv)
      (ss_id ses) (ss_key_id ses) (ss_chain ses) (ss_request_hash ses) res reason sg (srv_world s) = (rec, w)"
    by fastforce
  thus ?thesis using audit_record_fields[OF rec] by (auto simp: emit_record_def)
qed

lemma dispatch_Ok_queue:
  assumes "dispatch sv req ses s = (Ok resp, s')"
  shows "\<exists>rec. srv_queue s' = emit rec (srv_queue s) \<and> ar_result rec = Audit_Signed \<and>
    ar_signing_session_id rec = sr_signing_session_id resp"
proof -
  obtain re e where re: "eng_sign (sv_engine sv)
      \<lparr>er_key_id = ss_key_id ses, er_chain = ss_chain ses, er_payload = sq_tx_payload req\<rparr>
      (srv_engine (set_status (ss_id ses) Signing None s)) = (re, e)" by fastforce
  then obtain sig where sig: "re = Ok sig" using assms by (cases re) (auto simp: dispatch_def Let_def)
  let ?s = "set_status (ss_id ses) Signed None ((set_status (ss_id ses) Signing None s)\<lparr>srv_engine := e\<rparr>)"
  have "s' = emit_record sv ses Audit_Signed None (Some (hex_encode (sv_crates sv) (es_signature sig))) ?s"
    and "sr_signing_session_id resp = ss_id ses"
    using assms re sig by (auto simp: dispatch_def Let_def)
  thus ?thesis
    using emit_record_queue[of sv ses Audit_Signed None "Some (hex_encode (sv_crates sv) (es_signature sig))" ?s]
    by simp
qed

lemma signed_record_queued:
  assumes "sign_tx sv req s = (Ok resp, s')"
  shows "\<exists>rec. srv_queue s' = emit rec (srv_queue s) \<and> ar_result rec = Audit_Signed \<and>
    ar_signing_session_id rec = sr_signing_session_id resp"
proof (cases "validate req")
  case (Ok chain)
  from assms Ok show ?thesis
  proof (cases rule: sign_tx_cases)
    case (engine s2)
    have "srv_queue s2 = srv_queue s" using policy_step_simps[OF engine(1)] by simp
    with dispatch_Ok_queue[OF engine(3)] show ?thesis by simp
  qed simp_all
qed (use assms in \<open>auto simp: sign_tx_def\<close>)

text \<open>What stays true of a process: its signal handlers, and why it ended.\<close>

definition lifecycle_inv ::
  "'k host \<Rightarrow> ('s :: field, 'p :: ab_group_add, 't :: field, 'q :: ab_group_add, 'h) process \<Rightarrow>
   ('s, 't, 'h, 'k) lifecycle \<Rightarrow> bool" where
  "lifecycle_inv H P \<sigma> = (case \<sigma> of
       Live L \<Rightarrow> main_start P = Ok (lv_run L) \<and>
         sg_ctrl_c_installs (lv_signals L) = ho_ctrl_c_installs H \<and> sg_term_installs (lv_signals L) = ho_term_installs H
     | Exited r d q S \<Rightarrow>
         (r = Ok () \<longrightarrow> is_ok (main_start P) \<and> shutdown_signal S \<and>
            sg_ctrl_c_installs S = ho_ctrl_c_installs H \<and> sg_term_installs S = ho_term_installs H) \<and>
         (\<forall>e. r = Err e \<longrightarrow> main_start P = Err e \<or> (\<exists>m. e = SE_Serve m)))"

lemma lifecycle_inv_run: "lifecycle_run H P \<sigma> \<Longrightarrow> lifecycle_inv H P \<sigma>"
proof (induction rule: rtranclp_induct)
  case base
  show ?case
    by (auto simp: main_begin_def lifecycle_inv_def host_signals_def Let_def split: result.splits)
next
  case (step \<sigma> \<sigma>')
  from step(2,3) show ?case by (cases rule: lifecycle_step.cases) (auto simp: lifecycle_inv_def is_ok_iff)
qed

text \<open>The shape of the data of a process, its audit task included.\<close>

definition delivery_typed :: "'k delivery \<Rightarrow> bool" where
  "delivery_typed d \<longleftrightarrow> (\<forall>r n. dl_flight d = Some (r, n) \<longrightarrow> record_typed r \<and> n \<le> 3) \<and>
     (\<forall>rec \<in> set (dl_finished d). record_typed (fst rec))"

fun lifecycle_typed :: "('s :: field, 't :: field, 'h, 'k) lifecycle \<Rightarrow> bool" where
  "lifecycle_typed (Live L) \<longleftrightarrow> service_typed (lv_state L) \<and> delivery_typed (lv_delivery L)"
| "lifecycle_typed (Exited r d q S) \<longleftrightarrow> delivery_typed d \<and> length q \<le> audit_capacity \<and> (\<forall>r \<in> set q. record_typed r)"

lemma delivery_step_typed:
  assumes step: "delivery_step sink (srv_queue s) d = (q, d')" and "service_typed s" and "delivery_typed d"
  shows "service_typed (s\<lparr>srv_queue := q\<rparr>)" and "delivery_typed d'"
proof -
  have "q = srv_queue s \<or> (\<exists>r. srv_queue s = [r] @ q)"
    using step by (auto simp: delivery_step_def split: option.splits list.splits)
  thus "service_typed (s\<lparr>srv_queue := q\<rparr>)"
    using service_typed_drop[OF assms(2), of "[]" q] service_typed_drop[OF assms(2), of "[_]" q] by auto
  show "delivery_typed d'"
  proof (cases "dl_flight d")
    case None
    with step assms(2,3) show ?thesis
      by (auto simp: delivery_step_def delivery_typed_def service_typed_def split: list.splits)
  next
    case (Some f)
    obtain r n where f: "f = (r, n)" by (rule prod.exhaust)
    hence typed: "record_typed r" "\<forall>rec \<in> set (dl_finished d). record_typed (fst rec)"
      using assms(3) Some by (auto simp: delivery_typed_def)
    with step Some f show ?thesis
      by (auto simp: delivery_step_def delivery_typed_def split: option.splits prod.splits result.splits if_splits)
  qed
qed

lemma main_begin_typed: "lifecycle_typed (main_begin H P)"
proof -
  have d: "delivery_typed (delivery_start (ho_sink_state H))"
    by (simp add: delivery_typed_def delivery_start_def)
  have "srv_queue (run_state run) = [] \<and> srv_sessions (run_state run) = session_store_new"
    if "main_start P = Ok run" for run
    using that unfolding main_start_def Let_def by (auto simp: result_simps emitter_start_def)
  thus ?thesis
    by (auto simp: main_begin_def Let_def d service_typed_def inmem_sessions.get_empty split: result.splits)
qed

lemma service_typed_queue:
  "service_typed s \<Longrightarrow> length (srv_queue s) \<le> audit_capacity \<and> (\<forall>r \<in> set (srv_queue s). record_typed r)"
  by (simp add: service_typed_def)

lemma lifecycle_step_typed:
  assumes "lifecycle_step H \<sigma> \<sigma>'" and "lifecycle_typed \<sigma>"
  shows "lifecycle_typed \<sigma>'"
  using assms
proof (cases rule: lifecycle_step.cases)
  case (lc_deliver L q d)
  with assms(2) delivery_step_typed[OF lc_deliver(3)] show ?thesis by simp
qed (use assms(2) in \<open>auto simp: sign_tx_typed control_plane_typed dest: service_typed_queue\<close>)

lemma stop_after_signal:
  assumes "lifecycle_run H P (Live L)"
  shows "\<exists>S. lifecycle_run H P (Exited (Ok ()) (lv_delivery L) (srv_queue (lv_state L)) S)"
proof -
  let ?L = "L\<lparr>lv_signals := (lv_signals L)\<lparr>sg_received := sg_received (lv_signals L) @ [Sig_Term]\<rparr>\<rparr>"
  have "lifecycle_run H P (Live ?L)"
    by (rule rtranclp.rtrancl_into_rtrancl[OF assms]) (rule lc_signal)
  moreover have "lifecycle_step H (Live ?L)
      (Exited (Ok ()) (lv_delivery ?L) (srv_queue (lv_state ?L)) (lv_signals ?L))"
    by (rule lc_stop) (simp add: shutdown_signal_def)
  ultimately show ?thesis by (metis (no_types, lifting) live.select_convs(2,3) live.surjective live.update_convs(4)
      rtranclp.rtrancl_into_rtrancl)
qed

section \<open>A concrete host\<close>

definition demo_host :: "bool \<Rightarrow> unit host" where
  "demo_host term_ok = \<lparr>ho_sink_of = (\<lambda>_ _ k. (None, k)), ho_sink_state = (), ho_tls_config = (\<lambda>_. Ok ()),
     ho_ctrl_c_installs = True, ho_term_installs = term_ok\<rparr>"

lemma demo_begin:
  assumes "main_start P = Ok run"
  shows "main_begin (demo_host b) P = Live \<lparr>lv_run = run, lv_state = run_state run,
    lv_delivery = delivery_start (), lv_signals = host_signals (demo_host b)\<rparr>"
  by (simp add: main_begin_def assms serve_def demo_host_def Let_def split: option.split)

section \<open>Properties\<close>

text \<open>
  (C35) Why a process ends: a normal exit means that it had started and that the shutdown future was
  ready; an error exit carries the error that startup refused with, or an error of serving. A
  process that is up can end normally without having received any signal exactly when one of the
  two signal handlers could not be installed.
\<close>
theorem exit_reasons:
  "(\<forall>r d q S. lifecycle_run H P (Exited r d q S) \<longrightarrow>
      (r = Ok () \<longrightarrow> is_ok (main_start P) \<and> shutdown_signal S) \<and>
      (\<forall>e. r = Err e \<longrightarrow> main_start P = Err e \<or> (\<exists>m. e = SE_Serve m))) \<and>
   (main_begin H P = Live L \<longrightarrow>
      (\<exists>d q S. lifecycle_run H P (Exited (Ok ()) d q S) \<and> sg_received S = []) \<longleftrightarrow>
        \<not> (ho_ctrl_c_installs H \<and> ho_term_installs H))"
proof (intro conjI allI impI)
  fix r d q S assume "lifecycle_run H P (Exited r d q S)"
  from lifecycle_inv_run[OF this]
  show "r = Ok () \<Longrightarrow> is_ok (main_start P)" "r = Ok () \<Longrightarrow> shutdown_signal S"
    "r = Err e \<Longrightarrow> main_start P = Err e \<or> (\<exists>m. e = SE_Serve m)" for e
    by (auto simp: lifecycle_inv_def)
next
  assume up: "main_begin H P = Live L"
  have S: "lv_signals L = host_signals H"
    using up by (auto simp: main_begin_def Let_def split: result.splits)
  show "(\<exists>d q S. lifecycle_run H P (Exited (Ok ()) d q S) \<and> sg_received S = []) \<longleftrightarrow>
      \<not> (ho_ctrl_c_installs H \<and> ho_term_installs H)"
  proof
    assume "\<exists>d q S. lifecycle_run H P (Exited (Ok ()) d q S) \<and> sg_received S = []"
    thus "\<not> (ho_ctrl_c_installs H \<and> ho_term_installs H)"
      using lifecycle_inv_run by (fastforce simp: lifecycle_inv_def shutdown_signal_def)
  next
    assume "\<not> (ho_ctrl_c_installs H \<and> ho_term_installs H)"
    hence "shutdown_signal (lv_signals L)" by (auto simp: S shutdown_signal_def host_signals_def)
    from lc_stop[OF this, of H] have "lifecycle_run H P
        (Exited (Ok ()) (lv_delivery L) (srv_queue (lv_state L)) (lv_signals L))"
      unfolding up by (rule r_into_rtranclp)
    moreover have "sg_received (lv_signals L) = []" by (simp add: S host_signals_def)
    ultimately show "\<exists>d q S. lifecycle_run H P (Exited (Ok ()) d q S) \<and> sg_received S = []" by blast
  qed
qed

theorem exit_reasons_witness:
  "\<exists>d q S. lifecycle_run (demo_host False) (demo_process demo_open_vars) (Exited (Ok ()) d q S) \<and>
    sg_received S = [] \<and> shutdown_signal S"
proof -
  obtain run where run: "main_start (demo_process demo_open_vars) = Ok run" using demo_signs by blast
  have "\<not> (ho_ctrl_c_installs (demo_host False) \<and> ho_term_installs (demo_host False))"
    by (simp add: demo_host_def)
  with exit_reasons[of "demo_host False" "demo_process demo_open_vars"] demo_begin[OF run, of False]
  show ?thesis by blast
qed

text \<open>
  (C33) The data of a process is well typed throughout its life, whatever calls it serves: each session
  is stored under its own id, names a key, and carries a denial reason exactly when it is denied
  or failed; each audit record, queued, in delivery or done, has one signing participant, and
  a signature or a reason according to its result; the queue never exceeds its capacity and a
  record is retried at most three times.
\<close>
theorem process_state_well_typed:
  assumes "lifecycle_run H P \<sigma>"
  shows "lifecycle_typed \<sigma>"
  using assms by (induction rule: rtranclp_induct) (auto intro: main_begin_typed lifecycle_step_typed)

theorem process_state_well_typed_witness:
  "\<exists>run resp s'. main_start (demo_process demo_open_vars) = Ok run \<and>
    sign_tx (run_service run) demo_fb_request (run_state run) = (Ok resp, s') \<and>
    lifecycle_typed (Live (\<lparr>lv_run = run, lv_state = s', lv_delivery = delivery_start (),
      lv_signals = host_signals (demo_host True)\<rparr>))"
proof -
  obtain run resp s' where run: "main_start (demo_process demo_open_vars) = Ok run"
    and sign: "sign_tx (run_service run) demo_fb_request (run_state run) = (Ok resp, s')"
    using demo_signs by blast
  have "lifecycle_step (demo_host True) (main_begin (demo_host True) (demo_process demo_open_vars))
      (Live \<lparr>lv_run = run, lv_state = s', lv_delivery = delivery_start (), lv_signals = host_signals (demo_host True)\<rparr>)"
    using lc_sign[of "\<lparr>lv_run = run, lv_state = run_state run, lv_delivery = delivery_start (),
      lv_signals = host_signals (demo_host True)\<rparr>" "sv_wallet (run_service run)" "demo_host True" demo_fb_request] sign
    by (simp add: demo_begin[OF run])
  hence "lifecycle_run (demo_host True) (demo_process demo_open_vars)
      (Live \<lparr>lv_run = run, lv_state = s', lv_delivery = delivery_start (), lv_signals = host_signals (demo_host True)\<rparr>)"
    by (rule r_into_rtranclp)
  from process_state_well_typed[OF this] run sign show ?thesis by blast
qed

text \<open>
  (C34) A shutdown loses audit records: whatever a serving process has done so far, after it has
  answered a request with a signature it can exit normally while the record of that signature is
  still in the queue, and nothing delivers it any more.
\<close>
theorem shutdown_loses_audit_record:
  assumes "lifecycle_run H P (Live L)"
    and "length (srv_queue (lv_state L)) < audit_capacity"
    and "wallet_answers (run_service (lv_run L)) wc"
    and "sign_tx ((run_service (lv_run L))\<lparr>sv_wallet := wc\<rparr>) req (lv_state L) = (Ok resp, s')"
  shows "\<exists>rec S. lifecycle_run H P (Exited (Ok ()) (lv_delivery L) (srv_queue (lv_state L) @ [rec]) S) \<and>
    ar_signing_session_id rec = sr_signing_session_id resp \<and> ar_result rec = Audit_Signed"
proof -
  obtain rec where rec: "srv_queue s' = emit rec (srv_queue (lv_state L))" "ar_result rec = Audit_Signed"
      "ar_signing_session_id rec = sr_signing_session_id resp"
    using signed_record_queued[OF assms(4)] by blast
  have "lifecycle_step H (Live L) (Live (L\<lparr>lv_state := s'\<rparr>))"
    using lc_sign[OF assms(3), of H req] assms(4) by simp
  with assms(1) have "lifecycle_run H P (Live (L\<lparr>lv_state := s'\<rparr>))" by (rule rtranclp.rtrancl_into_rtrancl)
  from stop_after_signal[OF this] rec show ?thesis using assms(2) by (auto simp: emit_def)
qed

theorem shutdown_loses_audit_record_witness:
  "\<exists>rec S. lifecycle_run (demo_host True) (demo_process demo_open_vars)
      (Exited (Ok ()) (delivery_start ()) [rec] S) \<and> ar_result rec = Audit_Signed"
proof -
  obtain run resp s' where run: "main_start (demo_process demo_open_vars) = Ok run"
    and sign: "sign_tx (run_service run) demo_fb_request (run_state run) = (Ok resp, s')"
    using demo_signs by blast
  let ?L = "\<lparr>lv_run = run, lv_state = run_state run, lv_delivery = delivery_start (),
    lv_signals = host_signals (demo_host True)\<rparr>"
  have up: "lifecycle_run (demo_host True) (demo_process demo_open_vars) (Live ?L)"
    by (simp add: demo_begin[OF run])
  have queue: "srv_queue (run_state run) = []" by (rule main_start_OkE[OF run])
  from shutdown_loses_audit_record[OF up, of "sv_wallet (run_service run)"] sign queue show ?thesis
    by (fastforce simp: audit_capacity_def)
qed

end
