(* ===== verification/Interleaved_Service.thy ===== *)
theory Interleaved_Service
  imports Service
begin

text \<open>
  \<open>src/grpc/service.rs\<close> under load. The service runs one task per request; between the steps of one
  handler other handlers, the control plane, the delivery task and the clock go on. The step
  relation \<open>serve_step\<close> interleaves the steps of \<open>sign_tx\<close> of any number of requests: opening the
  session, the policy check, the wallet call with the move to the status signing, and the engine
  call with the closing of the session. Each store call takes its lock once, so these steps are
  where handlers can meet. A handler whose client goes away is dropped at an await point, the
  wallet or the engine call.
\<close>

section \<open>Handlers in flight\<close>

datatype stage =
    Opened SigningSession
  | Cleared SigningSession
  | Signing_At SigningSession
  | Dropped SigningSession
  | Finished "SigningSession option" "(SignTxResponse, Status) result"

fun stage_session :: "stage \<Rightarrow> SigningSession option" where
  "stage_session (Opened ses) = Some ses"
| "stage_session (Cleared ses) = Some ses"
| "stage_session (Signing_At ses) = Some ses"
| "stage_session (Dropped ses) = Some ses"
| "stage_session (Finished so r) = so"

type_synonym pool = "nat \<rightharpoonup> SignTxRequest \<times> stage"

text \<open>The part of \<open>sign_tx\<close> from the engine call on.\<close>

definition finish_dispatch ::
  "'e MpcService \<Rightarrow> SignTxRequest \<Rightarrow> SigningSession \<Rightarrow> 'e service_state \<Rightarrow>
   (SignTxResponse, Status) result \<times> 'e service_state" where
  "finish_dispatch sv req session s =
     (let (r, e) = eng_sign (sv_engine sv)
                     \<lparr>er_key_id = ss_key_id session, er_chain = ss_chain session,
                      er_payload = sq_tx_payload req\<rparr> (srv_engine s);
          s' = s\<lparr>srv_engine := e\<rparr>
      in case r of
           Ok sig \<Rightarrow>
             (Ok \<lparr>sr_signing_session_id = ss_id session, sr_signature = es_signature sig,
                  sr_public_key = es_public_key sig, sr_address = []\<rparr>,
              emit_record sv session Audit_Signed None
                (Some (hex_encode (sv_crates sv) (es_signature sig)))
                (set_status (ss_id session) Signed None s'))
         | Err err \<Rightarrow>
             (let msg = engine_error_to_string err
              in (Err (engine_status err),
                  emit_record sv session Audit_Failed (Some msg) None
                    (set_status (ss_id session) Failed (Some msg) s')))
         | Panic \<Rightarrow> (Panic, s'))"

text \<open>
  Wallet Management is asked over the network: each wallet step may see another answer \<open>wc\<close>. The
  background may change everything but the two stores: the engine, the audit queue, clock and
  UUIDs. A new session's UUID is new.
\<close>

inductive serve_step ::
  "'e MpcService \<Rightarrow> 'e service_state \<times> pool \<Rightarrow> 'e service_state \<times> pool \<Rightarrow> bool" for sv where
  st_reject:
    "\<lbrakk>T t = None; validate req = Err st\<rbrakk>
     \<Longrightarrow> serve_step sv (s, T) (s, T(t \<mapsto> (req, Finished None (Err st))))"
| st_open:
    "\<lbrakk>T t = None; validate req = Ok chain; open_session sv req chain s = (ses, s');
      srv_sessions s (ss_id ses) = None\<rbrakk>
     \<Longrightarrow> serve_step sv (s, T) (s', T(t \<mapsto> (req, Opened ses)))"
| st_policy_pass:
    "\<lbrakk>T t = Some (req, Opened ses); policy_step sv req (ss_chain ses) s = (Ok u, s')\<rbrakk>
     \<Longrightarrow> serve_step sv (s, T) (s', T(t \<mapsto> (req, Cleared ses)))"
| st_policy_deny:
    "\<lbrakk>T t = Some (req, Opened ses); policy_step sv req (ss_chain ses) s = (Err (reason, code), s');
      deny sv ses reason code s' = (st, s'')\<rbrakk>
     \<Longrightarrow> serve_step sv (s, T) (s'', T(t \<mapsto> (req, Finished (Some ses) (Err st))))"
| st_wallet_pass:
    "\<lbrakk>T t = Some (req, Cleared ses); wallet_answers sv wc;
      wallet_step (sv\<lparr>sv_wallet := wc\<rparr>) req = Ok u\<rbrakk>
     \<Longrightarrow> serve_step sv (s, T) (set_status (ss_id ses) Signing None s, T(t \<mapsto> (req, Signing_At ses)))"
| st_wallet_deny:
    "\<lbrakk>T t = Some (req, Cleared ses); wallet_answers sv wc;
      wallet_step (sv\<lparr>sv_wallet := wc\<rparr>) req = Err (reason, code);
      deny sv ses reason code s = (st, s')\<rbrakk>
     \<Longrightarrow> serve_step sv (s, T) (s', T(t \<mapsto> (req, Finished (Some ses) (Err st))))"
| st_wallet_panic:
    "\<lbrakk>T t = Some (req, Cleared ses); wallet_answers sv wc;
      wallet_step (sv\<lparr>sv_wallet := wc\<rparr>) req = Panic\<rbrakk>
     \<Longrightarrow> serve_step sv (s, T) (s, T(t \<mapsto> (req, Finished (Some ses) Panic)))"
| st_engine:
    "\<lbrakk>T t = Some (req, Signing_At ses); finish_dispatch sv req ses s = (r, s')\<rbrakk>
     \<Longrightarrow> serve_step sv (s, T) (s', T(t \<mapsto> (req, Finished (Some ses) r)))"
| st_drop:
    "\<lbrakk>T t = Some (req, st); st = Cleared ses \<or> st = Signing_At ses\<rbrakk>
     \<Longrightarrow> serve_step sv (s, T) (s, T(t \<mapsto> (req, Dropped ses)))"
| st_background:
    "serve_step sv (s, T) (s\<lparr>srv_engine := e, srv_queue := q, srv_world := w\<rparr>, T)"

inductive served :: "'e MpcService \<Rightarrow> 'e service_state \<Rightarrow> 'e service_state \<Rightarrow> pool \<Rightarrow> bool" for sv s0 where
  served_start: "served sv s0 s0 Map.empty"
| served_step: "\<lbrakk>served sv s0 s T; serve_step sv (s, T) (s', T')\<rbrakk> \<Longrightarrow> served sv s0 s' T'"

section \<open>Tokens\<close>

definition token_id_of :: "'e MpcService \<Rightarrow> SignTxRequest \<Rightarrow> string option" where
  "token_id_of sv req =
     (case sv_verifier sv of
        None \<Rightarrow> None
      | Some v \<Rightarrow>
          (case open_token (sv_crates sv) (sv_claims_serde sv) (tv_policy_pubkey v)
                  (sq_policy_decision_token req) of
             Ok c \<Rightarrow> Some (pc_token_id c) | _ \<Rightarrow> None))"

fun passed_policy :: "stage \<Rightarrow> bool" where
  "passed_policy (Opened ses) = False"
| "passed_policy (Cleared ses) = True"
| "passed_policy (Signing_At ses) = True"
| "passed_policy (Dropped ses) = True"
| "passed_policy (Finished so r) = is_ok r"

text \<open>Requests past the policy check have spent tokens, and no two of them the same.\<close>

definition token_inv :: "'e MpcService \<Rightarrow> 'e service_state \<Rightarrow> pool \<Rightarrow> bool" where
  "token_inv sv s T \<longleftrightarrow>
     (\<forall>t req st. T t = Some (req, st) \<longrightarrow> passed_policy st \<longrightarrow>
        (\<exists>i. token_id_of sv req = Some i \<and> srv_used s i \<noteq> None)) \<and>
     (\<forall>t t' req req' st st'. T t = Some (req, st) \<longrightarrow> T t' = Some (req', st') \<longrightarrow>
        passed_policy st \<longrightarrow> passed_policy st' \<longrightarrow> t \<noteq> t' \<longrightarrow> token_id_of sv req \<noteq> token_id_of sv req')"

lemma token_inv_spent:
  assumes "token_inv sv s T" and "T t = Some (req, st)" and "passed_policy st"
  shows "\<exists>i. token_id_of sv req = Some i \<and> srv_used s i \<noteq> None"
  using assms unfolding token_inv_def by metis

lemma token_inv_distinct:
  assumes "token_inv sv s T" and "T t = Some (req, st)" and "T t' = Some (req', st')"
    and "passed_policy st" and "passed_policy st'" and "t \<noteq> t'"
  shows "token_id_of sv req \<noteq> token_id_of sv req'"
  using assms unfolding token_inv_def by metis

lemma policy_step_spends:
  assumes "policy_step sv req chain s = (Ok u, s')" and "\<not> sv_skip_policy sv"
  obtains i e where "token_id_of sv req = Some i" and "srv_used s i = None"
    and "srv_used s' = (srv_used s)(i \<mapsto> e)"
proof -
  obtain v where v: "sv_verifier sv = Some v"
    using assms by (auto simp: policy_step_def split: option.splits)
  then obtain c w where pv: "policy_verify (sv_crates sv) (sv_claims_serde sv) v
        (sq_policy_decision_token req) (sq_tx_payload req) (sq_key_id req) chain (srv_used s)
        (srv_world s) = (Ok c, srv_used s', w)"
    using assms by (auto simp: policy_step_def result_simps split: prod.splits)
  show ?thesis using policy_verify_OkD[OF pv] v that by (auto simp: token_id_of_def)
qed

lemma finish_dispatch_used: "finish_dispatch sv req ses s = (r, s') \<Longrightarrow> srv_used s' = srv_used s"
  by (auto simp: finish_dispatch_def Let_def split: prod.splits result.splits)

text \<open>A step that leaves the spent tokens alone and lets no further request pass.\<close>

lemma token_inv_keep:
  assumes "token_inv sv s T" and "srv_used s' = srv_used s"
    and "passed_policy st' \<longrightarrow> (\<exists>st. T t = Some (req, st) \<and> passed_policy st)"
  shows "token_inv sv s' (T(t \<mapsto> (req, st')))"
proof -
  have "\<exists>st. T t1 = Some (req1, st) \<and> passed_policy st"
    if "(T(t \<mapsto> (req, st'))) t1 = Some (req1, st1)" "passed_policy st1" for t1 req1 st1
    using that assms(3) by (auto split: if_splits)
  thus ?thesis using assms(1,2) unfolding token_inv_def by metis
qed

lemma token_inv_spend:
  assumes "token_inv sv s T" and "token_id_of sv req = Some i" and "srv_used s i = None"
    and "srv_used s' = (srv_used s)(i \<mapsto> e)"
  shows "token_inv sv s' (T(t \<mapsto> (req, st)))"
proof -
  have old: "\<exists>j. token_id_of sv req1 = Some j \<and> srv_used s j \<noteq> None \<and> j \<noteq> i"
    if "T t1 = Some (req1, st1)" "passed_policy st1" for t1 req1 st1
    using that assms(1,3) unfolding token_inv_def by metis
  show ?thesis unfolding token_inv_def
  proof (intro conjI allI impI)
    fix t1 req1 st1 assume "(T(t \<mapsto> (req, st))) t1 = Some (req1, st1)" and "passed_policy st1"
    thus "\<exists>j. token_id_of sv req1 = Some j \<and> srv_used s' j \<noteq> None"
      using assms(2,4) old[of t1 req1 st1] by (auto split: if_splits)
  next
    fix t1 t2 req1 req2 st1 st2
    assume "(T(t \<mapsto> (req, st))) t1 = Some (req1, st1)" "(T(t \<mapsto> (req, st))) t2 = Some (req2, st2)"
      and p: "passed_policy st1" "passed_policy st2" and "t1 \<noteq> t2"
    then consider "t1 = t" "req1 = req" "T t2 = Some (req2, st2)" | "t2 = t" "req2 = req" "T t1 = Some (req1, st1)"
      | "T t1 = Some (req1, st1)" "T t2 = Some (req2, st2)"
      by (auto split: if_splits)
    thus "token_id_of sv req1 \<noteq> token_id_of sv req2"
    proof cases
      case 3
      thus ?thesis using assms(1) p \<open>t1 \<noteq> t2\<close> unfolding token_inv_def by metis
    qed (use old p assms(2) in force)+
  qed
qed

lemma token_inv_step:
  assumes "\<not> sv_skip_policy sv" and inv: "token_inv sv s T" and "serve_step sv (s, T) (s', T')"
  shows "token_inv sv s' T'"
  using assms(3)
proof cases
  case (st_reject t req st)
  show ?thesis unfolding st_reject(1,2) by (rule token_inv_keep[OF inv]) simp_all
next
  case (st_open t req chain ses)
  have "srv_used s' = srv_used s" using st_open(4) by (metis open_session_simps(1) snd_conv)
  thus ?thesis unfolding st_open(1) by (rule token_inv_keep[OF inv]) simp
next
  case (st_policy_pass t req ses u)
  then obtain i e where "token_id_of sv req = Some i" "srv_used s i = None"
      "srv_used s' = (srv_used s)(i \<mapsto> e)"
    using policy_step_spends[OF _ assms(1)] by metis
  thus ?thesis unfolding st_policy_pass(1) by (rule token_inv_spend[OF inv])
next
  case (st_policy_deny t req ses reason code s1 st)
  hence "srv_used s' = srv_used s"
    using policy_step_simps(5)[OF st_policy_deny(3)] by (metis deny_simps(1) snd_conv)
  thus ?thesis unfolding st_policy_deny(1) by (rule token_inv_keep[OF inv]) simp
next
  case (st_wallet_pass t req ses wc u)
  show ?thesis unfolding st_wallet_pass(1,2)
    by (rule token_inv_keep[OF inv]) (use st_wallet_pass(3) in auto)
next
  case (st_wallet_deny t req ses wc reason code st)
  hence "srv_used s' = srv_used s" by (metis deny_simps(1) snd_conv)
  thus ?thesis unfolding st_wallet_deny(1) by (rule token_inv_keep[OF inv]) simp
next
  case (st_wallet_panic t req ses wc)
  show ?thesis unfolding st_wallet_panic(1,2) by (rule token_inv_keep[OF inv]) simp_all
next
  case (st_engine t req ses r)
  show ?thesis unfolding st_engine(1)
    by (rule token_inv_keep[OF inv finish_dispatch_used[OF st_engine(3)]]) (use st_engine(2) in auto)
next
  case (st_drop t req st ses)
  show ?thesis unfolding st_drop(1,2)
    by (rule token_inv_keep[OF inv]) (use st_drop(3,4) in auto)
next
  case (st_background e q w)
  thus ?thesis using inv by (simp add: token_inv_def)
qed

lemma served_token_inv:
  assumes "\<not> sv_skip_policy sv"
  shows "served sv s0 s T \<Longrightarrow> token_inv sv s T"
proof (induction rule: served.induct)
  case (served_step s T s' T')
  show ?case by (rule token_inv_step[OF assms served_step.IH served_step.hyps(2)])
qed (simp add: token_inv_def)

section \<open>Sessions\<close>

text \<open>
  What the session store and the answer have to show for a handler at a given stage. An answer
  with a signature carries what the engine returned for this request's key, chain and payload.
\<close>

fun stage_fits :: "'e MpcService \<Rightarrow> SignTxRequest \<Rightarrow> stage \<Rightarrow> SigningSession \<Rightarrow> bool" where
  "stage_fits sv req (Opened ses) rec \<longleftrightarrow> ss_status rec = Pending"
| "stage_fits sv req (Cleared ses) rec \<longleftrightarrow> ss_status rec = Pending"
| "stage_fits sv req (Signing_At ses) rec \<longleftrightarrow> ss_status rec = Signing"
| "stage_fits sv req (Dropped ses) rec \<longleftrightarrow> ss_status rec = Pending \<or> ss_status rec = Signing"
| "stage_fits sv req (Finished so Panic) rec \<longleftrightarrow> ss_status rec = Pending \<or> ss_status rec = Signing"
| "stage_fits sv req (Finished so (Err st)) rec \<longleftrightarrow>
     (ss_status rec = Denied \<or> ss_status rec = Failed) \<and> ss_denial_reason rec = Some (st_message st)"
| "stage_fits sv req (Finished so (Ok resp)) rec \<longleftrightarrow>
     ss_status rec = Signed \<and> sr_signing_session_id resp = ss_id rec \<and>
     (\<exists>e sig. fst (eng_sign (sv_engine sv) (engine_request req (ss_chain rec)) e) = Ok sig \<and>
        sr_signature resp = es_signature sig \<and> sr_public_key resp = es_public_key sig)"

text \<open>The record of a session belongs to its request.\<close>

definition session_of :: "'e MpcService \<Rightarrow> SignTxRequest \<Rightarrow> SigningSession \<Rightarrow> bool" where
  "session_of sv req rec \<longleftrightarrow> validate req = Ok (ss_chain rec) \<and> ss_key_id rec = sq_key_id req \<and>
     ss_request_hash rec = sha256_hex (sv_crates sv) (sq_tx_payload req)"

definition session_inv :: "'e MpcService \<Rightarrow> 'e service_state \<Rightarrow> pool \<Rightarrow> bool" where
  "session_inv sv s T \<longleftrightarrow>
     (\<forall>t req st ses. T t = Some (req, st) \<longrightarrow> stage_session st = Some ses \<longrightarrow>
        session_of sv req ses \<and>
        (\<exists>rec. srv_sessions s (ss_id ses) = Some rec \<and> ss_id rec = ss_id ses \<and> ss_chain rec = ss_chain ses \<and>
               session_of sv req rec \<and> stage_fits sv req st rec)) \<and>
     (\<forall>t t' req req' st st' ses ses'. T t = Some (req, st) \<longrightarrow> T t' = Some (req', st') \<longrightarrow> t \<noteq> t' \<longrightarrow>
        stage_session st = Some ses \<longrightarrow> stage_session st' = Some ses' \<longrightarrow> ss_id ses \<noteq> ss_id ses')"

lemma session_invD:
  assumes "session_inv sv s T" and "T t = Some (req, st)" and "stage_session st = Some ses"
  obtains rec where "session_of sv req ses" and "srv_sessions s (ss_id ses) = Some rec"
    and "ss_id rec = ss_id ses" and "ss_chain rec = ss_chain ses" and "session_of sv req rec"
    and "stage_fits sv req st rec"
  using assms unfolding session_inv_def by metis

lemma session_inv_distinct:
  assumes "session_inv sv s T" and "T t = Some (req, st)" and "T t' = Some (req', st')" and "t \<noteq> t'"
    and "stage_session st = Some ses" and "stage_session st' = Some ses'"
  shows "ss_id ses \<noteq> ss_id ses'"
  using assms unfolding session_inv_def by metis

text \<open>
  One handler takes a new stage: its session keeps its request and fits the stage, and no other
  session in the store changes.
\<close>

lemma session_inv_put:
  assumes inv: "session_inv sv s T" and st': "stage_session st' = Some ses" and of: "session_of sv req ses"
    and alone: "\<And>t1 req1 st1 ses1. t1 \<noteq> t \<Longrightarrow> T t1 = Some (req1, st1) \<Longrightarrow> stage_session st1 = Some ses1 \<Longrightarrow>
      ss_id ses1 \<noteq> ss_id ses"
    and other: "\<And>i. i \<noteq> ss_id ses \<Longrightarrow> srv_sessions s' i = srv_sessions s i"
    and own: "srv_sessions s' (ss_id ses) = Some rec" "ss_id rec = ss_id ses" "ss_chain rec = ss_chain ses"
      "session_of sv req rec" "stage_fits sv req st' rec"
  shows "session_inv sv s' (T(t \<mapsto> (req, st')))"
  unfolding session_inv_def
proof (intro conjI allI impI)
  fix t1 req1 st1 ses1
  assume T1: "(T(t \<mapsto> (req, st'))) t1 = Some (req1, st1)" and s1: "stage_session st1 = Some ses1"
  show "session_of sv req1 ses1"
  proof (cases "t1 = t")
    case False
    hence "T t1 = Some (req1, st1)" using T1 by simp
    thus ?thesis using s1 by (rule session_invD[OF inv])
  qed (use T1 s1 st' of in auto)
  show "\<exists>rec. srv_sessions s' (ss_id ses1) = Some rec \<and> ss_id rec = ss_id ses1 \<and> ss_chain rec = ss_chain ses1 \<and>
             session_of sv req1 rec \<and> stage_fits sv req1 st1 rec"
  proof (cases "t1 = t")
    case False
    hence T: "T t1 = Some (req1, st1)" using T1 by simp
    obtain r1 where "srv_sessions s (ss_id ses1) = Some r1" "ss_id r1 = ss_id ses1" "ss_chain r1 = ss_chain ses1"
        "session_of sv req1 r1" "stage_fits sv req1 st1 r1"
      by (rule session_invD[OF inv T s1])
    thus ?thesis using other[OF alone[OF False T s1]] by auto
  qed (use T1 s1 st' own in auto)
next
  fix t1 t2 req1 req2 st1 st2 ses1 ses2
  assume "(T(t \<mapsto> (req, st'))) t1 = Some (req1, st1)" "(T(t \<mapsto> (req, st'))) t2 = Some (req2, st2)" "t1 \<noteq> t2"
    and "stage_session st1 = Some ses1" "stage_session st2 = Some ses2"
  thus "ss_id ses1 \<noteq> ss_id ses2"
    using session_inv_distinct[OF inv, of t1 req1 st1 t2 req2 st2] alone[of t1 req1 st1 ses1]
      alone[of t2 req2 st2 ses2] st' by (auto split: if_splits)
qed

text \<open>A handler advances: it may change the status of its own session, to one that fits its new stage.\<close>

lemma session_inv_advance:
  assumes inv: "session_inv sv s T" and t: "T t = Some (req, st)" and ses: "stage_session st = Some ses"
    and ses': "stage_session st' = Some ses"
    and other: "\<And>i. i \<noteq> ss_id ses \<Longrightarrow> srv_sessions s' i = srv_sessions s i"
    and own: "\<And>rec. srv_sessions s (ss_id ses) = Some rec \<Longrightarrow> ss_id rec = ss_id ses \<Longrightarrow>
      ss_chain rec = ss_chain ses \<Longrightarrow> session_of sv req rec \<Longrightarrow> stage_fits sv req st rec \<Longrightarrow>
      \<exists>rec'. srv_sessions s' (ss_id ses) = Some rec' \<and> ss_id rec' = ss_id rec \<and> ss_chain rec' = ss_chain rec \<and>
             session_of sv req rec' \<and> stage_fits sv req st' rec'"
  shows "session_inv sv s' (T(t \<mapsto> (req, st')))"
proof -
  obtain rec where rec: "session_of sv req ses" "srv_sessions s (ss_id ses) = Some rec"
      "ss_id rec = ss_id ses" "ss_chain rec = ss_chain ses" "session_of sv req rec" "stage_fits sv req st rec"
    by (rule session_invD[OF inv t ses])
  obtain rec' where rec': "srv_sessions s' (ss_id ses) = Some rec'" "ss_id rec' = ss_id ses"
      "ss_chain rec' = ss_chain ses" "session_of sv req rec'" "stage_fits sv req st' rec'"
    using own[OF rec(2-6)] rec(3,4) by auto
  show ?thesis
    by (rule session_inv_put[OF inv ses' rec(1) session_inv_distinct[OF inv _ t _ _ ses] other rec'])
qed

lemma session_inv_open:
  assumes inv: "session_inv sv s T" and t: "T t = None" and ok: "validate req = Ok chain"
    and op: "open_session sv req chain s = (ses, s')" and fresh: "srv_sessions s (ss_id ses) = None"
  shows "session_inv sv s' (T(t \<mapsto> (req, Opened ses)))"
proof -
  have ses: "ses = fst (open_session sv req chain s)" and s': "s' = snd (open_session sv req chain s)"
    using op by simp_all
  have own: "session_of sv req ses" "stage_fits sv req (Opened ses) ses"
    using ok by (simp_all add: ses session_of_def)
  have new: "srv_sessions s' = (srv_sessions s)(ss_id ses \<mapsto> ses)"
    unfolding s' by (simp add: session_insert_def ses)
  have old: "ss_id ses1 \<noteq> ss_id ses" if "T t1 = Some (req1, st1)" "stage_session st1 = Some ses1" for t1 req1 st1 ses1
    by (rule session_invD[OF inv that]) (use fresh in auto)
  show ?thesis by (rule session_inv_put[OF inv _ own(1) old]) (use own new in simp_all)
qed

lemma session_inv_sessions:
  assumes "session_inv sv s T" and "srv_sessions s' = srv_sessions s"
  shows "session_inv sv s' T"
  using assms unfolding session_inv_def by simp

text \<open>A status update touches one session and keeps its identity.\<close>

lemma update_own:
  assumes "m i = Some rec"
  shows "session_update_status m i st d i = Some (rec\<lparr>ss_status := st, ss_denial_reason := d\<rparr>)"
  using assms by (simp add: session_update_status_def)

lemma update_other: "j \<noteq> i \<Longrightarrow> session_update_status m i st d j = m j"
  by (simp add: session_update_status_def split: option.split)

lemma session_of_status [simp]:
  "session_of sv req (rec\<lparr>ss_status := st, ss_denial_reason := d\<rparr>) = session_of sv req rec"
  by (simp add: session_of_def)

lemma session_inv_status:
  assumes inv: "session_inv sv s T" and t: "T t = Some (req, st)" and ses: "stage_session st = Some ses"
    and ses': "stage_session st' = Some ses"
    and upd: "srv_sessions s' = session_update_status (srv_sessions s) (ss_id ses) status d"
    and fits: "\<And>rec. ss_id rec = ss_id ses \<Longrightarrow> ss_chain rec = ss_chain ses \<Longrightarrow>
      stage_fits sv req st' (rec\<lparr>ss_status := status, ss_denial_reason := d\<rparr>)"
  shows "session_inv sv s' (T(t \<mapsto> (req, st')))"
proof (rule session_inv_advance[OF inv t ses ses'])
  show "srv_sessions s' i = srv_sessions s i" if "i \<noteq> ss_id ses" for i
    unfolding upd by (rule update_other[OF that])
  fix rec assume "srv_sessions s (ss_id ses) = Some rec" "ss_id rec = ss_id ses" "ss_chain rec = ss_chain ses"
    "session_of sv req rec"
  thus "\<exists>rec'. srv_sessions s' (ss_id ses) = Some rec' \<and> ss_id rec' = ss_id rec \<and> ss_chain rec' = ss_chain rec \<and>
             session_of sv req rec' \<and> stage_fits sv req st' rec'"
    using fits[of rec] update_own[of "srv_sessions s" "ss_id ses" rec status d] by (simp add: upd)
qed

lemma session_inv_same:
  assumes inv: "session_inv sv s T" and t: "T t = Some (req, st)" and ses: "stage_session st = Some ses"
    and ses': "stage_session st' = Some ses" and same: "srv_sessions s' = srv_sessions s"
    and fits: "\<And>rec. stage_fits sv req st rec \<Longrightarrow> stage_fits sv req st' rec"
  shows "session_inv sv s' (T(t \<mapsto> (req, st')))"
  by (rule session_inv_advance[OF inv t ses ses']) (use fits in \<open>auto simp: same\<close>)

lemma session_inv_reject:
  assumes inv: "session_inv sv s T" and t: "T t = None"
  shows "session_inv sv s (T(t \<mapsto> (req, Finished None r)))"
proof -
  have "T t1 = Some (req1, st1)"
    if "(T(t \<mapsto> (req, Finished None r))) t1 = Some (req1, st1)" "stage_session st1 = Some ses1" for t1 req1 st1 ses1
    using that by (auto split: if_splits)
  note old = this
  show ?thesis unfolding session_inv_def
  proof (intro conjI allI impI)
    fix t1 req1 st1 ses1
    assume a: "(T(t \<mapsto> (req, Finished None r))) t1 = Some (req1, st1)" "stage_session st1 = Some ses1"
    show "session_of sv req1 ses1" by (rule session_invD[OF inv old[OF a] a(2)])
    show "\<exists>rec. srv_sessions s (ss_id ses1) = Some rec \<and> ss_id rec = ss_id ses1 \<and> ss_chain rec = ss_chain ses1 \<and>
               session_of sv req1 rec \<and> stage_fits sv req1 st1 rec"
      by (rule session_invD[OF inv old[OF a] a(2)]) blast
  qed (rule session_inv_distinct[OF inv old old])
qed

lemma session_inv_deny:
  assumes inv: "session_inv sv s T" and t: "T t = Some (req, st)" and ses: "stage_session st = Some ses"
    and s1: "srv_sessions s1 = srv_sessions s" and d: "deny sv ses reason code s1 = (sta, s')"
  shows "session_inv sv s' (T(t \<mapsto> (req, Finished (Some ses) (Err sta))))"
proof (rule session_inv_status[OF inv t ses])
  show "srv_sessions s' = session_update_status (srv_sessions s) (ss_id ses) Denied (Some reason)"
    using d s1 by (auto simp: deny_def)
qed (use d in \<open>auto simp: deny_def\<close>)

lemma session_inv_engine:
  assumes inv: "session_inv sv s T" and t: "T t = Some (req, Signing_At ses)"
    and fin: "finish_dispatch sv req ses s = (r, s')"
  shows "session_inv sv s' (T(t \<mapsto> (req, Finished (Some ses) r)))"
proof -
  have key: "ss_key_id ses = sq_key_id req"
    by (rule session_invD[OF inv t]) (auto simp: session_of_def)
  obtain x e where x: "eng_sign (sv_engine sv) (engine_request req (ss_chain ses)) (srv_engine s) = (x, e)"
    by fastforce
  note fin' = fin[unfolded finish_dispatch_def key, folded engine_request_def, unfolded x Let_def, simplified]
  show ?thesis
  proof (cases x)
    case (Ok sig)
    show ?thesis
    proof (rule session_inv_status[OF inv t])
      show "srv_sessions s' = session_update_status (srv_sessions s) (ss_id ses) Signed None"
        using fin' Ok by auto
      fix rec :: SigningSession
      assume "ss_id rec = ss_id ses" "ss_chain rec = ss_chain ses"
      moreover have "fst (eng_sign (sv_engine sv) (engine_request req (ss_chain ses)) (srv_engine s)) = Ok sig"
        using x Ok by simp
      ultimately show "stage_fits sv req (Finished (Some ses) r) (rec\<lparr>ss_status := Signed, ss_denial_reason := None\<rparr>)"
        using fin' Ok by (auto intro!: exI[of _ "srv_engine s"] exI[of _ sig])
    qed simp_all
  next
    case (Err err)
    show ?thesis
    proof (rule session_inv_status[OF inv t])
      show "srv_sessions s' = session_update_status (srv_sessions s) (ss_id ses) Failed (Some (engine_error_to_string err))"
        using fin' Err by auto
    qed (use fin' Err in \<open>auto simp: engine_status_def\<close>)
  next
    case Panic
    show ?thesis by (rule session_inv_same[OF inv t]) (use fin' Panic in auto)
  qed
qed

lemma session_inv_step:
  assumes inv: "session_inv sv s T" and "serve_step sv (s, T) (s', T')"
  shows "session_inv sv s' T'"
  using assms(2)
proof cases
  case (st_reject t req st)
  show ?thesis unfolding st_reject(1,2) by (rule session_inv_reject[OF inv st_reject(3)])
next
  case (st_open t req chain ses)
  show ?thesis unfolding st_open(1) by (rule session_inv_open[OF inv st_open(2-5)])
next
  case (st_policy_pass t req ses u)
  show ?thesis unfolding st_policy_pass(1)
    by (rule session_inv_same[OF inv st_policy_pass(2)]) (use policy_step_simps(3)[OF st_policy_pass(3)] in simp_all)
next
  case (st_policy_deny t req ses reason code s1 st)
  show ?thesis unfolding st_policy_deny(1)
    by (rule session_inv_deny[OF inv st_policy_deny(2) _ policy_step_simps(3)[OF st_policy_deny(3)] st_policy_deny(4)]) simp
next
  case (st_wallet_pass t req ses wc u)
  show ?thesis unfolding st_wallet_pass(1,2)
    by (rule session_inv_status[OF inv st_wallet_pass(3)]) simp_all
next
  case (st_wallet_deny t req ses wc reason code st)
  show ?thesis unfolding st_wallet_deny(1)
    by (rule session_inv_deny[OF inv st_wallet_deny(2) _ refl st_wallet_deny(5)]) simp
next
  case (st_wallet_panic t req ses wc)
  show ?thesis unfolding st_wallet_panic(1,2)
    by (rule session_inv_same[OF inv st_wallet_panic(3)]) simp_all
next
  case (st_engine t req ses r)
  show ?thesis unfolding st_engine(1) by (rule session_inv_engine[OF inv st_engine(2,3)])
next
  case (st_drop t req st ses)
  show ?thesis unfolding st_drop(1,2)
    by (rule session_inv_same[OF inv st_drop(3)]) (use st_drop(4) in auto)
next
  case (st_background e q w)
  show ?thesis unfolding st_background(2) by (rule session_inv_sessions[OF inv]) (simp add: st_background(1))
qed

lemma served_session_inv: "served sv s0 s T \<Longrightarrow> session_inv sv s T"
proof (induction rule: served.induct)
  case (served_step s T s' T')
  show ?case by (rule session_inv_step[OF served_step.IH served_step.hyps(2)])
qed (simp add: session_inv_def)

section \<open>One handler alone\<close>

text \<open>Splitting \<open>sign_tx\<close> into steps adds nothing to it: uninterrupted, the steps compute \<open>sign_tx\<close>.\<close>

lemma dispatch_split:
  "dispatch sv req ses s = finish_dispatch sv req ses (set_status (ss_id ses) Signing None s)"
  by (simp add: dispatch_def finish_dispatch_def Let_def)

lemma served_then:
  assumes "served sv s0 s (T(t \<mapsto> x))" and "serve_step sv (s, T(t \<mapsto> x)) (s', (T(t \<mapsto> x))(t \<mapsto> y))"
  shows "served sv s0 s' (T(t \<mapsto> y))"
  using served_step[OF assms] by simp

lemma sign_tx_served:
  assumes sv: "served sv s0 s T" and t: "T t = None"
    and fresh: "srv_sessions s (shd (uuids (srv_world s))) = None" and r: "sign_tx sv req s = (r, s')"
  shows "\<exists>so. served sv s0 s' (T(t \<mapsto> (req, Finished so r))) \<and> (so = None \<longrightarrow> \<not> is_ok r)"
proof (cases "validate req")
  case (Ok chain)
  let ?ses = "fst (open_session sv req chain s)" and ?s1 = "snd (open_session sv req chain s)"
  have "serve_step sv (s, T) (?s1, T(t \<mapsto> (req, Opened ?ses)))"
    by (rule st_open[of T t req chain sv s ?ses ?s1]) (simp_all add: t Ok fresh)
  hence op: "served sv s0 ?s1 (T(t \<mapsto> (req, Opened ?ses)))" by (rule served_step[OF sv])
  have pass: "served sv s0 s2 (T(t \<mapsto> (req, Cleared ?ses)))" if "policy_step sv req chain ?s1 = (Ok (), s2)" for s2
    by (rule served_then[OF op]) (use st_policy_pass[of "T(t \<mapsto> (req, Opened ?ses))" t req ?ses sv ?s1 "()" s2] that in simp)
  from r Ok show ?thesis
  proof (cases rule: sign_tx_cases)
    case (policy reason code s2)
    have "served sv s0 s' (T(t \<mapsto> (req, Finished (Some ?ses) r)))"
      by (rule served_then[OF op])
        (use st_policy_deny[of "T(t \<mapsto> (req, Opened ?ses))" t req ?ses sv ?s1 reason code s2] policy in \<open>simp add: deny_def\<close>)
    thus ?thesis by blast
  next
    case (wallet reason code s2)
    have "served sv s0 s' (T(t \<mapsto> (req, Finished (Some ?ses) r)))"
      by (rule served_then[OF pass[OF wallet(1)]])
        (use st_wallet_deny[of "T(t \<mapsto> (req, Cleared ?ses))" t req ?ses sv "sv_wallet sv" reason code s2] wallet
          in \<open>simp add: deny_def\<close>)
    thus ?thesis by blast
  next
    case (wallet_panic s2)
    have "served sv s0 s' (T(t \<mapsto> (req, Finished (Some ?ses) r)))"
      by (rule served_then[OF pass[OF wallet_panic(1), folded wallet_panic(4)]])
        (use st_wallet_panic[of "T(t \<mapsto> (req, Cleared ?ses))" t req ?ses sv "sv_wallet sv" s2] wallet_panic in simp)
    thus ?thesis by blast
  next
    case (engine s2)
    have "served sv s0 (set_status (ss_id ?ses) Signing None s2) (T(t \<mapsto> (req, Signing_At ?ses)))"
      by (rule served_then[OF pass[OF engine(1)]])
        (use st_wallet_pass[of "T(t \<mapsto> (req, Cleared ?ses))" t req ?ses sv "sv_wallet sv" "()" s2] engine in simp)
    hence "served sv s0 s' (T(t \<mapsto> (req, Finished (Some ?ses) r)))"
      by (rule served_then)
        (use st_engine[of "T(t \<mapsto> (req, Signing_At ?ses))" t req ?ses sv _ r s'] engine(3) in \<open>simp add: dispatch_split\<close>)
    thus ?thesis by blast
  qed
next
  case (Err st)
  have "serve_step sv (s, T) (s, T(t \<mapsto> (req, Finished None (Err st))))" by (rule st_reject[of T t]) (rule t, rule Err)
  from served_step[OF sv this] show ?thesis using r Err by (auto simp: sign_tx_def)
qed simp

section \<open>Properties\<close>

text \<open>
  (C3) One token, one signature, under any interleaving of any number of handlers, with any answers of
  Wallet Management and any activity of engine, control plane and clock in between: every request
  answered with a signature carried a token with an id, and for every token id there is at most one
  such request, however often the token is sent at once and however it is encoded.
\<close>
theorem concurrent_token_once:
  assumes "\<not> sv_skip_policy sv" and "served sv s0 s T"
  shows "(\<forall>t req so resp. T t = Some (req, Finished so (Ok resp)) \<longrightarrow> token_id_of sv req \<noteq> None) \<and>
    (\<forall>i. \<exists>t0. {t. \<exists>req so resp. T t = Some (req, Finished so (Ok resp)) \<and> token_id_of sv req = Some i} \<subseteq> {t0})"
proof -
  have inv: "token_inv sv s T" by (rule served_token_inv[OF assms])
  have spent: "token_id_of sv req \<noteq> None" if "T t = Some (req, Finished so (Ok resp))" for t req so resp
    using token_inv_spent[OF inv that] by auto
  have once: "t = t'"
    if "T t = Some (req, Finished so (Ok resp))" "T t' = Some (req', Finished so' (Ok resp'))"
      "token_id_of sv req = token_id_of sv req'" for t t' req req' so so' resp resp'
    using token_inv_distinct[OF inv that(1,2)] that(3) by auto
  show ?thesis
  proof (intro conjI allI impI)
    fix i
    let ?S = "{t. \<exists>req so resp. T t = Some (req, Finished so (Ok resp)) \<and> token_id_of sv req = Some i}"
    show "\<exists>t0. ?S \<subseteq> {t0}"
    proof (cases "?S = {}")
      case False
      then obtain t0 where "t0 \<in> ?S" by blast
      hence "?S \<subseteq> {t0}" using once by force
      thus ?thesis ..
    qed blast
  qed (rule spent)
qed

lemma demo_served:
  "\<exists>s T ses resp. served demo_service demo_state s T \<and> T 0 = Some (demo_request, Finished (Some ses) (Ok resp))"
proof -
  obtain resp s' where "sign_tx demo_service demo_request demo_state = (Ok resp, s')"
    using demo_signed by blast
  moreover have "srv_sessions demo_state i = None" for i by (simp add: demo_state_def)
  ultimately obtain so where
      "served demo_service demo_state s' [0 \<mapsto> (demo_request, Finished so (Ok resp))] \<and> (so = None \<longrightarrow> \<not> is_ok (Ok resp :: (SignTxResponse, Status) result))"
    using sign_tx_served[of demo_service demo_state demo_state Map.empty 0 demo_request "Ok resp" s', OF served_start] by auto
  thus ?thesis by (intro exI[of _ s'] exI[of _ "[0 \<mapsto> (demo_request, Finished so (Ok resp))]"]) auto
qed

theorem concurrent_token_once_witness:
  "\<exists>s T t0. served demo_service demo_state s T \<and>
     {t. \<exists>req so resp. T t = Some (req, Finished so (Ok resp)) \<and>
         token_id_of demo_service req = token_id_of demo_service demo_request} = {t0}"
proof -
  obtain s T ses resp where sv: "served demo_service demo_state s T"
    and T: "T 0 = Some (demo_request, Finished (Some ses) (Ok resp))"
    using demo_served by blast
  have "\<not> sv_skip_policy demo_service" using demo_checks by (simp add: checks_in_force_def)
  note once = concurrent_token_once[OF this sv]
  then obtain i where i: "token_id_of demo_service demo_request = Some i" using T by blast
  obtain t0 where t0: "{t. \<exists>req so resp. T t = Some (req, Finished so (Ok resp)) \<and>
      token_id_of demo_service req = Some i} \<subseteq> {t0}" using once by blast
  moreover have "0 \<in> {t. \<exists>req so resp. T t = Some (req, Finished so (Ok resp)) \<and>
      token_id_of demo_service req = Some i}" using T i by blast
  ultimately show ?thesis using sv unfolding i by blast
qed

text \<open>
  (C6) Handlers do not disturb each other. Under any interleaving, when a request is answered its session
  is in the store, with the request's key, chain and payload hash, and in the state of the answer:
  signed, and the response carries this session's id and what the engine returned for exactly this
  request; or denied or failed with the reason that the caller was told. Sessions of different
  requests are different.
\<close>
theorem concurrent_sessions_isolated:
  assumes "served sv s0 s T" and "T t = Some (req, Finished (Some ses) r)" and "r \<noteq> Panic"
  shows "(\<exists>rec. srv_sessions s (ss_id ses) = Some rec \<and> validate req = Ok (ss_chain rec) \<and>
      ss_key_id rec = sq_key_id req \<and> ss_request_hash rec = sha256_hex (sv_crates sv) (sq_tx_payload req) \<and>
      (case r of
         Ok resp \<Rightarrow> ss_status rec = Signed \<and> sr_signing_session_id resp = ss_id ses \<and>
           (\<exists>e sig. fst (eng_sign (sv_engine sv) (engine_request req (ss_chain rec)) e) = Ok sig \<and>
              sr_signature resp = es_signature sig \<and> sr_public_key resp = es_public_key sig)
       | Err st \<Rightarrow> ss_status rec \<in> {Denied, Failed} \<and> ss_denial_reason rec = Some (st_message st)
       | Panic \<Rightarrow> False)) \<and>
    (\<forall>t' req' st' ses'. T t' = Some (req', st') \<and> t' \<noteq> t \<and> stage_session st' = Some ses' \<longrightarrow>
       ss_id ses' \<noteq> ss_id ses)"
proof
  have inv: "session_inv sv s T" by (rule served_session_inv[OF assms(1)])
  have ses: "stage_session (Finished (Some ses) r) = Some ses" by simp
  obtain rec where "srv_sessions s (ss_id ses) = Some rec" "ss_id rec = ss_id ses" "session_of sv req rec"
      "stage_fits sv req (Finished (Some ses) r) rec"
    by (rule session_invD[OF inv assms(2) ses])
  thus "\<exists>rec. srv_sessions s (ss_id ses) = Some rec \<and> validate req = Ok (ss_chain rec) \<and>
      ss_key_id rec = sq_key_id req \<and> ss_request_hash rec = sha256_hex (sv_crates sv) (sq_tx_payload req) \<and>
      (case r of
         Ok resp \<Rightarrow> ss_status rec = Signed \<and> sr_signing_session_id resp = ss_id ses \<and>
           (\<exists>e sig. fst (eng_sign (sv_engine sv) (engine_request req (ss_chain rec)) e) = Ok sig \<and>
              sr_signature resp = es_signature sig \<and> sr_public_key resp = es_public_key sig)
       | Err st \<Rightarrow> ss_status rec \<in> {Denied, Failed} \<and> ss_denial_reason rec = Some (st_message st)
       | Panic \<Rightarrow> False)"
    using assms(3) by (cases r) (auto simp: session_of_def)
  show "\<forall>t' req' st' ses'. T t' = Some (req', st') \<and> t' \<noteq> t \<and> stage_session st' = Some ses' \<longrightarrow>
       ss_id ses' \<noteq> ss_id ses"
    using session_inv_distinct[OF inv _ assms(2) _ _ ses] by blast
qed

theorem concurrent_sessions_isolated_witness:
  "\<exists>s T i rec. served demo_service demo_state s T \<and> srv_sessions s i = Some rec \<and>
     ss_status rec = Signed \<and> ss_key_id rec = ''k1''"
proof -
  obtain s T ses resp where sv: "served demo_service demo_state s T"
    and T: "T 0 = Some (demo_request, Finished (Some ses) (Ok resp))"
    using demo_served by blast
  from concurrent_sessions_isolated[OF sv T] obtain rec where
    "srv_sessions s (ss_id ses) = Some rec" "ss_status rec = Signed" "ss_key_id rec = sq_key_id demo_request"
    by auto
  thus ?thesis using sv by (auto simp: demo_request_def)
qed

end
