(* ===== verification/Local_Engine.thy ===== *)
theory Local_Engine
  imports Engine Prime_Field
begin

text \<open>
  \<open>src/engine/local.rs\<close>: the single-party engine with locally generated ECDSA and Ed25519 keys. An
  ECDSA key is its non-zero scalar, an Ed25519 key its 32-byte seed; the keys to be generated
  are streams of values of the operating system's generator.
\<close>

section \<open>Keys and state\<close>

datatype 's LocalSecret = SecretEcdsa 's | SecretEd25519 bytes

record 's LocalKey =
  lk_chain :: Chain
  lk_secret :: "'s LocalSecret"
  lk_epoch :: u64
  lk_status :: KeyShareStatus

type_synonym ('s, 'p) local_env = "('s, 'p) k256 \<times> crates"

fun secret_public_key :: "('s, 'p) local_env \<Rightarrow> 's LocalSecret \<Rightarrow> bytes" where
  "secret_public_key (K, X) (SecretEcdsa a) = secp_public_from_scalar K a"
| "secret_public_key (K, X) (SecretEd25519 seed) = ed_public X seed"

definition local_public_key :: "('s, 'p) local_env \<Rightarrow> 's LocalKey \<Rightarrow> bytes" where
  "local_public_key L key = secret_public_key L (lk_secret key)"

record 's LocalEngine =
  le_keys :: "string \<rightharpoonup> 's LocalKey"
  le_rng_ecdsa :: "'s stream"
  le_rng_ed25519 :: "bytes stream"
  le_world :: world

definition local_new :: "'s stream \<Rightarrow> bytes stream \<Rightarrow> world \<Rightarrow> 's LocalEngine" where
  "local_new g1 g2 w = \<lparr>le_keys = Map.empty, le_rng_ecdsa = g1, le_rng_ed25519 = g2, le_world = w\<rparr>"

section \<open>Operations\<close>

fun secret_sign :: "('s, 'p) local_env \<Rightarrow> 's LocalSecret \<Rightarrow> bytes \<Rightarrow> bytes" where
  "secret_sign (K, X) (SecretEcdsa a) payload = k_ecdsa_sign K (k_to_repr K a) payload"
| "secret_sign (K, X) (SecretEd25519 seed) payload = ed_sign X seed payload"

definition local_sign ::
  "('s, 'p) local_env \<Rightarrow> EngineSignRequest \<Rightarrow> 's LocalEngine \<Rightarrow>
   (EngineSignature, EngineError) result \<times> 's LocalEngine" where
  "local_sign L req e =
     (case le_keys e (er_key_id req) of
        None \<Rightarrow> (Err (KeyNotFound (er_key_id req)), e)
      | Some key \<Rightarrow>
          if lk_status key \<noteq> Active
          then (Err (EngineDenied (''key '' @ er_key_id req @ '' is not active'')), e)
          else if scheme (lk_chain key) \<noteq> scheme (er_chain req)
          then (Err (EngineDenied ''chain/scheme mismatch for key''), e)
          else (Ok \<lparr>es_signature = secret_sign L (lk_secret key) (er_payload req),
                    es_public_key = local_public_key L key\<rparr>, e))"

definition local_dkg ::
  "('s, 'p) local_env \<Rightarrow> DkgParams \<Rightarrow> 's LocalEngine \<Rightarrow>
   (DkgOutcome, EngineError) result \<times> 's LocalEngine" where
  "local_dkg L p e =
     (if dp_threshold p = 0 \<or> dp_parties p = 0 \<or> dp_parties p < dp_threshold p then
        (Err (EngineDenied (''invalid threshold '' @ show_nat (unat (dp_threshold p)) @ ''-of-'' @
           show_nat (unat (dp_parties p)))), e)
      else
        (let (secret, e1) =
           (case scheme (dp_chain p) of
              EcdsaSecp256k1 \<Rightarrow>
                (SecretEcdsa (shd (le_rng_ecdsa e)), e\<lparr>le_rng_ecdsa := stl (le_rng_ecdsa e)\<rparr>)
            | Ed25519Scheme \<Rightarrow>
                (SecretEd25519 (shd (le_rng_ed25519 e)), e\<lparr>le_rng_ed25519 := stl (le_rng_ed25519 e)\<rparr>));
             key = \<lparr>lk_chain = dp_chain p, lk_secret = secret, lk_epoch = 1, lk_status = Active\<rparr>;
             (u, w) = new_v4 (le_world e1);
             key_id = ''local-'' @ u
         in (Ok \<lparr>do_key_id = key_id, do_public_key = local_public_key L key\<rparr>,
             e1\<lparr>le_world := w, le_keys := (le_keys e1)(key_id \<mapsto> key)\<rparr>)))"

definition local_rotate_key ::
  "('s, 'p) local_env \<Rightarrow> KeyId \<Rightarrow> 's LocalEngine \<Rightarrow>
   (RotateOutcome, EngineError) result \<times> 's LocalEngine" where
  "local_rotate_key L key_id e =
     (case le_keys e key_id of
        None \<Rightarrow> (Err (KeyNotFound key_id), e)
      | Some key \<Rightarrow>
          (let key' = key\<lparr>lk_epoch := lk_epoch key + 1\<rparr>
           in (Ok \<lparr>ro_key_id = key_id, ro_public_key = local_public_key L key', ro_epoch = lk_epoch key'\<rparr>,
               e\<lparr>le_keys := (le_keys e)(key_id \<mapsto> key')\<rparr>)))"

definition local_get_key_metadata ::
  "('s, 'p) local_env \<Rightarrow> KeyId \<Rightarrow> 's LocalEngine \<Rightarrow>
   (KeyMetadata, EngineError) result \<times> 's LocalEngine" where
  "local_get_key_metadata L key_id e =
     (case le_keys e key_id of
        None \<Rightarrow> (Err (KeyNotFound key_id), e)
      | Some key \<Rightarrow>
          (Ok \<lparr>km_key_id = key_id, km_chain = lk_chain key, km_public_key = local_public_key L key,
               km_status = lk_status key, km_epoch = lk_epoch key\<rparr>, e))"

definition local_restore_share ::
  "RestoreParams \<Rightarrow> 's LocalEngine \<Rightarrow> (bool, EngineError) result \<times> 's LocalEngine" where
  "local_restore_share p e =
     (if rp_quorum_proof p = [] then (Err (EngineDenied ''quorum proof required for restore''), e)
      else if le_keys e (rp_key_id p) = None then (Err (KeyNotFound (rp_key_id p)), e)
      else (Ok True, e))"

definition local_engine :: "('s, 'p) local_env \<Rightarrow> 's LocalEngine SigningEngine" where
  "local_engine L = \<lparr>eng_sign = local_sign L, eng_dkg = local_dkg L,
     eng_rotate_key = local_rotate_key L, eng_get_key_metadata = local_get_key_metadata L,
     eng_restore_share = local_restore_share\<rparr>"

section \<open>Invariant\<close>

text \<open>Secrets fit their key's scheme, and so do all keys still to be generated.\<close>

fun secret_fits :: "SignatureScheme \<Rightarrow> 's :: zero LocalSecret \<Rightarrow> bool" where
  "secret_fits sch (SecretEcdsa a) \<longleftrightarrow> sch = EcdsaSecp256k1 \<and> a \<noteq> 0"
| "secret_fits sch (SecretEd25519 seed) \<longleftrightarrow> sch = Ed25519Scheme \<and> length seed = 32"

definition local_inv :: "'s :: zero LocalEngine \<Rightarrow> bool" where
  "local_inv e \<longleftrightarrow>
     (\<forall>k key. le_keys e k = Some key \<longrightarrow> secret_fits (scheme (lk_chain key)) (lk_secret key)) \<and>
     (\<forall>a \<in> sset (le_rng_ecdsa e). a \<noteq> 0) \<and> (\<forall>b \<in> sset (le_rng_ed25519 e). length b = 32)"

definition local_lawful :: "('s :: field, 'p :: ab_group_add) local_env \<Rightarrow> bool" where
  "local_lawful L \<longleftrightarrow> k256_laws (fst L) \<and> ed25519_laws (snd L)"

definition local_accepts ::
  "('s, 'p) local_env \<Rightarrow> Chain \<Rightarrow> bytes \<Rightarrow> bytes \<Rightarrow> bytes \<Rightarrow> bool" where
  "local_accepts L c payload sig pk =
     (case scheme c of
        EcdsaSecp256k1 \<Rightarrow> secp_verify (fst L) pk payload sig
      | Ed25519Scheme \<Rightarrow> ed_curve_verify (snd L) pk payload sig)"

section \<open>Lemmas\<close>

lemma secret_sign_accepted:
  assumes "local_lawful L" and "secret_fits (scheme c) sec"
  shows "local_accepts L c m (secret_sign L sec m) (secret_public_key L sec)"
proof -
  obtain K X where L: "L = (K, X)" by force
  show ?thesis
  proof (cases sec)
    case (SecretEcdsa a)
    thus ?thesis using assms
      by (auto simp: L local_lawful_def local_accepts_def k256_laws_def secp_verify_def
          secp_public_from_scalar_def)
  next
    case (SecretEd25519 seed)
    thus ?thesis using assms
      by (auto simp: L local_lawful_def local_accepts_def ed_curve_verify_def crate_laws)
  qed
qed

lemma local_sign_state: "snd (local_sign L req e) = e"
  by (simp add: local_sign_def split: option.splits)

lemma shd_stl_sset: "shd g \<in> sset g" "sset (stl g) \<subseteq> sset g"
  by (cases g; auto)+

lemma local_dkg_inv: "local_inv e \<Longrightarrow> local_inv (snd (local_dkg L p e))"
  using shd_stl_sset[of "le_rng_ecdsa e"] shd_stl_sset[of "le_rng_ed25519 e"]
  by (auto simp: local_dkg_def local_inv_def Let_def new_v4_def split: SignatureScheme.splits)

lemma local_rotate_inv: "local_inv e \<Longrightarrow> local_inv (snd (local_rotate_key L k e))"
  by (auto simp: local_rotate_key_def local_inv_def Let_def split: option.splits)

interpretation local_eng: verified_engine "eng_sign (local_engine L)" "local_accepts L"
  "\<lambda>e. local_lawful L \<and> local_inv e" for L
proof unfold_locales
  fix e req s e'
  assume inv: "local_lawful L \<and> local_inv e" and ok: "eng_sign (local_engine L) req e = (Ok s, e')"
  then obtain key where key: "le_keys e (er_key_id req) = Some key"
    and sch: "scheme (lk_chain key) = scheme (er_chain req)"
    and s: "s = \<lparr>es_signature = secret_sign L (lk_secret key) (er_payload req),
                es_public_key = local_public_key L key\<rparr>"
    by (auto simp: local_engine_def local_sign_def split: option.splits if_splits)
  have "secret_fits (scheme (er_chain req)) (lk_secret key)"
    using inv key sch unfolding local_inv_def by metis
  from secret_sign_accepted[OF _ this, of L "er_payload req"] inv
  show "local_accepts L (er_chain req) (er_payload req) (es_signature s) (es_public_key s)"
    by (simp add: s local_public_key_def)
qed (auto simp: local_engine_def local_sign_state)

section \<open>Properties\<close>

definition demo_local :: "gf5 LocalEngine" where
  "demo_local = local_new (sconst G2) (sconst (replicate 32 9)) \<lparr>clock = sconst None, uuids = sconst ''a''\<rparr>"

lemma demo_local_lawful: "local_lawful (demo_k256, demo_crates)"
  by (simp add: local_lawful_def)

lemma demo_local_inv: "local_inv demo_local"
  by (simp add: local_inv_def demo_local_def local_new_def gf5_numerals)

text \<open>
  The life of a local key: \<open>dkg\<close> succeeds exactly for \<open>1 \<le> threshold \<le> parties\<close>; the new key
  is reported with its chain, public key, epoch 1 and status active; it signs every payload on
  every chain of its scheme with a signature the chain's verifier accepts under that public
  key; and rotation raises the epoch and leaves the public key and the other metadata alone.
\<close>
theorem local_key_lifecycle:
  assumes "local_lawful L" and "local_inv e"
  shows "(\<exists>out. fst (local_dkg L p e) = Ok out) = (0 < dp_threshold p \<and> dp_threshold p \<le> dp_parties p) \<and>
    (\<forall>out e'. local_dkg L p e = (Ok out, e') \<longrightarrow>
       fst (local_get_key_metadata L (do_key_id out) e') =
         Ok \<lparr>km_key_id = do_key_id out, km_chain = dp_chain p, km_public_key = do_public_key out,
             km_status = Active, km_epoch = 1\<rparr> \<and>
       (\<forall>c payload. scheme c = scheme (dp_chain p) \<longrightarrow>
          (\<exists>s. local_sign L \<lparr>er_key_id = do_key_id out, er_chain = c, er_payload = payload\<rparr> e' = (Ok s, e') \<and>
               es_public_key s = do_public_key out \<and>
               local_accepts L c payload (es_signature s) (do_public_key out))) \<and>
       (\<exists>r e''. local_rotate_key L (do_key_id out) e' = (Ok r, e'') \<and>
          ro_public_key r = do_public_key out \<and> ro_epoch r = 2 \<and>
          fst (local_get_key_metadata L (do_key_id out) e'') =
            Ok \<lparr>km_key_id = do_key_id out, km_chain = dp_chain p, km_public_key = do_public_key out,
                km_status = Active, km_epoch = 2\<rparr>))" (is "?A \<and> (\<forall>out e'. ?D out e' \<longrightarrow> ?P out e')")
proof (intro conjI allI impI)
  show ?A
    by (auto simp: local_dkg_def Let_def word_gt_0 not_less split: SignatureScheme.splits prod.splits)
next
  fix out e' assume d: "?D out e'"
  then obtain key where key: "le_keys e' (do_key_id out) = Some key"
      "lk_chain key = dp_chain p" "lk_epoch key = 1" "lk_status key = Active"
      "do_public_key out = local_public_key L key"
    by (auto simp: local_dkg_def Let_def split: if_splits SignatureScheme.splits prod.splits)
  show "fst (local_get_key_metadata L (do_key_id out) e') =
         Ok \<lparr>km_key_id = do_key_id out, km_chain = dp_chain p, km_public_key = do_public_key out,
             km_status = Active, km_epoch = 1\<rparr>"
    using key by (simp add: local_get_key_metadata_def)
  show "\<exists>r e''. local_rotate_key L (do_key_id out) e' = (Ok r, e'') \<and>
          ro_public_key r = do_public_key out \<and> ro_epoch r = 2 \<and>
          fst (local_get_key_metadata L (do_key_id out) e'') =
            Ok \<lparr>km_key_id = do_key_id out, km_chain = dp_chain p, km_public_key = do_public_key out,
                km_status = Active, km_epoch = 2\<rparr>"
    using key by (auto simp: local_rotate_key_def local_get_key_metadata_def local_public_key_def)
  fix c payload assume c: "scheme c = scheme (dp_chain p)"
  have inv': "local_inv e'" using local_dkg_inv[OF assms(2), of L p] d by simp
  let ?q = "\<lparr>er_key_id = do_key_id out, er_chain = c, er_payload = payload\<rparr>"
  let ?s = "\<lparr>es_signature = secret_sign L (lk_secret key) payload, es_public_key = local_public_key L key\<rparr>"
  have "local_sign L ?q e' = (Ok ?s, e')" using key c by (simp add: local_sign_def)
  moreover from this have "local_accepts L c payload (es_signature ?s) (es_public_key ?s)"
    using local_eng.sign_accepted[of L e' ?q ?s e'] assms(1) inv' by (simp add: local_engine_def)
  ultimately show "\<exists>s. local_sign L ?q e' = (Ok s, e') \<and> es_public_key s = do_public_key out \<and>
               local_accepts L c payload (es_signature s) (do_public_key out)"
    using key by (intro exI[of _ ?s]) simp
qed

theorem local_key_lifecycle_witness:
  "\<exists>out. fst (local_dkg (demo_k256, demo_crates) \<lparr>dp_chain = Sui, dp_threshold = 2, dp_parties = 3\<rparr> demo_local) = Ok out"
  using local_key_lifecycle[OF demo_local_lawful demo_local_inv,
      of "\<lparr>dp_chain = Sui, dp_threshold = 2, dp_parties = 3\<rparr>"]
  by simp

end
