(* ===== verification/Key_Ring.thy ===== *)
theory Key_Ring
  imports Threshold Local_Engine
begin

text \<open>
  What the in-house engines promise of a key over its life, stated apart from shares, clusters and
  curves: a key ring maps every key to its scheme, its public key and its epoch, and changes only
  when a key is created or rotated. The locale \<open>key_ring_engine\<close> is the contract of an engine that
  implements a key ring; the threshold engine (\<open>src/engine/threshold/mod.rs\<close>) and the local engine
  (\<open>src/engine/local.rs\<close>) are its two instances. Every run of such an engine is a run of the
  key ring with the same events, and what holds of a key in the ring holds of it in the engine.
\<close>

section \<open>The abstract key ring\<close>

record ring_entry =
  re_scheme :: SignatureScheme
  re_public_key :: bytes
  re_epoch :: u64

type_synonym key_ring = "KeyId \<rightharpoonup> ring_entry"

datatype engine_event =
    Ev_Signed EngineSignRequest EngineSignature
  | Ev_Created DkgParams DkgOutcome
  | Ev_Rotated RotateOutcome

type_synonym verifier = "Chain \<Rightarrow> bytes \<Rightarrow> bytes \<Rightarrow> bytes \<Rightarrow> bool"

definition new_entry :: "DkgParams \<Rightarrow> DkgOutcome \<Rightarrow> ring_entry" where
  "new_entry p out =
     \<lparr>re_scheme = scheme (dp_chain p), re_public_key = do_public_key out, re_epoch = 1\<rparr>"

inductive ring_step :: "verifier \<Rightarrow> key_ring \<Rightarrow> engine_event \<Rightarrow> key_ring \<Rightarrow> bool" for acc where
  ring_sign:
    "\<lbrakk>R (er_key_id q) = Some en; scheme (er_chain q) = re_scheme en;
      es_public_key s = re_public_key en;
      acc (er_chain q) (er_payload q) (es_signature s) (re_public_key en)\<rbrakk>
     \<Longrightarrow> ring_step acc R (Ev_Signed q s) R"
| ring_create:
    "R (do_key_id out) = None \<Longrightarrow>
     ring_step acc R (Ev_Created p out) (R(do_key_id out \<mapsto> new_entry p out))"
| ring_rotate:
    "\<lbrakk>R (ro_key_id ro) = Some en; ro_public_key ro = re_public_key en;
      ro_epoch ro = re_epoch en + 1\<rbrakk>
     \<Longrightarrow> ring_step acc R (Ev_Rotated ro) (R(ro_key_id ro \<mapsto> en\<lparr>re_epoch := ro_epoch ro\<rparr>))"

inductive_cases ring_step_signedE: "ring_step acc R (Ev_Signed q s) R'"
inductive_cases ring_step_createdE: "ring_step acc R (Ev_Created p out) R'"
inductive_cases ring_step_rotatedE: "ring_step acc R (Ev_Rotated ro) R'"

lemmas ring_stepE = ring_step_signedE ring_step_createdE ring_step_rotatedE

inductive ring_run :: "verifier \<Rightarrow> key_ring \<Rightarrow> engine_event list \<Rightarrow> key_ring \<Rightarrow> bool" for acc R where
  ring_run_nil: "ring_run acc R [] R"
| ring_run_snoc:
    "\<lbrakk>ring_run acc R h R'; ring_step acc R' ev R''\<rbrakk> \<Longrightarrow> ring_run acc R (h @ [ev]) R''"

text \<open>How often a history rotated a key.\<close>

fun rotates :: "KeyId \<Rightarrow> engine_event \<Rightarrow> bool" where
  "rotates k (Ev_Rotated ro) \<longleftrightarrow> ro_key_id ro = k"
| "rotates k _ \<longleftrightarrow> False"

definition rotations :: "KeyId \<Rightarrow> engine_event list \<Rightarrow> nat" where
  "rotations k h = length (filter (rotates k) h)"

section \<open>Runs of an engine\<close>

text \<open>
  The histories of an engine whose calls come one after the other: whole operations in any order,
  each recorded when it succeeds, between changes of its surroundings. Keys are created where the
  drawn id is fresh. Operations that overlap are the steps of \<open>Engine_Tasks\<close>.
\<close>

inductive engine_run ::
  "'e SigningEngine \<Rightarrow> ('e \<Rightarrow> 'e \<Rightarrow> bool) \<Rightarrow> ('e \<Rightarrow> bool) \<Rightarrow> 'e \<Rightarrow> engine_event list \<Rightarrow> 'e \<Rightarrow> bool"
  for eng surroundings fresh e0 where
  run_start: "engine_run eng surroundings fresh e0 [] e0"
| run_sign:
    "\<lbrakk>engine_run eng surroundings fresh e0 h e; eng_sign eng q e = (r, e')\<rbrakk>
     \<Longrightarrow> engine_run eng surroundings fresh e0
           (h @ (case r of Ok s \<Rightarrow> [Ev_Signed q s] | _ \<Rightarrow> [])) e'"
| run_dkg:
    "\<lbrakk>engine_run eng surroundings fresh e0 h e; fresh e; eng_dkg eng p e = (r1, e')\<rbrakk>
     \<Longrightarrow> engine_run eng surroundings fresh e0
           (h @ (case r1 of Ok out \<Rightarrow> [Ev_Created p out] | _ \<Rightarrow> [])) e'"
| run_rotate:
    "\<lbrakk>engine_run eng surroundings fresh e0 h e; eng_rotate_key eng k e = (r2, e')\<rbrakk>
     \<Longrightarrow> engine_run eng surroundings fresh e0
           (h @ (case r2 of Ok ro \<Rightarrow> [Ev_Rotated ro] | _ \<Rightarrow> [])) e'"
| run_metadata:
    "\<lbrakk>engine_run eng surroundings fresh e0 h e; eng_get_key_metadata eng k e = (r3, e')\<rbrakk>
     \<Longrightarrow> engine_run eng surroundings fresh e0 h e'"
| run_restore:
    "\<lbrakk>engine_run eng surroundings fresh e0 h e; eng_restore_share eng rp e = (r4, e')\<rbrakk>
     \<Longrightarrow> engine_run eng surroundings fresh e0 h e'"
| run_surroundings:
    "\<lbrakk>engine_run eng surroundings fresh e0 h e; surroundings e e'\<rbrakk>
     \<Longrightarrow> engine_run eng surroundings fresh e0 h e'"

section \<open>The life of a key in the ring\<close>

lemma ring_step_entry:
  assumes "ring_step acc R ev R'" and "R k = Some en"
  shows "R' k = Some (en\<lparr>re_epoch := re_epoch en + (if rotates k ev then 1 else 0)\<rparr>)"
  using assms by (cases ev) (auto elim!: ring_stepE)

lemma rotations_snoc: "rotations k (h @ [ev]) = rotations k h + (if rotates k ev then 1 else 0)"
  by (simp add: rotations_def)

text \<open>A key keeps its scheme and its public key, and its epoch counts the rotations.\<close>

lemma ring_run_entry:
  assumes "ring_run acc R h R'" and "R k = Some en"
  shows "R' k = Some (en\<lparr>re_epoch := re_epoch en + of_nat (rotations k h)\<rparr>)"
  using assms
proof (induction rule: ring_run.induct)
  case ring_run_nil
  thus ?case by (simp add: rotations_def)
next
  case (ring_run_snoc h R' ev R'')
  from ring_step_entry[OF ring_run_snoc.hyps(2) ring_run_snoc.IH[OF ring_run_snoc.prems]]
  show ?case by (simp add: rotations_snoc add.assoc)
qed

lemma ring_run_signed:
  assumes "ring_run acc R h R'" and "R k = Some en" and "Ev_Signed q s \<in> set h" and "er_key_id q = k"
  shows "scheme (er_chain q) = re_scheme en \<and> es_public_key s = re_public_key en \<and>
    acc (er_chain q) (er_payload q) (es_signature s) (re_public_key en)"
  using assms
proof (induction rule: ring_run.induct)
  case (ring_run_snoc h R' ev R'')
  thus ?case using ring_run_entry[OF ring_run_snoc.hyps(1) ring_run_snoc.prems(1)]
    by (auto elim!: ring_stepE)
qed simp

section \<open>The contract\<close>

locale key_ring_engine = verified_engine "eng_sign eng" accepts inv
  for eng :: "'e SigningEngine" and accepts :: verifier and inv :: "'e \<Rightarrow> bool" +
  fixes ring :: "'e \<Rightarrow> key_ring"
    and surroundings :: "'e \<Rightarrow> 'e \<Rightarrow> bool"
    and fresh :: "'e \<Rightarrow> bool"
  assumes sign_ring: "eng_sign eng q e = (r, e') \<Longrightarrow> ring e' = ring e"
    and sign_key: "inv e \<Longrightarrow> eng_sign eng q e = (Ok s, e') \<Longrightarrow>
      \<exists>en. ring e (er_key_id q) = Some en \<and> scheme (er_chain q) = re_scheme en \<and>
           es_public_key s = re_public_key en"
    and dkg_inv: "inv e \<Longrightarrow> fresh e \<Longrightarrow> inv (snd (eng_dkg eng p e))"
    and dkg_Ok: "fresh e \<Longrightarrow> eng_dkg eng p e = (Ok out, e') \<Longrightarrow>
      ring e (do_key_id out) = None \<and> ring e' = (ring e)(do_key_id out \<mapsto> new_entry p out)"
    and dkg_fails: "eng_dkg eng p e = (r1, e') \<Longrightarrow> \<not> is_ok r1 \<Longrightarrow> ring e' = ring e"
    and rotate_inv: "inv e \<Longrightarrow> inv (snd (eng_rotate_key eng k e))"
    and rotate_Ok: "eng_rotate_key eng k e = (Ok ro, e') \<Longrightarrow>
      \<exists>en. ring e k = Some en \<and> ro = \<lparr>ro_key_id = k, ro_public_key = re_public_key en, ro_epoch = re_epoch en + 1\<rparr> \<and>
           ring e' = (ring e)(k \<mapsto> en\<lparr>re_epoch := re_epoch en + 1\<rparr>)"
    and rotate_fails: "eng_rotate_key eng k e = (r2, e') \<Longrightarrow> \<not> is_ok r2 \<Longrightarrow> ring e' = ring e"
    and metadata_state: "snd (eng_get_key_metadata eng k e) = e"
    and metadata_Ok: "ring e k = Some en \<Longrightarrow>
      \<exists>m. fst (eng_get_key_metadata eng k e) = Ok m \<and> km_key_id m = k \<and>
          scheme (km_chain m) = re_scheme en \<and> km_public_key m = re_public_key en \<and>
          km_epoch m = re_epoch en"
    and metadata_unknown: "ring e k = None \<Longrightarrow> fst (eng_get_key_metadata eng k e) = Err (KeyNotFound k)"
    and restore_state: "snd (eng_restore_share eng rp e) = e"
    and surroundings_inv: "inv e \<Longrightarrow> surroundings e e' \<Longrightarrow> inv e'"
    and surroundings_ring: "surroundings e e' \<Longrightarrow> ring e' = ring e"
begin

text \<open>Forward simulation: a run of the engine is a run of the ring with the same history.\<close>

lemma sign_refines:
  assumes run: "ring_run accepts R h (ring e1)" and inv: "inv e1" and st: "eng_sign eng q e1 = (r, e2)"
  shows "ring_run accepts R (h @ (case r of Ok s \<Rightarrow> [Ev_Signed q s] | _ \<Rightarrow> [])) (ring e2)"
  unfolding sign_ring[OF st]
proof (cases r)
  case (Ok s)
  with sign_key[OF inv, of q s e2] sign_accepted[OF inv, of q s e2] st
  have "ring_step accepts (ring e1) (Ev_Signed q s) (ring e1)" by (auto intro: ring_step.ring_sign)
  thus "ring_run accepts R (h @ (case r of Ok s \<Rightarrow> [Ev_Signed q s] | _ \<Rightarrow> [])) (ring e1)"
    using run Ok by (auto intro: ring_run_snoc)
qed (use run in auto)

lemma dkg_refines:
  assumes run: "ring_run accepts R h (ring e1)" and fresh: "fresh e1" and st: "eng_dkg eng p e1 = (r, e2)"
  shows "ring_run accepts R (h @ (case r of Ok out \<Rightarrow> [Ev_Created p out] | _ \<Rightarrow> [])) (ring e2)"
proof (cases r)
  case (Ok out)
  with dkg_Ok[OF fresh, of p out e2] st
  have "ring_step accepts (ring e1) (Ev_Created p out) (ring e2)" by (auto intro: ring_create)
  thus ?thesis using run Ok by (auto intro: ring_run_snoc)
qed (use run dkg_fails[OF st] in auto)

lemma rotate_refines:
  assumes run: "ring_run accepts R h (ring e1)" and st: "eng_rotate_key eng k e1 = (r, e2)"
  shows "ring_run accepts R (h @ (case r of Ok ro \<Rightarrow> [Ev_Rotated ro] | _ \<Rightarrow> [])) (ring e2)"
proof (cases r)
  case (Ok ro)
  with rotate_Ok[of k e1 ro e2] st obtain en where
    "ring e1 k = Some en"
    "ro = \<lparr>ro_key_id = k, ro_public_key = re_public_key en, ro_epoch = re_epoch en + 1\<rparr>"
    "ring e2 = (ring e1)(k \<mapsto> en\<lparr>re_epoch := re_epoch en + 1\<rparr>)" by blast
  hence "ring_step accepts (ring e1) (Ev_Rotated ro) (ring e2)"
    using ring_step.ring_rotate[of "ring e1" ro en] by simp
  thus ?thesis using run Ok by (auto intro: ring_run_snoc)
qed (use run rotate_fails[OF st] in auto)

lemma run_refines:
  assumes "engine_run eng surroundings fresh e h e'" and "inv e"
  shows "inv e' \<and> ring_run accepts (ring e) h (ring e')"
  using assms(1)
proof (induction rule: engine_run.induct)
  case run_start
  thus ?case using assms(2) by (simp add: ring_run_nil)
next
  case (run_sign h e1 q r e2)
  with sign_inv[of e1 q] sign_refines[of "ring e" h e1 q r e2] show ?case by simp
next
  case (run_dkg h e1 p r e2)
  with dkg_inv[of e1 p] dkg_refines[of "ring e" h e1 p r e2] show ?case by simp
next
  case (run_rotate h e1 k r e2)
  with rotate_inv[of e1 k] rotate_refines[of "ring e" h e1 k r e2] show ?case by simp
next
  case (run_metadata h e1 k r3 e2)
  thus ?case using metadata_state[of k e1] by simp
next
  case (run_restore h e1 rp r4 e2)
  thus ?case using restore_state[of rp e1] by simp
next
  case (run_surroundings h e1 e2)
  thus ?case using surroundings_inv surroundings_ring by metis
qed

text \<open>
  So a key created by \<open>dkg\<close> signs under its first public key for the rest of the run, and its
  metadata report that key and an epoch of one more than the number of its rotations.
\<close>

lemma created_key_for_life:
  assumes "inv e" and "fresh e" and dkg: "eng_dkg eng p e = (Ok out, e1)"
    and run: "engine_run eng surroundings fresh e1 h e2"
  shows "(\<forall>q s. Ev_Signed q s \<in> set h \<longrightarrow> er_key_id q = do_key_id out \<longrightarrow>
      scheme (er_chain q) = scheme (dp_chain p) \<and> es_public_key s = do_public_key out \<and>
      accepts (er_chain q) (er_payload q) (es_signature s) (do_public_key out)) \<and>
    (\<exists>m. eng_get_key_metadata eng (do_key_id out) e2 = (Ok m, e2) \<and> km_key_id m = do_key_id out \<and>
      scheme (km_chain m) = scheme (dp_chain p) \<and> km_public_key m = do_public_key out \<and>
      km_epoch m = 1 + of_nat (rotations (do_key_id out) h))"
proof -
  have "inv e1" using dkg_inv[OF assms(1,2), of p] dkg by simp
  hence rr: "ring_run accepts (ring e1) h (ring e2)" using run_refines[OF run] by blast
  have key: "ring e1 (do_key_id out) = Some (new_entry p out)" using dkg_Ok[OF assms(2) dkg] by simp
  show ?thesis
  proof (intro conjI allI impI)
    fix q s assume "Ev_Signed q s \<in> set h" and "er_key_id q = do_key_id out"
    from ring_run_signed[OF rr key this]
    show "scheme (er_chain q) = scheme (dp_chain p)" and "es_public_key s = do_public_key out"
      and "accepts (er_chain q) (er_payload q) (es_signature s) (do_public_key out)"
      by (simp_all add: new_entry_def)
  next
    show "\<exists>m. eng_get_key_metadata eng (do_key_id out) e2 = (Ok m, e2) \<and> km_key_id m = do_key_id out \<and>
      scheme (km_chain m) = scheme (dp_chain p) \<and> km_public_key m = do_public_key out \<and>
      km_epoch m = 1 + of_nat (rotations (do_key_id out) h)"
      using metadata_Ok[OF ring_run_entry[OF rr key]] metadata_state[of "do_key_id out" e2]
      by (auto simp: new_entry_def prod_eq_iff)
  qed
qed

end

section \<open>The threshold engine\<close>

fun scheme_signs :: "Scheme \<Rightarrow> SignatureScheme" where
  "scheme_signs Ecdsa = EcdsaSecp256k1"
| "scheme_signs Eddsa = Ed25519Scheme"

definition info_entry :: "Scheme \<Rightarrow> KeyInfo \<Rightarrow> ring_entry" where
  "info_entry sch i =
     \<lparr>re_scheme = scheme_signs sch, re_public_key = ki_public_key i, re_epoch = ki_epoch i\<rparr>"

definition threshold_ring :: "('s, 't) ThresholdEngine \<Rightarrow> key_ring" where
  "threshold_ring e k =
     (case th_keys e k of
        None \<Rightarrow> None
      | Some Ecdsa \<Rightarrow> map_option (info_entry Ecdsa) (cl_keys (th_ecdsa e) k)
      | Some Eddsa \<Rightarrow> map_option (info_entry Eddsa) (cl_keys (th_eddsa e) k))"

text \<open>Nodes of either cluster go offline and come back.\<close>

definition outage :: "('s, 't) ThresholdEngine \<Rightarrow> ('s, 't) ThresholdEngine \<Rightarrow> bool" where
  "outage e e' \<longleftrightarrow> (\<exists>i b j c.
     e' = e\<lparr>th_ecdsa := set_online i b (th_ecdsa e), th_eddsa := set_online j c (th_eddsa e)\<rparr>)"

lemma keygen_cl_keys:
  assumes "keygen C tm key cl g = (r, cl', g')"
  shows "cl_keys cl' = (case r of
     Ok pk \<Rightarrow> (cl_keys cl)(key \<mapsto> \<lparr>ki_public_key = pk, ki_epoch = 1\<rparr>) | _ \<Rightarrow> cl_keys cl)"
  using assms
  by (auto simp: keygen_def Let_def split: if_splits prod.splits result.splits option.splits)

lemma refresh_fails_keys:
  assumes "refresh C tm key cl g = (r, cl', g')" and "\<not> is_ok r"
  shows "cl_keys cl' = cl_keys cl"
  using assms
  by (auto simp: refresh_def Let_def split: if_splits prod.splits result.splits option.splits)

lemma set_online_keys [simp]: "cl_keys (set_online i b cl) = cl_keys cl"
  by (simp add: set_online_def)

lemma scheme_signs_of [simp]: "scheme_signs (scheme_of sch) = sch"
  by (cases sch) auto

lemma threshold_ring_cong:
  assumes "th_keys e' = th_keys e" and "cl_keys (th_ecdsa e') = cl_keys (th_ecdsa e)"
    and "cl_keys (th_eddsa e') = cl_keys (th_eddsa e)"
  shows "threshold_ring e' = threshold_ring e"
  using assms by (simp add: threshold_ring_def fun_eq_iff split: option.split Scheme.split)

lemma threshold_ring_sel [simp]:
  "threshold_ring (e\<lparr>th_rng_ecdsa := g1\<rparr>) = threshold_ring e"
  "threshold_ring (e\<lparr>th_rng_eddsa := g2\<rparr>) = threshold_ring e"
  by (auto intro: threshold_ring_cong)

lemma threshold_dkg_ring:
  assumes "threshold_dkg E p e = (r, e')"
  shows "threshold_ring e' = (case r of
     Ok out \<Rightarrow> (threshold_ring e)(do_key_id out \<mapsto> new_entry p out) | _ \<Rightarrow> threshold_ring e)"
proof (cases "scheme (dp_chain p)")
  case EcdsaSecp256k1
  with assms show ?thesis
    by (auto simp: threshold_dkg_def Let_def new_v4_def threshold_ring_def fun_eq_iff info_entry_def
        new_entry_def dest!: keygen_cl_keys split: prod.splits result.splits option.splits Scheme.splits)
next
  case Ed25519Scheme
  with assms show ?thesis
    by (auto simp: threshold_dkg_def Let_def new_v4_def threshold_ring_def fun_eq_iff info_entry_def
        new_entry_def dest!: keygen_cl_keys split: prod.splits result.splits option.splits Scheme.splits)
qed

lemma threshold_rotate_ring:
  assumes "threshold_rotate_key E k e = (Ok ro, e')"
  shows "\<exists>en. threshold_ring e k = Some en \<and>
    ro = \<lparr>ro_key_id = k, ro_public_key = re_public_key en, ro_epoch = re_epoch en + 1\<rparr> \<and>
    threshold_ring e' = (threshold_ring e)(k \<mapsto> en\<lparr>re_epoch := re_epoch en + 1\<rparr>)"
proof -
  obtain sch where sch: "th_keys e k = Some sch"
    using assms by (auto simp: threshold_rotate_key_def split: option.splits)
  show ?thesis
  proof (cases sch)
    case Ecdsa
    then obtain pk ep cl g where
        rf: "refresh (te_secp E) (te_timer E) k (th_ecdsa e) (th_rng_ecdsa e) = (Ok (pk, ep), cl, g)"
      and ro: "ro = \<lparr>ro_key_id = k, ro_public_key = pk, ro_epoch = ep\<rparr>"
      and e': "e' = e\<lparr>th_ecdsa := cl, th_rng_ecdsa := g\<rparr>"
      using assms sch by (auto simp: threshold_rotate_key_def result_simps split: prod.splits)
    show ?thesis
      by (rule refresh_Ok_keys[OF rf])
        (simp add: ro e' sch Ecdsa threshold_ring_def fun_eq_iff info_entry_def split: option.split Scheme.split)
  next
    case Eddsa
    then obtain pk ep cl g where
        rf: "refresh (te_edwards E) (te_timer E) k (th_eddsa e) (th_rng_eddsa e) = (Ok (pk, ep), cl, g)"
      and ro: "ro = \<lparr>ro_key_id = k, ro_public_key = pk, ro_epoch = ep\<rparr>"
      and e': "e' = e\<lparr>th_eddsa := cl, th_rng_eddsa := g\<rparr>"
      using assms sch by (auto simp: threshold_rotate_key_def result_simps split: prod.splits)
    show ?thesis
      by (rule refresh_Ok_keys[OF rf])
        (simp add: ro e' sch Eddsa threshold_ring_def fun_eq_iff info_entry_def split: option.split Scheme.split)
  qed
qed

lemma threshold_rotate_fails_ring:
  assumes "threshold_rotate_key E k e = (r, e')" and "\<not> is_ok r"
  shows "threshold_ring e' = threshold_ring e"
proof -
  obtain r1 cl1 g1 where 1: "refresh (te_secp E) (te_timer E) k (th_ecdsa e) (th_rng_ecdsa e) = (r1, cl1, g1)"
    using prod_cases3 by blast
  obtain r2 cl2 g2 where 2: "refresh (te_edwards E) (te_timer E) k (th_eddsa e) (th_rng_eddsa e) = (r2, cl2, g2)"
    using prod_cases3 by blast
  show ?thesis
  proof (cases "th_keys e k")
    case (Some sch)
    show ?thesis
    proof (cases sch)
      case Ecdsa
      have "\<not> is_ok r1" using assms Some Ecdsa 1
        by (cases r1) (auto simp: threshold_rotate_key_def)
      with refresh_fails_keys[OF 1] assms(1) Some Ecdsa 1 show ?thesis
        by (auto simp: threshold_rotate_key_def intro: threshold_ring_cong)
    next
      case Eddsa
      have "\<not> is_ok r2" using assms Some Eddsa 2
        by (cases r2) (auto simp: threshold_rotate_key_def)
      with refresh_fails_keys[OF 2] assms(1) Some Eddsa 2 show ?thesis
        by (auto simp: threshold_rotate_key_def intro: threshold_ring_cong)
    qed
  qed (use assms in \<open>simp add: threshold_rotate_key_def\<close>)
qed

lemma threshold_sign_key:
  assumes "threshold_sign E q e = (Ok s, e')"
  shows "\<exists>en. threshold_ring e (er_key_id q) = Some en \<and> scheme (er_chain q) = re_scheme en \<and>
    es_public_key s = re_public_key en"
proof (cases "scheme (er_chain q)")
  case EcdsaSecp256k1
  with assms show ?thesis
    by (auto simp: threshold_sign_def threshold_ring_def cluster_public_key_def info_entry_def
        result_simps split: option.splits if_splits prod.splits)
next
  case Ed25519Scheme
  with assms show ?thesis
    by (auto simp: threshold_sign_def threshold_ring_def cluster_public_key_def info_entry_def
        result_simps split: option.splits if_splits prod.splits)
qed

lemma threshold_metadata_ring:
  assumes "threshold_ring e k = Some en"
  shows "\<exists>m. threshold_get_key_metadata k e = (Ok m, e) \<and> km_key_id m = k \<and>
    scheme (km_chain m) = re_scheme en \<and> km_public_key m = re_public_key en \<and> km_epoch m = re_epoch en"
  using assms
  by (auto simp: threshold_ring_def threshold_get_key_metadata_def cluster_public_key_def
      cluster_epoch_def info_entry_def split: option.splits Scheme.splits)

lemma threshold_metadata_unknown:
  assumes "threshold_ring e k = None"
  shows "threshold_get_key_metadata k e = (Err (KeyNotFound k), e)"
  using assms
  by (auto simp: threshold_ring_def threshold_get_key_metadata_def cluster_public_key_def
      split: option.splits Scheme.splits)

lemma threshold_metadata_state: "snd (threshold_get_key_metadata k e) = e"
  by (simp add: threshold_get_key_metadata_def split: option.split prod.split)

interpretation thr_ring: key_ring_engine "threshold_engine E" "chain_accepts E"
  "\<lambda>e. threshold_lawful E \<and> threshold_inv E e" threshold_ring outage key_id_fresh for E
proof unfold_locales
  fix q e r e'
  assume "eng_sign (threshold_engine E) q e = (r, e')"
  hence "threshold_sign E q e = (r, e')" by (simp add: threshold_engine_def)
  from threshold_sign_state[OF this] show "threshold_ring e' = threshold_ring e" by auto
next
  fix e p
  assume "threshold_lawful E \<and> threshold_inv E e" and "key_id_fresh e"
  thus "threshold_lawful E \<and> threshold_inv E (snd (eng_dkg (threshold_engine E) p e))"
    by (metis SigningEngine.select_convs(2) surjective_pairing threshold_dkg_inv threshold_engine_def)
next
  fix e p out e'
  assume fresh: "key_id_fresh e" and "eng_dkg (threshold_engine E) p e = (Ok out, e')"
  hence dkg: "threshold_dkg E p e = (Ok out, e')" by (simp add: threshold_engine_def)
  show "threshold_ring e (do_key_id out) = None \<and>
      threshold_ring e' = (threshold_ring e)(do_key_id out \<mapsto> new_entry p out)"
    using threshold_dkg_ring[OF dkg] threshold_dkg_key(1)[OF dkg] fresh
    by (simp add: threshold_ring_def key_id_fresh_def split: option.split Scheme.split)
next
  fix p e r e'
  assume "eng_dkg (threshold_engine E) p e = (r, e')" and "\<not> is_ok r"
  thus "threshold_ring e' = threshold_ring e"
    using threshold_dkg_ring[of E p e r e'] by (cases r) (auto simp: threshold_engine_def)
next
  fix e k
  assume "threshold_lawful E \<and> threshold_inv E e"
  thus "threshold_lawful E \<and> threshold_inv E (snd (eng_rotate_key (threshold_engine E) k e))"
    by (metis SigningEngine.select_convs(3) surjective_pairing threshold_rotate_inv threshold_engine_def)
next
  fix e e' :: "('a, 'c) ThresholdEngine"
  assume "threshold_lawful E \<and> threshold_inv E e" and "outage e e'"
  thus "threshold_lawful E \<and> threshold_inv E e'"
    by (auto simp: outage_def threshold_inv_def cluster_inv_set_online)
qed (auto simp: threshold_engine_def threshold_metadata_unknown threshold_metadata_state
    threshold_restore_share_def outage_def threshold_sign_key threshold_rotate_ring threshold_rotate_fails_ring
    dest!: threshold_metadata_ring intro!: threshold_ring_cong split: option.splits prod.splits)

section \<open>The local engine\<close>

definition local_ring :: "('s, 'p) local_env \<Rightarrow> 's LocalEngine \<Rightarrow> key_ring" where
  "local_ring L e k = map_option (\<lambda>key.
     \<lparr>re_scheme = scheme (lk_chain key), re_public_key = local_public_key L key, re_epoch = lk_epoch key\<rparr>)
     (le_keys e k)"

definition local_id_fresh :: "'s LocalEngine \<Rightarrow> bool" where
  "local_id_fresh e \<longleftrightarrow> le_keys e (''local-'' @ shd (uuids (le_world e))) = None"

lemma local_dkg_ring:
  assumes "local_dkg L p e = (r, e')"
  shows "local_ring L e' = (case r of
     Ok out \<Rightarrow> (local_ring L e)(do_key_id out \<mapsto> new_entry p out) | _ \<Rightarrow> local_ring L e)"
  using assms
  by (auto simp: local_dkg_def Let_def new_v4_def local_ring_def fun_eq_iff new_entry_def
      split: if_splits SignatureScheme.splits)

lemma local_dkg_id: "local_dkg L p e = (Ok out, e') \<Longrightarrow> do_key_id out = ''local-'' @ shd (uuids (le_world e))"
  by (auto simp: local_dkg_def Let_def new_v4_def split: if_splits SignatureScheme.splits)

interpretation loc_ring: key_ring_engine "local_engine L" "local_accepts L"
  "\<lambda>e. local_lawful L \<and> local_inv e" "local_ring L" "(=)" local_id_fresh for L
proof unfold_locales
  fix e p out e'
  assume fresh: "local_id_fresh e" and "eng_dkg (local_engine L) p e = (Ok out, e')"
  hence dkg: "local_dkg L p e = (Ok out, e')" by (simp add: local_engine_def)
  show "local_ring L e (do_key_id out) = None \<and>
      local_ring L e' = (local_ring L e)(do_key_id out \<mapsto> new_entry p out)"
    using local_dkg_ring[OF dkg] local_dkg_id[OF dkg] fresh by (simp add: local_ring_def local_id_fresh_def)
next
  fix p e r e'
  assume "eng_dkg (local_engine L) p e = (r, e')" and "\<not> is_ok r"
  thus "local_ring L e' = local_ring L e"
    using local_dkg_ring[of L p e r e'] by (cases r) (auto simp: local_engine_def)
next
  fix e :: "'a LocalEngine" and k
  assume "local_lawful L \<and> local_inv e"
  thus "local_lawful L \<and> local_inv (snd (eng_rotate_key (local_engine L) k e))"
    by (simp add: local_engine_def local_rotate_inv)
qed (auto simp: local_engine_def local_ring_def local_sign_def local_dkg_inv local_rotate_key_def local_get_key_metadata_def local_restore_share_def fun_eq_iff Let_def
    local_public_key_def split: option.splits if_splits)

section \<open>Properties\<close>

text \<open>
  (C16) The threshold engine refines the key ring, for calls one after the other. From any reachable
  state, whatever whole operations and node outages follow, the history of successful operations is one the abstract ring allows from the
  engine's ring: every signature is by a key of the ring, on its scheme, accepted under its public
  key; keys are created under new ids with epoch 1; a rotation reports the key's own public key
  and the next epoch, and nothing else changes the ring.
\<close>
theorem threshold_refines_key_ring:
  assumes "threshold_lawful (E :: ('s :: field, 'p :: ab_group_add, 't :: field, 'q :: ab_group_add) threshold_env)"
    and "indices_distinct TYPE('s) n" and "indices_distinct TYPE('t) n"
    and "threshold_reach E t n e" and "engine_run (threshold_engine E) outage key_id_fresh e h e'"
  shows "ring_run (chain_accepts E) (threshold_ring e) h (threshold_ring e')"
  using thr_ring.run_refines[OF assms(5)] threshold_reach_inv[OF assms(1-4)] assms(1) by blast

lemma demo_run_dkg:
  "engine_run (threshold_engine demo_env) outage key_id_fresh demo_engine0
     [Ev_Created demo_dkg demo_outcome] demo_engine"
  using run_dkg[of "threshold_engine demo_env" outage key_id_fresh demo_engine0 "[]" demo_engine0 demo_dkg
      "Ok demo_outcome" demo_engine, OF run_start demo_engine_fresh] demo_dkg_run
  by (simp add: threshold_engine_def)

theorem threshold_refines_key_ring_witness:
  "ring_run (chain_accepts demo_env) (threshold_ring demo_engine0)
     [Ev_Created demo_dkg demo_outcome] (threshold_ring demo_engine)"
  by (rule threshold_refines_key_ring[OF demo_env_lawful demo_indices demo_indices demo_engine0_reach demo_run_dkg])

text \<open>
  (C15) A threshold key keeps one public key for life, as long as the calls of the engine come one after
  the other. Whatever whole operations follow after \<open>dkg\<close> returned it, signing, rotations, further
  keys, and node outages between them, in any order: every signature made under its id is on a
  chain of its scheme and verifies under the public key \<open>dkg\<close> reported, and \<open>get_key_metadata\<close>
  succeeds with that public key and an epoch of one plus the number of its rotations (modulo \<open>2 ^ 64\<close>).
\<close>
theorem threshold_key_for_life:
  assumes "threshold_lawful (E :: ('s :: field, 'p :: ab_group_add, 't :: field, 'q :: ab_group_add) threshold_env)"
    and "indices_distinct TYPE('s) n" and "indices_distinct TYPE('t) n"
    and "threshold_reach E t n e" and "key_id_fresh e" and "threshold_dkg E p e = (Ok out, e1)"
    and "engine_run (threshold_engine E) outage key_id_fresh e1 h e2"
  shows "(\<forall>q s. Ev_Signed q s \<in> set h \<longrightarrow> er_key_id q = do_key_id out \<longrightarrow>
      scheme (er_chain q) = scheme (dp_chain p) \<and> es_public_key s = do_public_key out \<and>
      chain_accepts E (er_chain q) (er_payload q) (es_signature s) (do_public_key out)) \<and>
    (\<exists>m. threshold_get_key_metadata (do_key_id out) e2 = (Ok m, e2) \<and> km_key_id m = do_key_id out \<and>
      scheme (km_chain m) = scheme (dp_chain p) \<and> km_public_key m = do_public_key out \<and>
      km_epoch m = 1 + of_nat (rotations (do_key_id out) h))"
  using thr_ring.created_key_for_life[OF _ assms(5) _ assms(7)] threshold_reach_inv[OF assms(1-4)] assms(1,6)
  by (simp add: threshold_engine_def)

lemma demo_run_rotate:
  "\<exists>r e'. ro_key_id r = ''mpc-u'' \<and>
     engine_run (threshold_engine demo_env) outage key_id_fresh demo_engine [Ev_Rotated r] e'"
proof -
  obtain r e' where r: "threshold_rotate_key demo_env ''mpc-u'' demo_engine = (Ok r, e')"
    using demo_rotate by blast
  hence "ro_key_id r = ''mpc-u''" using threshold_rotate_Ok by blast
  thus ?thesis
    using run_rotate[OF run_start, of "threshold_engine demo_env" "''mpc-u''" demo_engine "Ok r" e'] r
    by (auto simp: threshold_engine_def)
qed

theorem threshold_key_for_life_witness:
  "\<exists>m (e2 :: (gf5, gf5) ThresholdEngine). threshold_get_key_metadata ''mpc-u'' e2 = (Ok m, e2) \<and> km_public_key m = gf5_bytes G3 \<and> km_epoch m = 2"
proof -
  obtain r e' where ro: "ro_key_id r = ''mpc-u''"
    and run: "engine_run (threshold_engine demo_env) outage key_id_fresh demo_engine [Ev_Rotated r] e'"
    using demo_run_rotate by blast
  from threshold_key_for_life[OF demo_env_lawful demo_indices demo_indices demo_engine0_reach
      demo_engine_fresh demo_dkg_run run]
  show ?thesis by (auto simp: demo_outcome_def rotations_def ro)
qed

text \<open>
  The local engine implements the same key ring: from a state of its invariant every run is a run of
  the ring, so a key created by \<open>dkg\<close> signs under the public key it was reported with for the rest of
  the run, across rotations, and its metadata count them.
\<close>
theorem local_refines_key_ring:
  assumes "local_lawful L" and "local_inv e" and "engine_run (local_engine L) (=) local_id_fresh e h e'"
  shows "ring_run (local_accepts L) (local_ring L e) h (local_ring L e')"
  using loc_ring.run_refines[OF assms(3)] assms(1,2) by blast

theorem local_refines_key_ring_witness:
  "\<exists>h R'. h \<noteq> [] \<and> ring_run (local_accepts (demo_k256, demo_crates)) (local_ring (demo_k256, demo_crates) demo_local) h R'"
proof -
  let ?L = "(demo_k256, demo_crates)" and ?p = "\<lparr>dp_chain = Sui, dp_threshold = 2, dp_parties = 3\<rparr>"
  obtain out e' where d: "local_dkg ?L ?p demo_local = (Ok out, e')"
    by (simp add: local_dkg_def Let_def new_v4_def)
  have "local_id_fresh demo_local" by (simp add: local_id_fresh_def demo_local_def local_new_def)
  from run_dkg[of "local_engine ?L" "(=)" local_id_fresh demo_local "[]" demo_local ?p "Ok out" e',
      OF run_start this] d
  have "engine_run (local_engine ?L) (=) local_id_fresh demo_local [Ev_Created ?p out] e'"
    by (simp add: local_engine_def)
  from local_refines_key_ring[OF demo_local_lawful demo_local_inv this] show ?thesis by blast
qed

end
