(* ===== verification/Cluster_Tasks.thy ===== *)
theory Cluster_Tasks
  imports Cluster
begin

text \<open>
  The operations of \<open>src/engine/threshold/cluster.rs\<close> as the tasks of a running server take them:
  one step per lock or \<open>await\<close>. \<open>sign\<close> asks the nodes one after the other and sleeps between
  them, \<open>refresh\<close> and \<open>keygen\<close> first run a round of acknowledgements in the same way, \<open>refresh\<close> then
  reads and writes each node's share under separate locks, and \<open>keygen\<close> stores the
  new shares node by node before it publishes the key; nothing orders two tasks on the same key.
  No lock is held across a step: a step takes its lock, does its work and releases it.
  A task that runs alone does what the definitions of the theory \<open>Cluster\<close> say. Two tasks that
  interleave need not: the theory \<open>Cluster_Races\<close> has the two lost-update runs, and the theory
  \<open>Cluster_Locking\<close> shows that one lock per key, shared by signers and exclusive for \<open>refresh\<close> and
  \<open>keygen\<close>, is enough.
\<close>

section \<open>Tasks\<close>

text \<open>
  Where a call stands: the operation's arguments, the node it is about to visit, and the local
  variables it has so far.
\<close>

datatype 's cluster_task =
    Sign_Start string bytes
  | Sign_Poll string bytes nat "'s share list"
  | Sign_Wait string bytes nat u64 "'s share list"
  | Sign_Done string bytes "(bytes, ThresholdError) result"
  | Refresh_Start string
  | Refresh_Lookup string
  | Refresh_Round string nat
  | Refresh_Ack string nat u64
  | Refresh_Deal string
  | Refresh_Read string nat "'s list"
  | Refresh_Write string nat 's "'s list"
  | Refresh_Bump string
  | Refresh_Done string "(bytes \<times> u64, ThresholdError) result"
  | Keygen_Start string
  | Keygen_Round string nat
  | Keygen_Ack string nat u64
  | Keygen_Deal string
  | Keygen_Put string nat "'s list" "bytes list"
  | Keygen_Publish string "bytes list"
  | Keygen_Done string "(bytes, ThresholdError) result"

fun task_key :: "'s cluster_task \<Rightarrow> string" where
  "task_key (Sign_Start k _) = k"
| "task_key (Sign_Poll k _ _ _) = k"
| "task_key (Sign_Wait k _ _ _ _) = k"
| "task_key (Sign_Done k _ _) = k"
| "task_key (Refresh_Start k) = k"
| "task_key (Refresh_Lookup k) = k"
| "task_key (Refresh_Round k _) = k"
| "task_key (Refresh_Ack k _ _) = k"
| "task_key (Refresh_Deal k) = k"
| "task_key (Refresh_Read k _ _) = k"
| "task_key (Refresh_Write k _ _ _) = k"
| "task_key (Refresh_Bump k) = k"
| "task_key (Refresh_Done k _) = k"
| "task_key (Keygen_Start k) = k"
| "task_key (Keygen_Round k _) = k"
| "task_key (Keygen_Ack k _ _) = k"
| "task_key (Keygen_Deal k) = k"
| "task_key (Keygen_Put k _ _ _) = k"
| "task_key (Keygen_Publish k _) = k"
| "task_key (Keygen_Done k _) = k"

definition task_ended :: "'s cluster_task \<Rightarrow> bool" where
  "task_ended task = (case task of Sign_Done _ _ _ \<Rightarrow> True | Refresh_Done _ _ \<Rightarrow> True | Keygen_Done _ _ \<Rightarrow> True
     | _ \<Rightarrow> False)"

text \<open>The tasks of the two operations that store shares, from their start to their end.\<close>

definition task_writes :: "'s cluster_task \<Rightarrow> bool" where
  "task_writes task = (case task of
       Refresh_Start _ \<Rightarrow> True | Refresh_Lookup _ \<Rightarrow> True | Refresh_Round _ _ \<Rightarrow> True
     | Refresh_Ack _ _ _ \<Rightarrow> True | Refresh_Deal _ \<Rightarrow> True | Refresh_Read _ _ _ \<Rightarrow> True
     | Refresh_Write _ _ _ _ \<Rightarrow> True | Refresh_Bump _ \<Rightarrow> True
     | Keygen_Start _ \<Rightarrow> True | Keygen_Round _ _ \<Rightarrow> True | Keygen_Ack _ _ _ \<Rightarrow> True | Keygen_Deal _ \<Rightarrow> True | Keygen_Put _ _ _ _ \<Rightarrow> True
     | Keygen_Publish _ _ \<Rightarrow> True | _ \<Rightarrow> False)"

text \<open>What \<open>sign\<close> does with the shares of a finished round.\<close>

definition sign_collected ::
  "'s curve \<Rightarrow> nat \<Rightarrow> 's share list \<Rightarrow> bytes \<Rightarrow> 's rng \<Rightarrow> (bytes, ThresholdError) result" where
  "sign_collected C t collected msg g =
     (if length collected < t then Err (QuorumNotMet t (length collected))
      else case reconstruct C (take t collected) of
             None \<Rightarrow> Err ReconstructFailed
           | Some secret \<Rightarrow> lift_panic (fst (curve_sign C secret msg g)))"

definition store_share :: "nat \<Rightarrow> string \<Rightarrow> 's \<Rightarrow> 's Cluster \<Rightarrow> 's Cluster" where
  "store_share i key v cl = cl\<lparr>cl_nodes := (cl_nodes cl)[i := put_share key v (cl_nodes cl ! i)]\<rparr>"

text \<open>
  One step of a task on the shared cluster; \<open>g\<close> is what the random number generator yields for
  the step. The online flags a ceremony counts are read in one step, and so are the flag and the
  delay of a node in a round. The acknowledgements of a ceremony's round, in time or not, are
  collected into a vector the source drops; the round is the time that passes.
\<close>

fun call_step ::
  "'s curve \<Rightarrow> timer \<Rightarrow> 's rng \<Rightarrow> 's Cluster \<Rightarrow> 's cluster_task \<Rightarrow> 's Cluster \<times> 's cluster_task" where
  "call_step C tm g cl (Sign_Start key msg) =
     (cl, if cl_keys cl key = None then Sign_Done key msg (Err (UnknownKey key))
          else Sign_Poll key msg 0 [])"
| "call_step C tm g cl (Sign_Poll key msg i shares) =
     (cl, if i < length (cl_nodes cl)
          then if nd_online (cl_nodes cl ! i)
               then Sign_Wait key msg i (nd_delay_ms (cl_nodes cl ! i)) shares
               else Sign_Poll key msg (Suc i) shares
          else Sign_Done key msg (sign_collected C (cl_t cl) shares msg g))"
| "call_step C tm g cl (Sign_Wait key msg i delay shares) =
     (cl, Sign_Poll key msg (Suc i)
            (if tm (cl_round_timeout cl) (unat delay)
             then shares @ node_shares key [cl_nodes cl ! i] else shares))"
| "call_step C tm g cl (Refresh_Start key) =
     (cl, if online_count cl \<noteq> cl_n cl then Refresh_Done key (Err (QuorumNotMet (cl_n cl) (online_count cl)))
          else Refresh_Lookup key)"
| "call_step C tm g cl (Refresh_Lookup key) =
     (cl, if cl_keys cl key = None then Refresh_Done key (Err (UnknownKey key)) else Refresh_Round key 0)"
| "call_step C tm g cl (Refresh_Round key i) =
     (cl, if i < length (cl_nodes cl)
          then if nd_online (cl_nodes cl ! i) then Refresh_Ack key i (nd_delay_ms (cl_nodes cl ! i))
               else Refresh_Round key (Suc i)
          else Refresh_Deal key)"
| "call_step C tm g cl (Refresh_Ack key i delay) = (cl, Refresh_Round key (Suc i))"
| "call_step C tm g cl (Refresh_Deal key) =
     (cl, case fst (refresh_deal C (cl_t cl) (cl_n cl) (cl_n cl)
                      (replicate (cl_n cl) (scalar_zero C)) g) of
            Ok delta \<Rightarrow> Refresh_Read key 0 delta
          | _ \<Rightarrow> Refresh_Done key Panic)"
| "call_step C tm g cl (Refresh_Read key i delta) =
     (cl, if i < length (cl_nodes cl) \<and> i < length delta
          then case nd_shares (cl_nodes cl ! i) key of
                 None \<Rightarrow> Refresh_Done key Panic
               | Some s \<Rightarrow> Refresh_Write key i (scalar_add C s (delta ! i)) delta
          else Refresh_Bump key)"
| "call_step C tm g cl (Refresh_Write key i v delta) =
     (store_share i key v cl, Refresh_Read key (Suc i) delta)"
| "call_step C tm g cl (Refresh_Bump key) =
     (case cl_keys cl key of
        None \<Rightarrow> (cl, Refresh_Done key Panic)
      | Some info \<Rightarrow>
          (cl\<lparr>cl_keys := (cl_keys cl)(key \<mapsto> info\<lparr>ki_epoch := ki_epoch info + 1\<rparr>)\<rparr>,
           Refresh_Done key (Ok (ki_public_key info, ki_epoch info + 1))))"
| "call_step C tm g cl (Keygen_Start key) =
     (cl, if online_count cl \<noteq> cl_n cl then Keygen_Done key (Err (QuorumNotMet (cl_n cl) (online_count cl)))
          else Keygen_Round key 0)"
| "call_step C tm g cl (Keygen_Round key i) =
     (cl, if i < length (cl_nodes cl)
          then if nd_online (cl_nodes cl ! i) then Keygen_Ack key i (nd_delay_ms (cl_nodes cl ! i))
               else Keygen_Round key (Suc i)
          else Keygen_Deal key)"
| "call_step C tm g cl (Keygen_Ack key i delay) = (cl, Keygen_Round key (Suc i))"
| "call_step C tm g cl (Keygen_Deal key) =
     (cl, case fst (keygen_deal C (cl_t cl) (cl_n cl) (cl_n cl)
                      (replicate (cl_n cl) (scalar_zero C)) [] g) of
            Ok (agg, coms) \<Rightarrow> Keygen_Put key 0 agg coms
          | _ \<Rightarrow> Keygen_Done key Panic)"
| "call_step C tm g cl (Keygen_Put key i agg coms) =
     (if i < length (cl_nodes cl) \<and> i < length agg
      then (store_share i key (agg ! i) cl, Keygen_Put key (Suc i) agg coms)
      else (cl, Keygen_Publish key coms))"
| "call_step C tm g cl (Keygen_Publish key coms) =
     (case aggregate_public C coms of
        None \<Rightarrow> (cl, Keygen_Done key (Err ReconstructFailed))
      | Some pk \<Rightarrow>
          (cl\<lparr>cl_keys := (cl_keys cl)(key \<mapsto> \<lparr>ki_public_key = pk, ki_epoch = 1\<rparr>)\<rparr>,
           Keygen_Done key (Ok pk)))"
| "call_step C tm g cl task = (cl, task)"

section \<open>The running cluster\<close>

text \<open>
  The cluster and the tasks on it, by their number. A new task is admitted by \<open>admit\<close>; between
  steps a node may go down, come back or become slow.
\<close>

type_synonym 's tasks = "nat \<rightharpoonup> 's cluster_task"
type_synonym 's admission = "'s Cluster \<Rightarrow> 's tasks \<Rightarrow> 's cluster_task \<Rightarrow> bool"

inductive conc_step ::
  "'s curve \<Rightarrow> timer \<Rightarrow> 's admission \<Rightarrow> 's Cluster \<times> 's tasks \<Rightarrow> 's Cluster \<times> 's tasks \<Rightarrow> bool"
  for C tm admit where
  cs_spawn: "\<lbrakk>ts p = None; admit cl ts task\<rbrakk> \<Longrightarrow> conc_step C tm admit (cl, ts) (cl, ts(p \<mapsto> task))"
| cs_run: "\<lbrakk>ts p = Some task; call_step C tm g cl task = (cl', task')\<rbrakk>
    \<Longrightarrow> conc_step C tm admit (cl, ts) (cl', ts(p \<mapsto> task'))"
| cs_online: "conc_step C tm admit (cl, ts) (set_online i b cl, ts)"
| cs_delay: "conc_step C tm admit (cl, ts) (set_delay i ms cl, ts)"

abbreviation conc_run ::
  "'s curve \<Rightarrow> timer \<Rightarrow> 's admission \<Rightarrow> 's Cluster \<times> 's tasks \<Rightarrow> 's Cluster \<times> 's tasks \<Rightarrow> bool" where
  "conc_run C tm admit \<equiv> (conc_step C tm admit)\<^sup>*\<^sup>*"

text \<open>
  A call starts at the beginning of its operation; a key is generated under a new identifier (the
  engine draws a UUID). The code admits every such call.
\<close>

definition new_call :: "'s admission" where
  "new_call cl ts task = (case task of
       Sign_Start _ _ \<Rightarrow> True
     | Refresh_Start _ \<Rightarrow> True
     | Keygen_Start key \<Rightarrow> cl_keys cl key = None \<and>
         (\<forall>q other. ts q = Some other \<longrightarrow> task_key other = key \<longrightarrow> task_ended other)
     | _ \<Rightarrow> False)"

text \<open>
  The discipline that makes the operations safe: one readers-writer lock per key, held from the
  call to its end.
\<close>

definition key_locked :: "'s admission" where
  "key_locked cl ts task \<longleftrightarrow> new_call cl ts task \<and>
     (\<forall>q other. ts q = Some other \<longrightarrow> task_key other = task_key task \<longrightarrow>
        task_ended other \<or> (\<not> task_writes other \<and> \<not> task_writes task))"

section \<open>Lemmas: a task alone\<close>

definition task_once ::
  "'s curve \<Rightarrow> timer \<Rightarrow> 's rng \<Rightarrow> 's Cluster \<times> 's cluster_task \<Rightarrow> 's Cluster \<times> 's cluster_task" where
  "task_once C tm g = (\<lambda>(cl, task). call_step C tm g cl task)"

definition runs_to ::
  "'s curve \<Rightarrow> timer \<Rightarrow> 's rng \<Rightarrow> 's Cluster \<times> 's cluster_task \<Rightarrow> 's Cluster \<times> 's cluster_task \<Rightarrow> bool" where
  "runs_to C tm g \<sigma> \<sigma>' \<longleftrightarrow> (\<exists>k. (task_once C tm g ^^ k) \<sigma> = \<sigma>')"

lemma runs_to_refl [simp, intro]: "runs_to C tm g \<sigma> \<sigma>"
  unfolding runs_to_def by (rule exI[of _ 0]) simp

lemma runs_to_trans: "\<lbrakk>runs_to C tm g \<sigma>1 \<sigma>2; runs_to C tm g \<sigma>2 \<sigma>3\<rbrakk> \<Longrightarrow> runs_to C tm g \<sigma>1 \<sigma>3"
  unfolding runs_to_def by (metis funpow_add comp_apply)

lemma runs_to_step: "runs_to C tm g (call_step C tm g cl task) \<sigma> \<Longrightarrow> runs_to C tm g (cl, task) \<sigma>"
proof -
  have "runs_to C tm g (cl, task) (call_step C tm g cl task)"
    unfolding runs_to_def by (rule exI[of _ 1]) (simp add: task_once_def)
  thus "runs_to C tm g (call_step C tm g cl task) \<sigma> \<Longrightarrow> runs_to C tm g (cl, task) \<sigma>"
    by (rule runs_to_trans)
qed

text \<open>What a task does alone it also does in a running cluster, while the others wait.\<close>

lemma runs_to_conc:
  assumes "runs_to C tm g (cl, task) (cl', task')" and "ts p = Some task"
  shows "conc_run C tm admit (cl, ts) (cl', ts(p \<mapsto> task'))"
proof -
  from assms(1) obtain k where "(task_once C tm g ^^ k) (cl, task) = (cl', task')"
    by (auto simp: runs_to_def)
  thus ?thesis
  proof (induction k arbitrary: cl' task')
    case 0
    thus ?case using assms(2) by (simp add: fun_upd_idem)
  next
    case (Suc k)
    obtain cl1 task1 where 1: "(task_once C tm g ^^ k) (cl, task) = (cl1, task1)" by fastforce
    with Suc.prems have "call_step C tm g cl1 task1 = (cl', task')" by (simp add: task_once_def)
    hence "conc_step C tm admit (cl1, ts(p \<mapsto> task1)) (cl', (ts(p \<mapsto> task1))(p \<mapsto> task'))"
      by (intro cs_run[of _ p]) simp_all
    from rtranclp.rtrancl_into_rtrancl[OF Suc.IH[OF 1] this] show ?case by (simp only: fun_upd_upd)
  qed
qed

definition answers :: "timer \<Rightarrow> 's Cluster \<Rightarrow> 's Node \<Rightarrow> bool" where
  "answers tm cl nd \<longleftrightarrow> nd_online nd \<and> tm (cl_round_timeout cl) (unat (nd_delay_ms nd))"

lemma round_responders_answers: "round_responders tm cl = filter (answers tm cl) (cl_nodes cl)"
  by (simp add: round_responders_def answers_def[abs_def])

lemma node_shares_append: "node_shares key (xs @ ys) = node_shares key xs @ node_shares key ys"
  by (simp add: node_shares_def List.map_filter_def)

lemma node_shares_Nil [simp]: "node_shares key [] = []"
  by (simp add: node_shares_def List.map_filter_def)

lemma sign_poll_one:
  assumes "i < length (cl_nodes cl)"
  shows "runs_to C tm g (cl, Sign_Poll key msg i shares)
    (cl, Sign_Poll key msg (Suc i) (shares @ node_shares key (filter (answers tm cl) [cl_nodes cl ! i])))"
  using assms
  by (cases "nd_online (cl_nodes cl ! i)") (auto intro!: runs_to_step simp: answers_def)

lemma sign_poll_upto:
  assumes "i \<le> j" and "j \<le> length (cl_nodes cl)"
  shows "runs_to C tm g (cl, Sign_Poll key msg i shares)
    (cl, Sign_Poll key msg j (shares @ node_shares key (filter (answers tm cl) (drop i (take j (cl_nodes cl))))))"
  using assms
proof (induction j rule: dec_induct)
  case (step j)
  have "drop i (take (Suc j) (cl_nodes cl)) = drop i (take j (cl_nodes cl)) @ [cl_nodes cl ! j]"
    using step by (simp add: take_Suc_conv_app_nth)
  moreover have "j < length (cl_nodes cl)" using step.prems by simp
  ultimately show ?case
    using runs_to_trans[OF step.IH sign_poll_one] step.prems
    by (simp only: filter_append node_shares_append append_assoc Suc_leD)
qed simp

lemma sign_poll_end:
  assumes "i \<le> length (cl_nodes cl)"
  shows "runs_to C tm g (cl, Sign_Poll key msg i shares)
    (cl, Sign_Done key msg (sign_collected C (cl_t cl)
       (shares @ node_shares key (filter (answers tm cl) (drop i (cl_nodes cl)))) msg g))"
  by (rule runs_to_trans[OF sign_poll_upto[OF assms order_refl]]) (rule runs_to_step, simp)

lemma cluster_sign_collected:
  assumes "cl_keys cl key \<noteq> None"
  shows "fst (cluster_sign C tm key msg cl g) =
    sign_collected C (cl_t cl) (node_shares key (round_responders tm cl)) msg g"
  unfolding cluster_sign_def cluster_round_def if_not_P[OF assms]
  by (simp add: collected_eq sign_collected_def Let_def split: option.split prod.split)

lemma sign_alone:
  "runs_to C tm g (cl, Sign_Start key msg) (cl, Sign_Done key msg (fst (cluster_sign C tm key msg cl g)))"
proof (cases "cl_keys cl key = None")
  case True
  show ?thesis by (rule runs_to_step) (simp add: True cluster_sign_def)
next
  case False
  hence "call_step C tm g cl (Sign_Start key msg) = (cl, Sign_Poll key msg 0 [])"
    by (simp only: call_step.simps if_False)
  with sign_poll_end[of 0 cl C tm g key msg "[]"] show ?thesis
    by (intro runs_to_step) (simp add: cluster_sign_collected[OF False] round_responders_answers)
qed

lemma store_share_append:
  "length pre = i \<Longrightarrow> store_share i key v (cl\<lparr>cl_nodes := pre @ nd # ns\<rparr>) =
   cl\<lparr>cl_nodes := (pre @ [put_share key v nd]) @ ns\<rparr>"
  by (auto simp: store_share_def)

lemma refresh_loop:
  assumes "length pre = length dpre" and "refresh_nodes C key ns ds = (ok, ns')"
  shows "runs_to C tm g (cl\<lparr>cl_nodes := pre @ ns\<rparr>, Refresh_Read key (length pre) (dpre @ ds))
    (cl\<lparr>cl_nodes := pre @ ns'\<rparr>, if ok then Refresh_Bump key else Refresh_Done key Panic)"
  using assms
proof (induction C key ns ds arbitrary: pre dpre ok ns' rule: refresh_nodes.induct)
  case (1 C key nd ns d ds)
  show ?case
  proof (cases "nd_shares nd key")
    case None
    with 1(2,3) show ?thesis by (intro runs_to_step) (auto simp: nth_append)
  next
    case (Some s)
    let ?nd = "put_share key (scalar_add C s d) nd"
    obtain ns2 where ns2: "refresh_nodes C key ns ds = (ok, ns2)" "ns' = ?nd # ns2"
      using 1(3) Some by (auto simp: Let_def split: prod.splits)
    have "runs_to C tm g (cl\<lparr>cl_nodes := (pre @ [?nd]) @ ns\<rparr>, Refresh_Read key (length (pre @ [?nd])) ((dpre @ [d]) @ ds))
      (cl\<lparr>cl_nodes := (pre @ [?nd]) @ ns2\<rparr>, if ok then Refresh_Bump key else Refresh_Done key Panic)"
      by (rule 1(1)[OF Some]) (use 1(2) ns2(1) in simp_all)
    hence "runs_to C tm g (cl\<lparr>cl_nodes := pre @ nd # ns\<rparr>,
        Refresh_Write key (length pre) (scalar_add C s d) (dpre @ d # ds))
      (cl\<lparr>cl_nodes := pre @ ns'\<rparr>, if ok then Refresh_Bump key else Refresh_Done key Panic)"
      using ns2(2) by (intro runs_to_step) (simp add: store_share_append)
    thus ?thesis using 1(2) Some by (intro runs_to_step) (simp add: nth_append)
  qed
qed (auto intro!: runs_to_step)

lemma keygen_loop:
  assumes "length pre = length apre"
  shows "runs_to C tm g (cl\<lparr>cl_nodes := pre @ ns\<rparr>, Keygen_Put key (length pre) (apre @ as) coms)
    (cl\<lparr>cl_nodes := pre @ put_shares key ns as\<rparr>, Keygen_Publish key coms)"
  using assms
proof (induction key ns as arbitrary: pre apre rule: put_shares.induct)
  case (1 key nd ns a as)
  from 1(1)[of "pre @ [put_share key a nd]" "apre @ [a]"] 1(2) show ?case
    by (intro runs_to_step) (simp add: store_share_append)
qed (auto intro!: runs_to_step)

text \<open>The round of acknowledgements, on whatever nodes are up.\<close>

lemma refresh_round:
  "runs_to C tm g (call_step C tm g cl (Refresh_Deal key)) \<sigma> \<Longrightarrow>
   runs_to C tm g (cl, Refresh_Round key i) \<sigma>"
proof (induction "length (cl_nodes cl) - i" arbitrary: i)
  case 0
  thus ?case by (intro runs_to_step) (auto intro: runs_to_step)
next
  case (Suc m)
  have "runs_to C tm g (cl, Refresh_Round key (Suc i)) \<sigma>" using Suc by simp
  thus ?case using Suc(2) by (intro runs_to_step) (auto intro: runs_to_step)
qed

lemma keygen_round:
  "runs_to C tm g (call_step C tm g cl (Keygen_Deal key)) \<sigma> \<Longrightarrow>
   runs_to C tm g (cl, Keygen_Round key i) \<sigma>"
proof (induction "length (cl_nodes cl) - i" arbitrary: i)
  case 0
  thus ?case by (intro runs_to_step) (auto intro: runs_to_step)
next
  case (Suc m)
  have "runs_to C tm g (cl, Keygen_Round key (Suc i)) \<sigma>" using Suc by simp
  thus ?case using Suc(2) by (intro runs_to_step) (auto intro: runs_to_step)
qed

lemma refresh_begins:
  assumes "online_count cl = cl_n cl" and "cl_keys cl key \<noteq> None"
    and "runs_to C tm g (call_step C tm g cl (Refresh_Deal key)) \<sigma>"
  shows "runs_to C tm g (cl, Refresh_Start key) \<sigma>"
  using assms by (intro runs_to_step) (auto intro!: runs_to_step[of _ _ _ _ "Refresh_Lookup key"] refresh_round)

lemma refresh_alone:
  assumes "refresh C tm key cl g = (r, cl', g')"
  shows "runs_to C tm g (cl, Refresh_Start key) (cl', Refresh_Done key r)"
proof (cases "online_count cl = cl_n cl \<and> cl_keys cl key \<noteq> None")
  case False
  with assms show ?thesis
    by (intro runs_to_step) (auto simp: refresh_def Let_def intro!: runs_to_step split: if_splits)
next
  case True
  let ?deal = "refresh_deal C (cl_t cl) (cl_n cl) (cl_n cl) (replicate (cl_n cl) (scalar_zero C)) g"
  have start: "runs_to C tm g (call_step C tm g cl (Refresh_Deal key)) \<sigma> \<Longrightarrow>
      runs_to C tm g (cl, Refresh_Start key) \<sigma>" for \<sigma>
    using True by (intro refresh_begins) simp_all
  show ?thesis
  proof (cases "fst ?deal")
    case (Ok delta)
    obtain ok ns where ns: "refresh_nodes C key (cl_nodes cl) delta = (ok, ns)" by fastforce
    have "runs_to C tm g (cl, Refresh_Read key 0 delta)
        (cl\<lparr>cl_nodes := ns\<rparr>, if ok then Refresh_Bump key else Refresh_Done key Panic)"
      using refresh_loop[of "[]" "[]" C key "cl_nodes cl" delta ok ns tm g cl] ns by simp
    moreover have "runs_to C tm g
        (cl\<lparr>cl_nodes := ns\<rparr>, if ok then Refresh_Bump key else Refresh_Done key Panic)
        (cl', Refresh_Done key r)"
      using assms True Ok ns
      by (cases ?deal) (auto simp: refresh_def cluster_round_def Let_def split: if_splits intro!: runs_to_step)
    ultimately show ?thesis using Ok by (intro start) (auto intro: runs_to_trans)
  qed (use assms True in \<open>intro start; cases ?deal; auto simp: refresh_def cluster_round_def Let_def\<close>)+
qed

lemma keygen_alone:
  assumes "keygen C tm key cl g = (r, cl', g')"
  shows "runs_to C tm g (cl, Keygen_Start key) (cl', Keygen_Done key r)"
proof (cases "online_count cl = cl_n cl")
  case False
  with assms show ?thesis by (intro runs_to_step) (auto simp: keygen_def Let_def)
next
  case True
  let ?deal = "keygen_deal C (cl_t cl) (cl_n cl) (cl_n cl) (replicate (cl_n cl) (scalar_zero C)) [] g"
  have start: "runs_to C tm g (call_step C tm g cl (Keygen_Deal key)) \<sigma> \<Longrightarrow>
      runs_to C tm g (cl, Keygen_Start key) \<sigma>" for \<sigma>
    using True by (intro runs_to_step) (auto intro!: keygen_round)
  show ?thesis
  proof (cases "fst ?deal")
    case (Ok ac)
    obtain agg coms where ac: "ac = (agg, coms)" by fastforce
    have "runs_to C tm g (cl, Keygen_Put key 0 agg coms)
        (cl\<lparr>cl_nodes := put_shares key (cl_nodes cl) agg\<rparr>, Keygen_Publish key coms)"
      using keygen_loop[where pre = "[]" and apre = "[]" and ns = "cl_nodes cl" and cl = cl] by simp
    moreover have "runs_to C tm g
        (cl\<lparr>cl_nodes := put_shares key (cl_nodes cl) agg\<rparr>, Keygen_Publish key coms)
        (cl', Keygen_Done key r)"
      using assms True Ok ac
      by (cases ?deal) (auto simp: keygen_def cluster_round_def Let_def split: option.splits intro!: runs_to_step)
    ultimately show ?thesis using Ok ac by (intro start) (auto intro: runs_to_trans)
  qed (use assms True in \<open>intro start; cases ?deal; auto simp: keygen_def cluster_round_def Let_def\<close>)+
qed

section \<open>Lemmas: steps to the end\<close>








section \<open>Properties\<close>

text \<open>
  The steps of a call are the operation: a \<open>sign\<close>, \<open>refresh\<close> or \<open>keygen\<close> that no other call
  interrupts comes to its end, with exactly the result and the state of the cluster that the
  operation as a whole has, on every cluster, for every timing and every random stream, errors
  and panics included.
\<close>
theorem calls_alone_atomic:
  "runs_to C tm g (cl, Sign_Start key msg) (cl, Sign_Done key msg (fst (cluster_sign C tm key msg cl g))) \<and>
   runs_to C tm g (cl, Refresh_Start key)
     (fst (snd (refresh C tm key cl g)), Refresh_Done key (fst (refresh C tm key cl g))) \<and>
   runs_to C tm g (cl, Keygen_Start key)
     (fst (snd (keygen C tm key cl g)), Keygen_Done key (fst (keygen C tm key cl g)))"
  by (intro conjI sign_alone refresh_alone[where g' = "snd (snd (refresh C tm key cl g))"]
      keygen_alone[where g' = "snd (snd (keygen C tm key cl g))"]) simp_all



end
