(* ===== verification/Cluster_Races.thy ===== *)
theory Cluster_Races
  imports Cluster_Tasks
begin

text \<open>
  What two interleaved calls on one key of the cluster can do (\<open>src/engine/threshold/cluster.rs\<close>,
  \<open>sign\<close> and \<open>refresh\<close>). A signer that a refresh overtakes combines shares of two sharings and
  signs with a secret that is not the key's; of two overlapping refreshes one loses an update, and
  the nodes no longer hold a sharing of the key.
\<close>

section \<open>Lemmas: shares of two sharings\<close>

lemma wf_node_shares:
  assumes "cluster_wf cl" and "sharing cl key cs"
  shows "node_shares key (cl_nodes cl) = map (\<lambda>i. (of_nat i, peval cs (ix (of_nat i)))) [1..<Suc (cl_n cl)]"
proof -
  have "map nd_index (cl_nodes cl) = map of_nat [1..<Suc (cl_n cl)]" using assms(1) by (simp add: cluster_wf_def)
  from arg_cong[OF this, of "map (\<lambda>i. (i, peval cs (ix i)))"] show ?thesis
    unfolding node_shares_sharing[OF assms(2) subset_refl] by (simp only: map_map comp_def)
qed

lemma node_shares_sublists:
  assumes "sharing cl key cs"
  shows "node_shares key (take j (cl_nodes cl)) = take j (node_shares key (cl_nodes cl))"
    and "node_shares key (drop j (cl_nodes cl)) = drop j (node_shares key (cl_nodes cl))"
  by (simp_all add: node_shares_sharing[OF assms] set_take_subset set_drop_subset take_map drop_map)

context curve_family
begin

text \<open>
  A quorum that holds one share off the polynomial of the others reconstructs a different secret.
\<close>

lemma one_stale_share:
  assumes x: "lawful x" and ids: "indices_distinct TYPE('s) n" and t: "t \<le> n" and len: "length cs = t"
    and j: "j \<in> {1..t}" and off: "f j \<noteq> peval cs (ix (of_nat j))"
    and on: "\<And>i. \<lbrakk>i \<in> {1..t}; i \<noteq> j\<rbrakk> \<Longrightarrow> f i = peval cs (ix (of_nat i))"
  shows "\<exists>s. reconstruct (C x) (map (\<lambda>i. (of_nat i, f i)) [1..<Suc t]) = Some s \<and> s \<noteq> hd cs"
proof -
  let ?sh = "map (\<lambda>i. (of_nat i :: u64, f i)) [1..<Suc t]"
  have n: "n < 2 ^ 64" and inj: "inj_on (of_nat :: nat \<Rightarrow> 's) {0..n}"
    using ids by (auto simp: indices_distinct_def)
  have ix: "ix (of_nat i) = (of_nat i :: 's)" if "i \<in> {0..t}" for i
    using that t n by (intro ix_of_nat) simp
  have injt: "inj_on (of_nat :: nat \<Rightarrow> 's) {0..t}" using inj t by (auto intro: inj_on_subset)
  have d: "distinct (map (\<lambda>i. of_nat i :: 's) [1..<Suc t])"
    using injt by (subst distinct_map) (auto intro: inj_on_subset simp del: upt_Suc)
  have pts: "distinct (map fst (map (\<lambda>i. (of_nat i :: 's, f i)) [1..<Suc t]))"
    using d by (simp add: comp_def del: upt_Suc)
  obtain ds where ds: "length ds = t" "\<And>i. i \<in> {1..t} \<Longrightarrow> peval ds (of_nat i) = f i"
    using interpolant_exists[OF pts] by (auto simp: atLeastLessThanSuc_atLeastAtMost simp del: upt_Suc)
  have "map (\<lambda>p. ix (fst p) :: 's) ?sh = map (\<lambda>i. of_nat i) [1..<Suc t]"
    by (simp add: ix del: upt_Suc)
  with d have "distinct (map (\<lambda>p. ix (fst p) :: 's) ?sh)" by (simp only:)
  moreover have "on_poly ds ?sh" using ds(2) ix by (auto simp: on_poly_def simp del: upt_Suc)
  ultimately have "reconstruct (C x) ?sh = Some (peval ds 0)"
    using ds(1) by (intro reconstruct_poly[OF x]) simp_all
  moreover have "peval ds 0 \<noteq> hd cs"
  proof
    assume z: "peval ds 0 = hd cs"
    have cs0: "peval cs 0 = hd cs" using len j by (cases cs) auto
    let ?S = "(of_nat :: nat \<Rightarrow> 's) ` ({0..t} - {j})"
    have "card ?S = t" using j injt by (subst card_image) (auto intro: inj_on_subset)
    moreover have "peval ds y = peval cs y" if y: "y \<in> ?S" for y
    proof -
      obtain i where "y = of_nat i" "i \<in> {0..t} - {j}" using y by (rule imageE)
      hence i: "y = of_nat i" "i \<le> t" "i \<noteq> j" by simp_all
      show ?thesis using z cs0 ds(2)[of i] on[of i] ix[of i] i by (cases "i = 0") auto
    qed
    ultimately have "ds = cs" using ds(1) len by (intro peval_unique[of _ _ ?S]) auto
    thus False using off ds(2)[OF j] ix[of j] j by simp
  qed
  ultimately show ?thesis by blast
qed

end

lemma refresh_nodes_keep:
  assumes "\<And>k nd v. h (put_share k v nd) = h nd" and "refresh_nodes C key ns ds = (ok, ns')"
  shows "map h ns' = map h ns"
  using assms(2)
proof (induction C key ns ds arbitrary: ns' ok rule: refresh_nodes.induct)
  case (1 C key nd ns d ds)
  thus ?case using assms(1) by (auto simp: Let_def split: option.splits prod.splits)
qed auto

lemma refresh_keep:
  assumes "refresh C tm key cl g = (r, cl', g')" and "\<And>k nd v. h (put_share k v nd) = h nd"
  shows "map h (cl_nodes cl') = map h (cl_nodes cl)" and "cl_t cl' = cl_t cl" and "cl_n cl' = cl_n cl"
    and "cl_round_timeout cl' = cl_round_timeout cl"
  using assms(1) refresh_nodes_keep[of h, OF assms(2)]
  by (auto simp: refresh_def cluster_round_def Let_def split: if_splits prod.splits result.splits option.splits)

section \<open>Lemmas: lost updates\<close>

lemma sharing_node:
  assumes "cluster_wf cl" and "sharing cl key cs" and "i \<in> {1..cl_n cl}"
  shows "nd_shares (cl_nodes cl ! (i - 1)) key = Some (peval cs (ix (of_nat i)))"
proof -
  have "map nd_index (cl_nodes cl) ! (i - 1) = map of_nat [1..<Suc (cl_n cl)] ! (i - 1)"
    using assms(1) by (simp add: cluster_wf_def)
  moreover have "[1..<Suc (cl_n cl)] ! (i - 1) = i" using assms(3) by (subst nth_upt) auto
  moreover have "i - 1 < cl_n cl" using assms(3) by auto
  ultimately have "nd_index (cl_nodes cl ! (i - 1)) = of_nat i"
    using wf_length[OF assms(1)] by (simp del: upt_Suc One_nat_def)
  moreover have "cl_nodes cl ! (i - 1) \<in> set (cl_nodes cl)"
    using assms(3) wf_length[OF assms(1)] by (intro nth_mem) auto
  ultimately show ?thesis using assms(2) by (simp add: sharing_def)
qed

lemma mixed_round:
  assumes wf: "cluster_wf cl" "cluster_wf cl'" and tn: "cl_t cl' = cl_t cl" "cl_n cl' = cl_n cl"
    and sh: "sharing cl key cs" "sharing cl' key cs'"
  shows "take (cl_t cl) (node_shares key (take (cl_t cl - 1) (cl_nodes cl)) @
      node_shares key (drop (cl_t cl - 1) (cl_nodes cl'))) =
    map (\<lambda>i. (of_nat i, peval (if i = cl_t cl then cs' else cs) (ix (of_nat i)))) [1..<Suc (cl_t cl)]"
    (is "take ?t (?old @ ?new) = ?mix")
    and "cl_t cl \<le> length (node_shares key (take (cl_t cl - 1) (cl_nodes cl)) @
      node_shares key (drop (cl_t cl - 1) (cl_nodes cl')))"
proof -
  have t: "1 \<le> ?t" "?t \<le> cl_n cl" using wf(1) by (auto simp: cluster_wf_def)
  have old: "?old = map (\<lambda>i. (of_nat i, peval cs (ix (of_nat i)))) [1..<?t]"
    using t by (simp add: node_shares_sublists[OF sh(1)] wf_node_shares[OF wf(1) sh(1)] take_map del: upt_Suc)
  have new: "?new = map (\<lambda>i. (of_nat i, peval cs' (ix (of_nat i)))) [?t..<Suc (cl_n cl)]"
    using t tn by (simp add: node_shares_sublists[OF sh(2)] wf_node_shares[OF wf(2) sh(2)] drop_map del: upt_Suc)
  have 1: "take ?t ?old = ?old" "?t - length ?old = 1" unfolding old using t by simp_all
  have "take 1 ?new = [(of_nat ?t, peval cs' (ix (of_nat ?t)))]"
    unfolding new using t by (simp add: upt_conv_Cons take_map del: upt_Suc)
  with 1 have "take ?t (?old @ ?new) = ?old @ [(of_nat ?t, peval cs' (ix (of_nat ?t)))]"
    by (simp only: take_append)
  also have "\<dots> = ?mix" unfolding old using t by simp
  finally show "take ?t (?old @ ?new) = ?mix" .
  show "?t \<le> length (?old @ ?new)" unfolding old new using t by simp
qed

text \<open>The run: the signer asks all but one node of its quorum, a refresh goes through, it goes on.\<close>

lemma stale_run:
  assumes key: "cl_keys cl key \<noteq> None" and rf: "refresh C tm key cl g = (r, cl', g')"
    and ans: "\<forall>nd \<in> set (cl_nodes cl). answers tm cl nd" "\<forall>nd \<in> set (cl_nodes cl'). answers tm cl' nd"
    and j: "j \<le> length (cl_nodes cl)" "j \<le> length (cl_nodes cl')"
  shows "conc_run C tm new_call (cl, Map.empty) (cl', [0 \<mapsto> Sign_Done key msg (sign_collected C (cl_t cl')
      (node_shares key (take j (cl_nodes cl)) @ node_shares key (drop j (cl_nodes cl'))) msg g2),
    1 \<mapsto> Refresh_Done key r])"
    (is "?run (cl, Map.empty) (cl', [0 \<mapsto> ?done, 1 \<mapsto> _])")
proof -
  let ?poll = "Sign_Poll key msg j (node_shares key (take j (cl_nodes cl)))"
  have f: "filter (answers tm cl) (take j (cl_nodes cl)) = take j (cl_nodes cl)"
      "filter (answers tm cl') (drop j (cl_nodes cl')) = drop j (cl_nodes cl')"
    using ans by (auto simp: filter_id_conv dest: in_set_takeD in_set_dropD)
  have "call_step C tm g cl (Sign_Start key msg) = (cl, Sign_Poll key msg 0 [])"
    using key by (simp only: call_step.simps if_False)
  with sign_poll_upto[of 0 j cl C tm g key msg "[]"] j(1) f(1)
  have 1: "runs_to C tm g (cl, Sign_Start key msg) (cl, ?poll)" by (intro runs_to_step) simp
  have 2: "runs_to C tm g2 (cl', ?poll) (cl', ?done)"
    using sign_poll_end[OF j(2), of C tm g2 key msg] f(2) by simp
  have "?run (cl, Map.empty) (cl, [0 \<mapsto> Sign_Start key msg])"
    by (intro r_into_rtranclp cs_spawn) (simp_all add: new_call_def)
  moreover have "?run (cl, [0 \<mapsto> Sign_Start key msg]) (cl, [0 \<mapsto> ?poll])"
    using runs_to_conc[OF 1, of "[0 \<mapsto> Sign_Start key msg]" 0 new_call] by simp
  moreover have "?run (cl, [0 \<mapsto> ?poll]) (cl, [0 \<mapsto> ?poll, 1 \<mapsto> Refresh_Start key])"
    by (intro r_into_rtranclp cs_spawn) (simp_all add: new_call_def)
  moreover have "?run (cl, [0 \<mapsto> ?poll, 1 \<mapsto> Refresh_Start key]) (cl', [0 \<mapsto> ?poll, 1 \<mapsto> Refresh_Done key r])"
    using runs_to_conc[OF refresh_alone[OF rf], of "[0 \<mapsto> ?poll, 1 \<mapsto> Refresh_Start key]" 1 new_call] by simp
  moreover have "?run (cl', [0 \<mapsto> ?poll, 1 \<mapsto> Refresh_Done key r]) (cl', [0 \<mapsto> ?done, 1 \<mapsto> Refresh_Done key r])"
    using runs_to_conc[OF 2, of "[0 \<mapsto> ?poll, 1 \<mapsto> Refresh_Done key r]" 0 new_call]
    by (simp add: fun_upd_twist[of 0 "Suc 0"])
  ultimately show ?thesis by (meson rtranclp_trans)
qed

context curve_family
begin

lemma stale_signature:
  assumes x: "lawful x" and inv: "cluster_inv (C x) cl" and key: "cl_keys cl key = Some info"
    and all: "round_responders tm cl = cl_nodes cl"
    and rf: "refresh (C x) tm key cl g = (Ok r, cl', g')"
    and new: "nd_shares (cl_nodes cl' ! (cl_t cl - 1)) key \<noteq> nd_shares (cl_nodes cl ! (cl_t cl - 1)) key"
    and sh: "sharing cl key cs"
  shows "\<exists>s. s \<noteq> hd cs \<and> conc_run (C x) tm new_call (cl, Map.empty) (cl', [0 \<mapsto>
    Sign_Done key msg (lift_panic (fst (curve_sign (C x) s msg g2))), 1 \<mapsto> Refresh_Done key (Ok r)])"
proof -
  let ?t = "cl_t cl"
  let ?mixed = "node_shares key (take (?t - 1) (cl_nodes cl)) @ node_shares key (drop (?t - 1) (cl_nodes cl'))"
  have wf: "cluster_wf cl" using inv by (simp add: cluster_inv_def)
  hence t: "1 \<le> ?t" "?t \<le> cl_n cl" and ids: "indices_distinct TYPE('s) (cl_n cl)"
    and n: "length (cl_nodes cl) = cl_n cl" by (auto simp: cluster_wf_def wf_length[OF wf])
  have inv': "cluster_inv (C x) cl'" by (rule refresh_inv[OF x inv rf])
  hence wf': "cluster_wf cl'" by (simp add: cluster_inv_def)
  obtain info' where "cl_keys cl' key = Some info'"
    using rf by (auto simp: refresh_def cluster_round_def Let_def split: if_splits prod.splits result.splits option.splits)
  then obtain cs' where sh': "sharing cl' key cs'" using inv' unfolding cluster_inv_def by blast
  have tn: "cl_t cl' = ?t" "cl_n cl' = cl_n cl" "cl_round_timeout cl' = cl_round_timeout cl"
    using refresh_keep[OF rf, of nd_index] by (simp_all add: put_share_def)
  have n': "length (cl_nodes cl') = cl_n cl" using wf_length[OF wf'] tn by simp
  have ans: "\<forall>nd \<in> set (cl_nodes cl). answers tm cl nd"
    using all by (simp add: round_responders_answers filter_id_conv)
  have "map (answers tm cl) (cl_nodes cl') = map (answers tm cl) (cl_nodes cl)"
    by (rule refresh_keep(1)[OF rf]) (simp add: answers_def put_share_def)
  hence "answers tm cl ` set (cl_nodes cl') = answers tm cl ` set (cl_nodes cl)" by (metis set_map)
  moreover have "answers tm cl' = answers tm cl" by (simp add: answers_def[abs_def] tn)
  ultimately have ans': "\<forall>nd \<in> set (cl_nodes cl'). answers tm cl' nd" using ans by (auto simp: image_iff)
  have off: "peval cs' (ix (of_nat ?t)) \<noteq> peval cs (ix (of_nat ?t))"
    using new sharing_node[OF wf sh, of ?t] sharing_node[OF wf' sh', of ?t] t tn by auto
  have len: "length cs = ?t" using sh by (simp add: sharing_def)
  obtain s where s: "reconstruct (C x) (take ?t ?mixed) = Some s" "s \<noteq> hd cs"
    unfolding mixed_round(1)[OF wf wf' tn(1,2) sh sh']
    using one_stale_share[OF x ids t(2) len, of ?t "\<lambda>i. peval (if i = ?t then cs' else cs) (ix (of_nat i))"]
      off t(1) by auto
  have "sign_collected (C x) (cl_t cl') ?mixed msg g2 = lift_panic (fst (curve_sign (C x) s msg g2))"
    using s(1) mixed_round(2)[OF wf wf' tn(1,2) sh sh'] tn(1) by (simp add: sign_collected_def)
  with stale_run[OF _ rf ans ans', of "?t - 1" msg g2] key t n n' s(2) show ?thesis
    by (intro exI[of _ s]) simp
qed

end

lemma evals_nth: "i \<in> {1..n} \<Longrightarrow> evals n cs ! (i - 1) = peval cs (ix (of_nat i))"
proof -
  assume i: "i \<in> {1..n}"
  hence "i - 1 < n" and "[1..<Suc n] ! (i - 1) = i" by (auto simp: nth_upt simp del: upt_Suc)
  thus ?thesis by (simp add: evals_def del: upt_Suc One_nat_def)
qed

lemma node_shares_held:
  assumes "map nd_index nds = map of_nat [1..<Suc n]" and "map (\<lambda>nd. nd_shares nd key) nds = map Some vs"
    and "t \<le> n"
  shows "node_shares key (take t nds) = map (\<lambda>i. (of_nat i, vs ! (i - 1))) [1..<Suc t]"
proof -
  have len: "length nds = n" "length vs = n"
    using arg_cong[OF assms(1), of length] arg_cong[OF assms(2), of length]
    by (simp_all del: upt_Suc)
  have nth: "nd_index (nds ! i) = of_nat (Suc i)" "nd_shares (nds ! i) key = Some (vs ! i)" if "i < n" for i
    using arg_cong[OF assms(1), of "\<lambda>xs. xs ! i"] arg_cong[OF assms(2), of "\<lambda>xs. xs ! i"] that len
    by (simp_all add: nth_upt del: upt_Suc)
  have "node_shares key ns = map (\<lambda>nd. (nd_index nd, the (nd_shares nd key))) ns"
    if "\<forall>nd \<in> set ns. nd_shares nd key \<noteq> None" for ns
    using that by (induction ns) (auto simp: node_shares_def List.map_filter_def)
  moreover have "\<forall>nd \<in> set (take t nds). nd_shares nd key \<noteq> None"
    using nth(2) len(1) assms(3) by (auto simp: in_set_conv_nth)
  ultimately have "node_shares key (take t nds) = map (\<lambda>nd. (nd_index nd, the (nd_shares nd key))) (take t nds)"
    by simp
  also have "\<dots> = map (\<lambda>i. (of_nat i, vs ! (i - 1))) [1..<Suc t]"
    using nth len assms(3) by (intro nth_equalityI) (simp_all add: nth_upt del: upt_Suc)
  finally show ?thesis .
qed

text \<open>
  The run: a refresh has read the first node's share, another refresh goes through, the first one
  goes on.
\<close>

lemma lost_update_run:
  assumes on: "online_count cl = cl_n cl" and key: "cl_keys cl key = Some info"
    and deal: "fst (refresh_deal C (cl_t cl) (cl_n cl) (cl_n cl) (replicate (cl_n cl) (scalar_zero C)) g1) = Ok (d # ds)"
    and first: "cl_nodes cl = nd # nds" "nd_shares nd key = Some s"
    and rf: "refresh C tm key cl g2 = (r, cl1, g')"
    and after: "cl_nodes cl1 = nd1 # nds1" "refresh_nodes C key nds1 ds = (True, nds2)"
    and key1: "cl_keys cl1 key = Some info1"
  shows "conc_run C tm new_call (cl, Map.empty)
    (cl1\<lparr>cl_nodes := put_share key (scalar_add C s d) nd1 # nds2,
         cl_keys := (cl_keys cl1)(key \<mapsto> info1\<lparr>ki_epoch := ki_epoch info1 + 1\<rparr>)\<rparr>,
     [0 \<mapsto> Refresh_Done key (Ok (ki_public_key info1, ki_epoch info1 + 1)), 1 \<mapsto> Refresh_Done key r])"
    (is "?run (cl, Map.empty) (?cl2, [0 \<mapsto> ?done, 1 \<mapsto> _])")
proof -
  let ?pending = "Refresh_Write key 0 (scalar_add C s d) (d # ds)"
  let ?nd = "put_share key (scalar_add C s d) nd1"
  have 1: "runs_to C tm g1 (cl, Refresh_Start key) (cl, ?pending)"
    by (rule refresh_begins[OF on]) (use key deal first in \<open>auto intro!: runs_to_step\<close>)
  have "runs_to C tm g1 (cl1, ?pending) (cl1\<lparr>cl_nodes := [?nd] @ nds1\<rparr>, Refresh_Read key (length [?nd]) ([d] @ ds))"
    using after(1) by (intro runs_to_step) (simp add: store_share_def)
  moreover have "runs_to C tm g1 (cl1\<lparr>cl_nodes := [?nd] @ nds1\<rparr>, Refresh_Read key (length [?nd]) ([d] @ ds))
      (cl1\<lparr>cl_nodes := [?nd] @ nds2\<rparr>, Refresh_Bump key)"
    using refresh_loop[of "[?nd]" "[d]", OF _ after(2)] by simp
  moreover have "runs_to C tm g1 (cl1\<lparr>cl_nodes := [?nd] @ nds2\<rparr>, Refresh_Bump key) (?cl2, ?done)"
    using key1 by (intro runs_to_step) simp
  ultimately have 2: "runs_to C tm g1 (cl1, ?pending) (?cl2, ?done)" by (meson runs_to_trans)
  have "?run (cl, Map.empty) (cl, [0 \<mapsto> Refresh_Start key])"
    by (intro r_into_rtranclp cs_spawn) (simp_all add: new_call_def)
  moreover have "?run (cl, [0 \<mapsto> Refresh_Start key]) (cl, [0 \<mapsto> ?pending])"
    using runs_to_conc[OF 1, of "[0 \<mapsto> Refresh_Start key]" 0 new_call] by simp
  moreover have "?run (cl, [0 \<mapsto> ?pending]) (cl, [0 \<mapsto> ?pending, 1 \<mapsto> Refresh_Start key])"
    by (intro r_into_rtranclp cs_spawn) (simp_all add: new_call_def)
  moreover have "?run (cl, [0 \<mapsto> ?pending, 1 \<mapsto> Refresh_Start key]) (cl1, [0 \<mapsto> ?pending, 1 \<mapsto> Refresh_Done key r])"
    using runs_to_conc[OF refresh_alone[OF rf], of "[0 \<mapsto> ?pending, 1 \<mapsto> Refresh_Start key]" 1 new_call] by simp
  moreover have "?run (cl1, [0 \<mapsto> ?pending, 1 \<mapsto> Refresh_Done key r]) (?cl2, [0 \<mapsto> ?done, 1 \<mapsto> Refresh_Done key r])"
    using runs_to_conc[OF 2, of "[0 \<mapsto> ?pending, 1 \<mapsto> Refresh_Done key r]" 0 new_call]
    by (simp add: fun_upd_twist[of 0 "Suc 0"])
  ultimately show ?thesis by (meson rtranclp_trans)
qed

lemma evals_Cons:
  assumes "1 \<le> n"
  obtains d ds where "evals n cs = d # ds" and "Suc (length ds) = n"
  using length_evals[of n cs] assms by (cases "evals n cs") auto

context curve_family
begin

text \<open>
  All nodes hold the sum of two sharings but the first, which was overwritten by the sum of the
  second one and an older first one.
\<close>

lemma lost_share:
  assumes x: "lawful x" and ids: "indices_distinct TYPE('s) n" and t: "1 \<le> t" "t \<le> n"
    and len: "length p = t" "length zs = t" and hd: "hd zs = 0"
    and old: "s \<noteq> peval p (ix (of_nat 1))"
    and idx: "map nd_index nds = map of_nat [1..<Suc n]"
    and held: "map (\<lambda>nd. nd_shares nd key) nds =
      map Some (scalar_add (C x) s (hd (evals n zs)) # tl (evals n (padd p zs)))"
  shows "\<exists>w. reconstruct (C x) (node_shares key (take t nds)) = Some w \<and> w \<noteq> hd p"
proof -
  let ?vs = "scalar_add (C x) s (hd (evals n zs)) # tl (evals n (padd p zs))"
  have n: "1 \<le> n" using t by simp
  have d: "hd (evals n zs) = peval zs (ix (of_nat 1))"
    by (rule evals_Cons[OF n, of zs]) (use evals_nth[of 1 n zs] n in simp)
  have e: "evals n (padd p zs) ! k = (hd (evals n (padd p zs)) # tl (evals n (padd p zs))) ! k" for k
    by (rule evals_Cons[OF n, of "padd p zs"]) simp
  have hdp: "hd (padd p zs) = hd p" using hd len t by (cases p; cases zs) (auto simp: padd_def)
  show ?thesis unfolding node_shares_held[OF idx held t(2)] hdp[symmetric]
  proof (rule one_stale_share[OF x ids t(2)])
    show "length (padd p zs) = t" using len by simp
    show "1 \<in> {1..t}" using t by simp
    show "?vs ! (1 - 1) \<noteq> peval (padd p zs) (ix (of_nat 1))"
      using old len by (simp add: peval_padd d add[OF x])
    show "?vs ! (i - 1) = peval (padd p zs) (ix (of_nat i))" if "i \<in> {1..t}" "i \<noteq> 1" for i
    proof -
      have "i - 1 = Suc (i - 2)" using that by auto
      thus ?thesis using evals_nth[of i n "padd p zs"] e[of "i - 1"] that t by simp
    qed
  qed
qed

lemma lost_nodes:
  assumes x: "lawful x" and ids: "indices_distinct TYPE('s) n" and t: "1 \<le> t" "t \<le> n"
    and len: "length p = t" "length zs = t" and hd: "hd zs = 0"
    and p: "evals n p = v # vs" and zs: "evals n zs = d # ds"
    and idx: "map nd_index (nd # nds) = map of_nat [1..<Suc n]"
    and held: "nd_shares nd key = Some v" "map (\<lambda>nd. nd_shares nd key) nds = map Some vs" and old: "s \<noteq> v"
  shows "\<exists>w. reconstruct (C x) (node_shares key (take t
    (put_share key (scalar_add (C x) s d) nd # put_shares key nds (map2 (scalar_add (C x)) vs ds)))) = Some w \<and> w \<noteq> hd p"
proof (rule lost_share[OF x ids t len hd])
  let ?ws = "map2 (scalar_add (C x)) vs ds"
  let ?nodes = "put_share key (scalar_add (C x) s d) nd # put_shares key nds ?ws"
  have lens: "length nds = length vs" "length vs = length ds"
    using arg_cong[OF held(2), of length] arg_cong[OF p, of length] arg_cong[OF zs, of length] by simp_all
  have "evals n (padd p zs) = scalar_add (C x) v d # ?ws"
    using evals_add[OF x, of p zs n] len p zs by simp
  thus "map (\<lambda>nd. nd_shares nd key) ?nodes =
      map Some (scalar_add (C x) s (List.hd (evals n zs)) # tl (evals n (padd p zs)))"
    using lens zs by (simp add: put_shares_set) (simp add: put_share_def)
  show "map nd_index ?nodes = map of_nat [1..<Suc n]"
    using idx by (simp add: put_shares_index put_share_def del: upt_Suc)
  show "s \<noteq> peval p (ix (of_nat 1))" using old evals_nth[of 1 n p] p t by simp
qed

lemma lost_refresh:
  assumes x: "lawful x" and inv: "cluster_inv (C x) cl" and key: "cl_keys cl key = Some info"
    and on: "online_count cl = cl_n cl" and sh: "sharing cl key cs"
    and pk: "ki_public_key info = public_from_scalar (C x) (hd cs)"
    and rf: "refresh (C x) tm key cl g2 = (Ok r, cl1, g')"
    and new: "nd_shares (cl_nodes cl1 ! 0) key \<noteq> nd_shares (cl_nodes cl ! 0) key"
  shows "\<exists>cl2 w. conc_run (C x) tm new_call (cl, Map.empty) (cl2,
      [0 \<mapsto> Refresh_Done key (Ok (ki_public_key info, ki_epoch info + 2)), 1 \<mapsto> Refresh_Done key (Ok r)]) \<and>
    cl_keys cl2 key = Some (info\<lparr>ki_epoch := ki_epoch info + 2\<rparr>) \<and>
    reconstruct (C x) (node_shares key (take (cl_t cl) (cl_nodes cl2))) = Some w \<and> w \<noteq> hd cs"
proof -
  let ?n = "cl_n cl"
  have wf: "cluster_wf cl" using inv by (simp add: cluster_inv_def)
  hence t: "1 \<le> cl_t cl" "cl_t cl \<le> ?n" and ids: "indices_distinct TYPE('s) ?n" by (auto simp: cluster_wf_def)
  have n: "1 \<le> ?n" using t by simp
  obtain cs1 where wf1: "cluster_wf cl1" and sh1: "sharing cl1 key cs1" and hd1: "hd cs1 = hd cs"
    and keys1: "cl_keys cl1 = (cl_keys cl)(key \<mapsto> info\<lparr>ki_epoch := ki_epoch info + 1\<rparr>)"
    by (rule refresh_succeeds[OF x inv on key sh pk, of tm g2]) (use rf in \<open>simp add: cluster_inv_def\<close>)
  have tn: "cl_t cl1 = cl_t cl" "cl_n cl1 = ?n"
    using refresh_keep[OF rf, of nd_index] by (simp_all add: put_share_def)
  obtain zs where zs: "length zs = cl_t cl" "hd zs = 0"
    and deal: "refresh_deal (C x) (cl_t cl) ?n ?n (replicate ?n (scalar_zero (C x))) g1 =
      (Ok (evals ?n zs), sdrop (?n * (cl_t cl - 1)) g1)"
    by (rule refresh_dealt[OF x wf])
  have idx1: "map nd_index (cl_nodes cl1) = map of_nat [1..<Suc ?n]"
    using wf1 tn by (simp add: cluster_wf_def)
  have len1: "length cs1 = cl_t cl" and held1: "map (\<lambda>nd. nd_shares nd key) (cl_nodes cl1) = map Some (evals ?n cs1)"
    using sh1 tn sharing_iff[of cl1] idx1 by auto
  obtain d ds where d: "evals ?n zs = d # ds" "Suc (length ds) = ?n" by (rule evals_Cons[OF n])
  obtain s1 ss1 where s1: "evals ?n cs1 = s1 # ss1" "Suc (length ss1) = ?n" by (rule evals_Cons[OF n])
  obtain nd nds where nd: "cl_nodes cl = nd # nds" using wf_length[OF wf] n by (cases "cl_nodes cl") auto
  obtain s where s: "nd_shares nd key = Some s" using sh by (simp add: sharing_def nd)
  obtain nd1 nds1 where nd1: "cl_nodes cl1 = nd1 # nds1" "nd_shares nd1 key = Some s1"
      "map (\<lambda>nd. nd_shares nd key) nds1 = map Some ss1"
    using held1 s1 by (cases "cl_nodes cl1") auto
  have lens: "length nds1 = length ds" "length nds1 = length ss1"
    using nd1(1) d(2) s1(2) wf_length[OF wf1] tn by simp_all
  have key1: "cl_keys cl1 key = Some (info\<lparr>ki_epoch := ki_epoch info + 1\<rparr>)" using keys1 by simp
  have deal': "fst (refresh_deal (C x) (cl_t cl) ?n ?n (replicate ?n (scalar_zero (C x))) g1) = Ok (d # ds)"
    using deal d(1) by simp
  let ?v = "scalar_add (C x) s d" and ?ws = "map2 (scalar_add (C x)) ss1 ds"
  let ?nodes = "put_share key ?v nd1 # put_shares key nds1 ?ws"
  have run: "conc_run (C x) tm new_call (cl, Map.empty) (cl1\<lparr>cl_nodes := ?nodes,
        cl_keys := (cl_keys cl1)(key \<mapsto> info\<lparr>ki_epoch := ki_epoch info + 2\<rparr>)\<rparr>,
      [0 \<mapsto> Refresh_Done key (Ok (ki_public_key info, ki_epoch info + 2)), 1 \<mapsto> Refresh_Done key (Ok r)])"
    using lost_update_run[OF on key deal' nd s rf nd1(1) refresh_nodes_eq[OF lens(1) nd1(3)] key1]
    by (simp add: add.assoc)
  have "s \<noteq> s1" using new nd s nd1 by simp
  with lost_nodes[OF x ids t len1 zs(1,2) s1(1) d(1) idx1[unfolded nd1(1)] nd1(2,3), of s]
  obtain w where w: "reconstruct (C x) (node_shares key (take (cl_t cl) ?nodes)) = Some w" "w \<noteq> hd cs1" by blast
  let ?cl2 = "cl1\<lparr>cl_nodes := ?nodes,
      cl_keys := (cl_keys cl1)(key \<mapsto> info\<lparr>ki_epoch := ki_epoch info + 2\<rparr>)\<rparr>"
  have "cl_keys ?cl2 key = Some (info\<lparr>ki_epoch := ki_epoch info + 2\<rparr>)" by simp
  moreover have "cl_nodes ?cl2 = ?nodes" by simp
  ultimately show ?thesis using run w unfolding hd1
    by (intro exI[of _ ?cl2] exI[of _ w]) (simp only: simp_thms)
qed

end

section \<open>Lemmas: both curves\<close>

lemma quorum_secret_unique:
  assumes "cluster_wf cl" and "quorum_secret C cl key a" and "quorum_secret C cl key b"
  shows "a = b"
proof -
  have "distinct (cl_nodes cl)" "cl_t cl \<le> length (cl_nodes cl)"
    using wf_nodes_distinct[OF assms(1)] wf_length[OF assms(1)] assms(1) by (auto simp: cluster_wf_def)
  thus ?thesis using assms(2,3) unfolding quorum_secret_def by (metis option.inject subset_refl)
qed

section \<open>A concrete refresh\<close>

text \<open>The two-of-three cluster after a refresh whose dealers all draw one.\<close>

definition demo_refreshed_for :: "string \<Rightarrow> gf5 Cluster" where
  "demo_refreshed_for k = (demo_cluster_for k)\<lparr>cl_nodes := [demo_node k 1 G4, demo_node k 2 G0, demo_node k 3 G1],
     cl_keys := [k \<mapsto> \<lparr>ki_public_key = gf5_bytes G3, ki_epoch = 2\<rparr>]\<rparr>"

definition demo_refreshed :: "gf5 Cluster" where
  "demo_refreshed = demo_refreshed_for ''k''"

lemma demo_split_zero: "split_zero demo_secp 2 3 (sconst G1) = (Ok [(1, G1), (2, G2), (3, G3)], sconst G1)"
proof -
  have "eval_all demo_secp [0, G1] 3 = [(1, G1), (2, G2), (3, G3)]"
    by (simp only: secp.eval_all_eq[OF demo_k256_laws] upt_1_3 list.map peval.simps)
      (simp add: demo_ix, simp add: gf5_defs)
  thus ?thesis by (simp add: split_zero_def split_def numeral_2_eq_2 secp.zero[OF demo_k256_laws])
qed

lemma demo_refresh_deal:
  "refresh_deal demo_secp 2 3 3 (replicate 3 0) (sconst G1) = (Ok [G3, G1, G4], sconst G1)"
proof -
  have "refresh_deal demo_secp 2 3 (Suc (Suc (Suc 0))) (replicate (Suc (Suc (Suc 0))) 0) (sconst G1) =
      (Ok [G3, G1, G4], sconst G1)"
    by (simp add: demo_split_zero accumulate_def secp.add[OF demo_k256_laws])
      (simp add: gf5_numerals, simp add: gf5_defs)
  thus ?thesis by (simp only: numeral_3_eq_3)
qed

lemma demo_refresh_for:
  "refresh demo_secp demo_timer k (demo_cluster_for k) (sconst G1) =
     (Ok (gf5_bytes G3, 2), demo_refreshed_for k, sconst G1)"
proof -
  have "refresh_nodes demo_secp k (cl_nodes (demo_cluster_for k)) [G3, G1, G4] = (True, cl_nodes (demo_refreshed_for k))"
    by (simp add: demo_cluster_for_def demo_refreshed_for_def demo_node_def put_share_def
        secp.add[OF demo_k256_laws]) (simp add: gf5_defs)
  moreover have "online_count (demo_cluster_for k) = 3" "cl_t (demo_cluster_for k) = 2" "cl_n (demo_cluster_for k) = 3"
    "cl_round_timeout (demo_cluster_for k) = 2000" "cl_keys (demo_cluster_for k) = [k \<mapsto> demo_info]"
    by (simp_all add: online_count_def demo_cluster_for_def demo_node_def)
  ultimately show ?thesis
    by (simp add: refresh_def cluster_round_def demo_refresh_deal secp.zero[OF demo_k256_laws] demo_info_def
        demo_refreshed_for_def Let_def)
qed

lemma demo_refresh:
  "refresh demo_secp demo_timer ''k'' demo_cluster (sconst G1) =
     (Ok (gf5_bytes G3, 2), demo_refreshed, sconst G1)"
  using demo_refresh_for[of "''k''"] by (simp add: demo_cluster_def demo_refreshed_def)

lemma demo_sharing_for: "sharing (demo_cluster_for k) k [G3, G3]"
  by (simp add: sharing_def demo_cluster_for_def demo_node_def demo_ix) (simp add: gf5_defs)

lemma demo_sharing: "sharing demo_cluster ''k'' [G3, G3]"
  unfolding demo_cluster_def by (rule demo_sharing_for)

lemma demo_inv: "cluster_inv demo_secp demo_cluster"
  by (rule lawful_reach_inv[OF demo_lawful demo_indices demo_reach])

lemma demo_quorum: "quorum_secret demo_secp demo_cluster ''k'' G3"
  using lawful_sharing_secret[OF demo_lawful demo_inv demo_sharing] by simp

section \<open>Properties\<close>

text \<open>
  Signing while the key is being refreshed uses a wrong secret. Let every node be up and in
  time, and let a refresh that gives the \<open>t\<close>-th node a new share start after a signer has asked the
  nodes before it. Both calls end normally, and the signer has signed with a scalar that is not
  the secret of the key.
\<close>
theorem overlapped_sign_wrong_secret:
  assumes "lawful_curve K XD (C :: 's :: field curve)" and "indices_distinct TYPE('s) n"
    and "cluster_reach C tm t n cl" and "cl_keys cl key = Some info"
    and "round_responders tm cl = cl_nodes cl" and "quorum_secret C cl key secret"
    and "refresh C tm key cl g = (Ok r, cl', g')"
    and "nd_shares (cl_nodes cl' ! (cl_t cl - 1)) key \<noteq> nd_shares (cl_nodes cl ! (cl_t cl - 1)) key"
  shows "\<exists>s ts. s \<noteq> secret \<and> conc_run C tm new_call (cl, Map.empty) (cl', ts) \<and>
    ts 0 = Some (Sign_Done key msg (lift_panic (fst (curve_sign C s msg g2)))) \<and>
    ts 1 = Some (Refresh_Done key (Ok r))"
proof -
  have inv: "cluster_inv C cl" by (rule lawful_reach_inv[OF assms(1-3)])
  obtain cs where sh: "sharing cl key cs" by (rule inv_sharing[OF inv assms(4)])
  have secret: "secret = hd cs"
    using quorum_secret_unique[OF _ assms(6) lawful_sharing_secret[OF assms(1) inv sh]] inv
    by (simp add: cluster_inv_def)
  have "\<exists>s. s \<noteq> hd cs \<and> conc_run C tm new_call (cl, Map.empty) (cl', [0 \<mapsto>
    Sign_Done key msg (lift_panic (fst (curve_sign C s msg g2))), 1 \<mapsto> Refresh_Done key (Ok r)])"
    using assms(1)
  proof (cases rule: lawful_curve_cases)
    case 1
    from secp.stale_signature[OF 1(2) inv[unfolded 1(1)] assms(4,5) assms(7)[unfolded 1(1)] assms(8) sh]
    show ?thesis unfolding 1(1) .
  next
    case 2
    from ed.stale_signature[OF 2(2) inv[unfolded 2(1)] assms(4,5) assms(7)[unfolded 2(1)] assms(8) sh]
    show ?thesis unfolding 2(1) .
  qed
  thus ?thesis unfolding secret by fastforce
qed

theorem overlapped_sign_wrong_secret_witness:
  "\<exists>s ts. s \<noteq> G3 \<and> conc_run demo_secp demo_timer new_call (demo_cluster, Map.empty) (demo_refreshed, ts) \<and>
    ts 0 = Some (Sign_Done ''k'' [1, 2] (lift_panic (fst (curve_sign demo_secp s [1, 2] (sconst G0))))) \<and>
    ts 1 = Some (Refresh_Done ''k'' (Ok (gf5_bytes G3, 2)))"
proof -
  have all: "round_responders demo_timer demo_cluster = cl_nodes demo_cluster"
    by (simp add: round_responders_def demo_cluster_def demo_cluster_for_def demo_node_def)
  have new: "nd_shares (cl_nodes demo_refreshed ! (cl_t demo_cluster - 1)) ''k'' \<noteq>
      nd_shares (cl_nodes demo_cluster ! (cl_t demo_cluster - 1)) ''k''"
    by (simp add: demo_refreshed_def demo_refreshed_for_def demo_cluster_def demo_cluster_for_def demo_node_def)
  show ?thesis
    by (rule overlapped_sign_wrong_secret[OF demo_lawful demo_indices demo_reach demo_key all demo_quorum demo_refresh new])
qed

text \<open>
  (C20) Two overlapping refreshes of one key destroy it. Let every node be up, and let the second
  refresh, which gives the first node a new share, run while the first refresh is about to store
  that node's share. Both return the key's public key and the next epochs, and afterwards the
  first \<open>t\<close> nodes, those that sign while every node is up, reconstruct a scalar that is not the
  secret of the key.
\<close>
theorem overlapped_refreshes_lose_key:
  assumes "lawful_curve K XD (C :: 's :: field curve)" and "indices_distinct TYPE('s) n"
    and "cluster_reach C tm t n cl" and "cl_keys cl key = Some info"
    and "online_count cl = cl_n cl" and "quorum_secret C cl key secret"
    and "refresh C tm key cl g = (Ok r, cl1, g')"
    and "nd_shares (cl_nodes cl1 ! 0) key \<noteq> nd_shares (cl_nodes cl ! 0) key"
  shows "\<exists>cl2 ts s. conc_run C tm new_call (cl, Map.empty) (cl2, ts) \<and>
    ts 0 = Some (Refresh_Done key (Ok (ki_public_key info, ki_epoch info + 2))) \<and>
    ts 1 = Some (Refresh_Done key (Ok r)) \<and> cluster_public_key cl2 key = Some (ki_public_key info) \<and>
    reconstruct C (node_shares key (take (cl_t cl) (cl_nodes cl2))) = Some s \<and> s \<noteq> secret"
proof -
  have inv: "cluster_inv C cl" by (rule lawful_reach_inv[OF assms(1-3)])
  obtain cs where sh: "sharing cl key cs" and pk: "ki_public_key info = public_from_scalar C (hd cs)"
    by (rule inv_sharing[OF inv assms(4)])
  have secret: "secret = hd cs"
    using quorum_secret_unique[OF _ assms(6) lawful_sharing_secret[OF assms(1) inv sh]] inv
    by (simp add: cluster_inv_def)
  have "\<exists>cl2 w. conc_run C tm new_call (cl, Map.empty) (cl2,
      [0 \<mapsto> Refresh_Done key (Ok (ki_public_key info, ki_epoch info + 2)), 1 \<mapsto> Refresh_Done key (Ok r)]) \<and>
    cl_keys cl2 key = Some (info\<lparr>ki_epoch := ki_epoch info + 2\<rparr>) \<and>
    reconstruct C (node_shares key (take (cl_t cl) (cl_nodes cl2))) = Some w \<and> w \<noteq> hd cs"
    using assms(1)
  proof (cases rule: lawful_curve_cases)
    case 1
    from secp.lost_refresh[OF 1(2) inv[unfolded 1(1)] assms(4,5) sh pk[unfolded 1(1)] assms(7)[unfolded 1(1)] assms(8)]
    show ?thesis unfolding 1(1) .
  next
    case 2
    from ed.lost_refresh[OF 2(2) inv[unfolded 2(1)] assms(4,5) sh pk[unfolded 2(1)] assms(7)[unfolded 2(1)] assms(8)]
    show ?thesis unfolding 2(1) .
  qed
  then obtain cl2 w where "conc_run C tm new_call (cl, Map.empty) (cl2,
      [0 \<mapsto> Refresh_Done key (Ok (ki_public_key info, ki_epoch info + 2)), 1 \<mapsto> Refresh_Done key (Ok r)])"
    "cl_keys cl2 key = Some (info\<lparr>ki_epoch := ki_epoch info + 2\<rparr>)"
    "reconstruct C (node_shares key (take (cl_t cl) (cl_nodes cl2))) = Some w" "w \<noteq> secret"
    unfolding secret by blast
  thus ?thesis by (intro exI[of _ cl2] exI conjI) (assumption | simp add: cluster_public_key_def)+
qed

theorem overlapped_refreshes_lose_key_witness:
  "\<exists>cl2 ts s. conc_run demo_secp demo_timer new_call (demo_cluster, Map.empty) (cl2, ts) \<and>
    ts 0 = Some (Refresh_Done ''k'' (Ok (gf5_bytes G3, 3))) \<and>
    ts 1 = Some (Refresh_Done ''k'' (Ok (gf5_bytes G3, 2))) \<and>
    cluster_public_key cl2 ''k'' = Some (gf5_bytes G3) \<and>
    reconstruct demo_secp (node_shares ''k'' (take (cl_t demo_cluster) (cl_nodes cl2))) = Some s \<and> s \<noteq> G3"
proof -
  have on: "online_count demo_cluster = cl_n demo_cluster"
    by (simp add: online_count_def demo_cluster_def demo_cluster_for_def demo_node_def)
  have new: "nd_shares (cl_nodes demo_refreshed ! 0) ''k'' \<noteq> nd_shares (cl_nodes demo_cluster ! 0) ''k''"
    by (simp add: demo_refreshed_def demo_refreshed_for_def demo_cluster_def demo_cluster_for_def demo_node_def)
  from overlapped_refreshes_lose_key[OF demo_lawful demo_indices demo_reach demo_key on demo_quorum demo_refresh new]
  show ?thesis by (simp add: demo_info_def)
qed

end
