(* ===== verification/Cluster_Locking.thy ===== *)
theory Cluster_Locking
  imports Cluster_Races
begin

text \<open>
  The calls of \<open>src/engine/threshold/cluster.rs\<close> under one readers-writer lock per key: any number
  of signers, or one \<open>refresh\<close> or \<open>keygen\<close>, and calls on different keys in any interleaving. The
  invariant says for each key where its shares stand while a call is between two steps; every
  step keeps it, so that each signature the cluster returns verifies.
\<close>

section \<open>Invariant\<close>

definition held :: "'s Cluster \<Rightarrow> string \<Rightarrow> 's option list" where
  "held cl key = map (\<lambda>nd. nd_shares nd key) (cl_nodes cl)"

text \<open>The answers a signer has after the first \<open>i\<close> nodes.\<close>

definition polled :: "nat \<Rightarrow> 's :: field list \<Rightarrow> nat \<Rightarrow> 's share list \<Rightarrow> bool" where
  "polled n cs i shares \<longleftrightarrow> i \<le> n \<and> on_poly cs shares \<and> distinct (map fst shares) \<and>
     fst ` set shares \<subseteq> of_nat ` {1..i}"

text \<open>A refresh that has reached node \<open>i\<close>: the nodes before it hold the new sharing, the others the old.\<close>

definition half_refreshed :: "'s :: field Cluster \<Rightarrow> string \<Rightarrow> 's list \<Rightarrow> nat \<Rightarrow> 's list \<Rightarrow> bool" where
  "half_refreshed cl key cs i delta \<longleftrightarrow> (\<exists>zs. length zs = cl_t cl \<and> hd zs = 0 \<and> delta = evals (cl_n cl) zs \<and>
     i \<le> cl_n cl \<and>
     held cl key = map Some (take i (evals (cl_n cl) (padd cs zs)) @ drop i (evals (cl_n cl) cs)))"

fun task_ok :: "'s :: field curve \<Rightarrow> 's Cluster \<Rightarrow> 's list \<Rightarrow> 's cluster_task \<Rightarrow> bool" where
  "task_ok C cl cs (Sign_Poll key msg i shares) = polled (cl_n cl) cs i shares"
| "task_ok C cl cs (Sign_Wait key msg i delay shares) = (i < cl_n cl \<and> polled (cl_n cl) cs i shares)"
| "task_ok C cl cs (Sign_Done key msg r) =
     (\<forall>sig. r = Ok sig \<longrightarrow> curve_verify C (public_from_scalar C (hd cs)) msg sig)"
| "task_ok C cl cs (Refresh_Read key i delta) = half_refreshed cl key cs i delta"
| "task_ok C cl cs (Refresh_Write key i v delta) =
     (i < cl_n cl \<and> half_refreshed cl key cs i delta \<and>
      v = scalar_add C (evals (cl_n cl) cs ! i) (delta ! i))"
| "task_ok C cl cs (Keygen_Start key) = False"
| "task_ok C cl cs (Keygen_Round key i) = False"
| "task_ok C cl cs (Keygen_Ack key i delay) = False"
| "task_ok C cl cs (Keygen_Deal key) = False"
| "task_ok C cl cs (Keygen_Put key i agg coms) = False"
| "task_ok C cl cs (Keygen_Publish key coms) = False"
| "task_ok C cl cs task = True"

definition mid_write :: "'s cluster_task \<Rightarrow> bool" where
  "mid_write task = (case task of Refresh_Read _ _ _ \<Rightarrow> True | Refresh_Write _ _ _ _ \<Rightarrow> True | _ \<Rightarrow> False)"

definition dealt :: "'s curve \<Rightarrow> bytes list \<Rightarrow> 's list \<Rightarrow> bool" where
  "dealt C coms cs \<longleftrightarrow> (\<forall>pk. aggregate_public C coms = Some pk \<longrightarrow> pk = public_from_scalar C (hd cs))"

text \<open>Tasks on an identifier that is not a key yet.\<close>

fun early_ok :: "'s :: field curve \<Rightarrow> 's Cluster \<Rightarrow> 's cluster_task \<Rightarrow> bool" where
  "early_ok C cl (Sign_Poll key msg i shares) = False"
| "early_ok C cl (Sign_Wait key msg i delay shares) = False"
| "early_ok C cl (Sign_Done key msg r) = (\<forall>sig. r \<noteq> Ok sig)"
| "early_ok C cl (Refresh_Round key i) = False"
| "early_ok C cl (Refresh_Ack key i delay) = False"
| "early_ok C cl (Refresh_Deal key) = False"
| "early_ok C cl (Refresh_Read key i delta) = False"
| "early_ok C cl (Refresh_Write key i v delta) = False"
| "early_ok C cl (Refresh_Bump key) = False"
| "early_ok C cl (Keygen_Put key i agg coms) = (\<exists>cs. length cs = cl_t cl \<and> agg = evals (cl_n cl) cs \<and>
     i \<le> cl_n cl \<and> take i (held cl key) = map Some (take i agg) \<and> dealt C coms cs)"
| "early_ok C cl (Keygen_Publish key coms) = (\<exists>cs. length cs = cl_t cl \<and>
     held cl key = map Some (evals (cl_n cl) cs) \<and> dealt C coms cs)"
| "early_ok C cl task = True"

definition key_ok :: "'s :: field curve \<Rightarrow> 's Cluster \<Rightarrow> 's tasks \<Rightarrow> string \<Rightarrow> 's list \<Rightarrow> bool" where
  "key_ok C cl ts key cs \<longleftrightarrow> length cs = cl_t cl \<and>
     (\<forall>p task. ts p = Some task \<longrightarrow> task_key task = key \<longrightarrow> task_ok C cl cs task) \<and>
     ((\<forall>p task. ts p = Some task \<longrightarrow> task_key task = key \<longrightarrow> \<not> mid_write task) \<longrightarrow>
        held cl key = map Some (evals (cl_n cl) cs))"

definition key_inv :: "'s :: field curve \<Rightarrow> 's Cluster \<Rightarrow> 's tasks \<Rightarrow> string \<Rightarrow> bool" where
  "key_inv C cl ts key = (case cl_keys cl key of
       None \<Rightarrow> (\<forall>p task. ts p = Some task \<longrightarrow> task_key task = key \<longrightarrow> early_ok C cl task)
     | Some info \<Rightarrow> (\<exists>cs. ki_public_key info = public_from_scalar C (hd cs) \<and> key_ok C cl ts key cs))"

definition exclusive :: "'s tasks \<Rightarrow> string \<Rightarrow> bool" where
  "exclusive ts key \<longleftrightarrow> (\<forall>p q a b. p \<noteq> q \<longrightarrow> ts p = Some a \<longrightarrow> ts q = Some b \<longrightarrow>
     task_key a = key \<longrightarrow> task_key b = key \<longrightarrow> task_writes a \<longrightarrow> task_ended b)"

definition conc_inv :: "'s :: field curve \<Rightarrow> 's Cluster \<times> 's tasks \<Rightarrow> bool" where
  "conc_inv C \<sigma> \<longleftrightarrow> cluster_wf (fst \<sigma>) \<and> (\<forall>key. exclusive (snd \<sigma>) key \<and> key_inv C (fst \<sigma>) (snd \<sigma>) key)"

section \<open>Lemmas: what a step touches\<close>

lemma call_step_key: "call_step C tm g cl task = (cl', task') \<Longrightarrow> task_key task' = task_key task"
  by (cases task) (auto split: if_splits result.splits option.splits prod.splits)

lemma call_step_writes: "call_step C tm g cl task = (cl', task') \<Longrightarrow> task_writes task' \<Longrightarrow> task_writes task"
  by (cases task) (auto simp: task_writes_def split: if_splits result.splits option.splits prod.splits)

lemma call_step_ended: "call_step C tm g cl task = (cl', task') \<Longrightarrow> task_ended task \<Longrightarrow> task' = task \<and> cl' = cl"
  by (cases task) (auto simp: task_ended_def)

lemma map_update_same: "(map f xs)[i := f (xs ! i)] = map f xs"
  by (metis list_update_id map_update)

lemma store_share_frame:
  "cl_t (store_share i key v cl) = cl_t cl" "cl_n (store_share i key v cl) = cl_n cl"
  "cl_keys (store_share i key v cl) = cl_keys cl"
  "map nd_index (cl_nodes (store_share i key v cl)) = map nd_index (cl_nodes cl)"
  "k \<noteq> key \<Longrightarrow> held (store_share i key v cl) k = held cl k"
  "held (store_share i key v cl) key = (held cl key)[i := Some v]"
  by (simp_all add: store_share_def put_share_def held_def map_update map_update_same
      map_update_same[where f = "\<lambda>nd. nd_shares nd k"])

lemma call_step_frame:
  assumes "call_step C tm g cl task = (cl', task')"
  shows "cl_t cl' = cl_t cl" and "cl_n cl' = cl_n cl"
    and "map nd_index (cl_nodes cl') = map nd_index (cl_nodes cl)"
    and "k \<noteq> task_key task \<Longrightarrow> held cl' k = held cl k \<and> cl_keys cl' k = cl_keys cl k"
  using assms
  by (cases task; auto simp: store_share_frame split: if_splits result.splits option.splits prod.splits;
      simp add: held_def)+

lemma call_step_wf: "call_step C tm g cl task = (cl', task') \<Longrightarrow> cluster_wf cl \<Longrightarrow> cluster_wf cl'"
  using call_step_frame(1-3)[of C tm g cl task cl' task'] by (simp add: cluster_wf_def del: upt_Suc)

text \<open>The condition on a key depends on its shares, its entry and the tasks on it only.\<close>

lemma half_refreshed_cong:
  assumes "cl_t cl' = cl_t cl" "cl_n cl' = cl_n cl" "held cl' key = held cl key"
  shows "half_refreshed cl' key cs i delta = half_refreshed cl key cs i delta"
  by (simp add: half_refreshed_def assms)

lemma task_cong:
  assumes "cl_t cl' = cl_t cl" "cl_n cl' = cl_n cl" "held cl' (task_key task) = held cl (task_key task)"
  shows "task_ok C cl' cs task = task_ok C cl cs task" and "early_ok C cl' task = early_ok C cl task"
  using assms by (cases task; simp add: half_refreshed_cong[OF assms(1,2)])+

lemma key_inv_cong:
  assumes "cl_t cl' = cl_t cl" "cl_n cl' = cl_n cl" "held cl' key = held cl key" "cl_keys cl' key = cl_keys cl key"
    and ts: "\<And>p task. task_key task = key \<Longrightarrow> ts' p = Some task \<longleftrightarrow> ts p = Some task"
  shows "key_inv C cl' ts' key = key_inv C cl ts key"
proof -
  have ok: "task_key task = key \<Longrightarrow> task_ok C cl' cs task = task_ok C cl cs task"
      "task_key task = key \<Longrightarrow> early_ok C cl' task = early_ok C cl task" for task cs
    using task_cong[OF assms(1,2)] assms(3) by simp_all
  have "key_ok C cl' ts' key cs = key_ok C cl ts key cs" for cs
    unfolding key_ok_def assms(1-3) using ok(1) ts by blast
  moreover have "(\<forall>p task. ts' p = Some task \<longrightarrow> task_key task = key \<longrightarrow> early_ok C cl' task) \<longleftrightarrow>
      (\<forall>p task. ts p = Some task \<longrightarrow> task_key task = key \<longrightarrow> early_ok C cl task)"
    using ok(2) ts by blast
  ultimately show ?thesis by (simp add: key_inv_def assms(4) split: option.split)
qed

lemma exclusive_step:
  assumes "exclusive ts key" and "ts p = Some task" and "call_step C tm g cl task = (cl', task')"
  shows "exclusive (ts(p \<mapsto> task')) key"
  using assms(1,2) call_step_key[OF assms(3)] call_step_writes[OF assms(3)] call_step_ended[OF assms(3)]
  unfolding exclusive_def by (auto split: if_splits)

section \<open>Lemmas: the key of the task\<close>

text \<open>
  A step that changes no share and no entry, of a task that is not in the middle of a refresh.
\<close>

lemma quiet_step:
  assumes inv: "key_inv C cl ts key" and p: "ts p = Some task" "task_key task = key" "task_key task' = key"
    and early: "\<lbrakk>cl_keys cl key = None; early_ok C cl task\<rbrakk> \<Longrightarrow> early_ok C cl task'"
    and known: "\<And>info cs. \<lbrakk>cl_keys cl key = Some info; ki_public_key info = public_from_scalar C (hd cs);
      key_ok C cl ts key cs; task_ok C cl cs task\<rbrakk> \<Longrightarrow> task_ok C cl cs task'"
    and mid: "mid_write task \<Longrightarrow> mid_write task'"
  shows "key_inv C cl (ts(p \<mapsto> task')) key"
proof (cases "cl_keys cl key")
  case None
  with inv p early show ?thesis by (auto simp: key_inv_def)
next
  case (Some info)
  with inv obtain cs where cs: "ki_public_key info = public_from_scalar C (hd cs)" "key_ok C cl ts key cs"
    by (auto simp: key_inv_def)
  hence "task_ok C cl cs task'" using known[OF Some] p by (auto simp: key_ok_def)
  hence "key_ok C cl (ts(p \<mapsto> task')) key cs"
    using cs(2) p mid unfolding key_ok_def by (auto split: if_splits)
  with cs(1) Some show ?thesis by (auto simp: key_inv_def)
qed

text \<open>
  A step of a refresh or key generation: all other tasks on the key have ended, and what they
  ended with stays true while the secret is the same.
\<close>

lemma ended_task_ok:
  assumes "task_ended task" and "task_ok C cl cs task" and "hd cs' = hd cs"
  shows "task_ok C cl' cs' task"
  using assms by (cases task) (auto simp: task_ended_def)

lemma early_ended_ok: "task_ended task \<Longrightarrow> early_ok C cl task \<Longrightarrow> task_ok C cl' cs' task"
  by (cases task) (auto simp: task_ended_def)

lemma writer_step:
  assumes ex: "exclusive ts key" and p: "ts p = Some task" "task_key task = key" "task_writes task"
      "task_key task' = key"
    and others: "\<And>q other. \<lbrakk>q \<noteq> p; ts q = Some other; task_key other = key; task_ended other\<rbrakk> \<Longrightarrow>
      task_ok C cl' cs' other"
    and new: "cl_keys cl' key = Some info" "ki_public_key info = public_from_scalar C (hd cs')"
      "length cs' = cl_t cl'" "task_ok C cl' cs' task'"
      "\<not> mid_write task' \<Longrightarrow> held cl' key = map Some (evals (cl_n cl') cs')"
  shows "key_inv C cl' (ts(p \<mapsto> task')) key"
proof -
  have "key_ok C cl' (ts(p \<mapsto> task')) key cs'"
    unfolding key_ok_def
  proof (intro conjI allI impI)
    fix q other assume q: "(ts(p \<mapsto> task')) q = Some other" "task_key other = key"
    show "task_ok C cl' cs' other"
    proof (cases "q = p")
      case False
      with q ex p have "task_ended other" unfolding exclusive_def by (metis fun_upd_other)
      with others[OF False] q False show ?thesis by simp
    qed (use q new(4) in simp)
  next
    assume "\<forall>q other. (ts(p \<mapsto> task')) q = Some other \<longrightarrow> task_key other = key \<longrightarrow> \<not> mid_write other"
    with p(4) have "\<not> mid_write task'" by (metis fun_upd_same)
    thus "held cl' key = map Some (evals (cl_n cl') cs')" by (rule new(5))
  qed (rule new(3))
  with new(1,2) show ?thesis by (auto simp: key_inv_def)
qed

text \<open>While a signer is at work, or a writer before its first write, the key's shares are settled.\<close>

lemma settled_held:
  assumes ex: "exclusive ts key" and ok: "key_ok C cl ts key cs"
    and p: "ts p = Some task" "task_key task = key" "\<not> task_ended task" "\<not> mid_write task"
  shows "held cl key = map Some (evals (cl_n cl) cs)"
proof -
  have "\<not> mid_write other" if q: "ts q = Some other" "task_key other = key" for q other
  proof
    assume "mid_write other"
    hence "task_writes other" by (cases other) (auto simp: mid_write_def task_writes_def)
    moreover have "q \<noteq> p" using q p \<open>mid_write other\<close> by auto
    ultimately show False using ex q p unfolding exclusive_def by blast
  qed
  thus ?thesis using ok unfolding key_ok_def by blast
qed

lemma held_node:
  assumes wf: "cluster_wf cl" and held: "held cl key = map Some vs" and i: "i < cl_n cl"
  shows "nd_shares (cl_nodes cl ! i) key = Some (vs ! i)" and "nd_index (cl_nodes cl ! i) = of_nat (Suc i)"
proof -
  have n: "length (cl_nodes cl) = cl_n cl" by (rule wf_length[OF wf])
  hence "length vs = cl_n cl" using arg_cong[OF held, of length] by (simp add: held_def)
  thus "nd_shares (cl_nodes cl ! i) key = Some (vs ! i)"
    using arg_cong[OF held, of "\<lambda>xs. xs ! i"] i n by (simp add: held_def)
  have "map nd_index (cl_nodes cl) ! i = map of_nat [1..<Suc (cl_n cl)] ! i"
    using wf by (simp add: cluster_wf_def)
  thus "nd_index (cl_nodes cl ! i) = of_nat (Suc i)" using i n by (simp add: nth_upt del: upt_Suc)
qed

lemma polled_next:
  assumes "polled n cs i shares" and "i < n" and "n < 2 ^ 64"
  shows "polled n cs (Suc i) shares"
    and "polled n cs (Suc i) (shares @ [(of_nat (Suc i), peval cs (ix (of_nat (Suc i))))])"
proof -
  have sub: "fst ` set shares \<subseteq> of_nat ` {1..i}" using assms(1) by (simp add: polled_def)
  have "of_nat (Suc i) \<notin> (of_nat ` {1..i} :: u64 set)"
  proof
    assume "of_nat (Suc i) \<in> (of_nat ` {1..i} :: u64 set)"
    then obtain j where "j \<in> {1..i}" "unat (of_nat (Suc i) :: u64) = unat (of_nat j :: u64)" by auto
    thus False using assms(2,3) unat_u64_of_nat[of "Suc i"] unat_u64_of_nat[of j] by simp
  qed
  with sub have new: "of_nat (Suc i) \<notin> fst ` set shares" by blast
  have "fst ` set shares \<subseteq> of_nat ` {1..Suc i}" using sub by fastforce
  moreover have "(of_nat (Suc i) :: u64) \<in> of_nat ` {1..Suc i}" by (rule imageI) simp
  ultimately show "polled n cs (Suc i) shares"
    and "polled n cs (Suc i) (shares @ [(of_nat (Suc i), peval cs (ix (of_nat (Suc i))))])"
    using assms new by (simp_all add: polled_def on_poly_def del: of_nat_Suc)
qed

lemma node_shares_single:
  "nd_shares nd key = Some s \<Longrightarrow> node_shares key [nd] = [(nd_index nd, s)]"
  by (simp add: node_shares_def List.map_filter_def)

context curve_family
begin

lemma polled_sign_verifies:
  assumes x: "lawful x" and wf: "cluster_wf (cl :: 's Cluster)" and len: "length cs = cl_t cl"
    and pl: "polled (cl_n cl) cs i shares" and ok: "sign_collected (C x) (cl_t cl) shares msg g = Ok sig"
  shows "curve_verify (C x) (public_from_scalar (C x) (hd cs)) msg sig"
proof -
  let ?sh = "take (cl_t cl) shares"
  have ids: "indices_distinct TYPE('s) (cl_n cl)" using wf by (simp add: cluster_wf_def)
  have q: "cl_t cl \<le> length shares" using ok by (auto simp: sign_collected_def split: if_splits)
  have "fst ` set shares \<subseteq> of_nat ` {1..cl_n cl}" using pl by (fastforce simp: polled_def)
  hence "distinct (map (\<lambda>p. ix (fst p) :: 's) shares)" using pl by (intro distinct_ix[OF ids]) (simp_all add: polled_def)
  hence "distinct (map (\<lambda>p. ix (fst p) :: 's) ?sh)" by (simp only: take_map[symmetric] distinct_take)
  moreover have "on_poly cs ?sh"
    by (rule on_poly_subset[OF _ set_take_subset]) (use pl in \<open>simp add: polled_def\<close>)
  ultimately have "reconstruct (C x) ?sh = Some (peval cs 0)"
    using q len by (intro reconstruct_poly[OF x]) simp_all
  moreover have "peval cs 0 = hd cs" using len wf by (cases cs) (auto simp: cluster_wf_def)
  ultimately have "fst (curve_sign (C x) (hd cs) msg g) = Ok sig"
    using ok q by (simp add: sign_collected_def lift_panic_eq_Ok)
  thus ?thesis by (rule sign_sound[OF x])
qed

text \<open>The steps of a signer.\<close>

lemma sign_step_inv:
  assumes x: "lawful x" and wf: "cluster_wf (cl :: 's Cluster)" and ex: "exclusive ts key"
    and inv: "key_inv (C x) cl ts key" and p: "ts p = Some task" "task_key task = key"
    and signer: "\<not> task_writes task" and st: "call_step (C x) tm g cl task = (cl', task')"
  shows "cl' = cl \<and> key_inv (C x) cl (ts(p \<mapsto> task')) key"
proof
  have n: "length (cl_nodes cl) = cl_n cl" "cl_n cl < 2 ^ 64"
    using wf wf_length[OF wf] by (simp_all add: cluster_wf_def indices_distinct_def)
  show "cl' = cl" using st signer by (cases task) (auto simp: task_writes_def)
  have "key_inv (C x) cl (ts(p \<mapsto> task')) key"
  proof (rule quiet_step[OF inv p])
    show "task_key task' = key" using call_step_key[OF st] p(2) by simp
    show "mid_write task \<Longrightarrow> mid_write task'" using signer by (cases task) (auto simp: mid_write_def task_writes_def)
    show "early_ok (C x) cl task'" if "cl_keys cl key = None" "early_ok (C x) cl task"
      using that st signer p(2) by (cases task) (auto simp: task_writes_def)
    fix info cs assume key: "cl_keys cl key = Some info" and ok: "key_ok (C x) cl ts key cs"
      and tok: "task_ok (C x) cl cs task"
    have len: "length cs = cl_t cl" using ok by (simp add: key_ok_def)
    show "task_ok (C x) cl cs task'"
    proof (cases task)
      case (Sign_Start k msg)
      with st key p(2) show ?thesis by (auto simp: polled_def on_poly_def)
    next
      case (Sign_Poll k msg i shares)
      show ?thesis
      proof (cases "i < cl_n cl")
        case True
        with Sign_Poll st tok n show ?thesis by (auto simp: polled_next(1))
      next
        case False
        with Sign_Poll st tok n polled_sign_verifies[OF x wf len] show ?thesis by (auto simp del: One_nat_def)
      qed
    next
      case (Sign_Wait k msg i delay shares)
      hence i: "i < cl_n cl" "polled (cl_n cl) cs i shares" using tok by simp_all
      have "held cl key = map Some (evals (cl_n cl) cs)"
        by (rule settled_held[OF ex ok p]) (simp_all add: Sign_Wait task_ended_def mid_write_def)
      from held_node[OF wf this i(1)] evals_nth[of "Suc i" "cl_n cl" cs] i(1)
      have "node_shares key [cl_nodes cl ! i] = [(of_nat (Suc i), peval cs (ix (of_nat (Suc i))))]"
        by (simp add: node_shares_single)
      with Sign_Wait st p(2) polled_next[OF i(2,1) n(2)] show ?thesis by (auto simp del: of_nat_Suc)
    qed (use st tok signer in \<open>auto simp: task_writes_def\<close>)
  qed
  thus "key_inv (C x) cl (ts(p \<mapsto> task')) key" .
qed

text \<open>The steps of a refresh.\<close>

lemma half_refreshed_read:
  assumes "cluster_wf cl" and "half_refreshed cl key cs i delta" and "i < cl_n cl"
  shows "nd_shares (cl_nodes cl ! i) key = Some (evals (cl_n cl) cs ! i)" and "length delta = cl_n cl"
proof -
  obtain zs where zs: "delta = evals (cl_n cl) zs"
      "held cl key = map Some (take i (evals (cl_n cl) (padd cs zs)) @ drop i (evals (cl_n cl) cs))"
    using assms(2) by (auto simp: half_refreshed_def)
  show "length delta = cl_n cl" using zs(1) by simp
  show "nd_shares (cl_nodes cl ! i) key = Some (evals (cl_n cl) cs ! i)"
    using held_node(1)[OF assms(1) zs(2) assms(3)] assms(3) by (simp add: nth_append)
qed

lemma half_refreshed_write:
  assumes x: "lawful x" and len: "length cs = cl_t cl" and h: "half_refreshed cl key cs i delta" and i: "i < cl_n cl"
  shows "half_refreshed (store_share i key (scalar_add (C x) (evals (cl_n cl) cs ! i) (delta ! i)) cl) key cs (Suc i) delta"
proof -
  let ?n = "cl_n cl"
  obtain zs where zs: "length zs = cl_t cl" "hd zs = 0" "delta = evals ?n zs"
      "held cl key = map Some (take i (evals ?n (padd cs zs)) @ drop i (evals ?n cs))"
    using h by (auto simp: half_refreshed_def)
  have "map2 (scalar_add (C x)) (evals ?n cs) (evals ?n zs) ! i = evals ?n (padd cs zs) ! i"
    using evals_add[OF x, of cs zs ?n] len zs(1) by simp
  hence v: "scalar_add (C x) (evals ?n cs ! i) (delta ! i) = evals ?n (padd cs zs) ! i"
    using i zs(3) by simp
  have "(take i (evals ?n (padd cs zs)) @ drop i (evals ?n cs))[i := evals ?n (padd cs zs) ! i] =
      take (Suc i) (evals ?n (padd cs zs)) @ drop (Suc i) (evals ?n cs)"
    using i by (intro nth_equalityI) (auto simp: nth_list_update nth_append)
  hence "(held cl key)[i := Some (evals ?n (padd cs zs) ! i)] =
      map Some (take (Suc i) (evals ?n (padd cs zs)) @ drop (Suc i) (evals ?n cs))"
    unfolding zs(4) by (simp only: map_update[symmetric])
  thus ?thesis unfolding v half_refreshed_def store_share_frame using zs(1-3) i
    by (intro exI[of _ zs]) simp
qed

lemma half_refreshed_zero:
  assumes "lawful x" and "cluster_wf (cl :: 's Cluster)" and "held cl key = map Some (evals (cl_n cl) cs)"
    and "fst (refresh_deal (C x) (cl_t cl) (cl_n cl) (cl_n cl) (replicate (cl_n cl) (scalar_zero (C x))) g) = r"
  obtains delta where "r = Ok delta" and "half_refreshed cl key cs 0 delta"
  by (rule refresh_dealt[OF assms(1,2), of g]) (use assms(3,4) that in \<open>auto simp: half_refreshed_def\<close>)

lemma half_refreshed_all:
  assumes "half_refreshed cl key cs i delta" and "\<not> i < cl_n cl" and "length cs = cl_t cl" and "1 \<le> cl_t cl"
  obtains cs' where "held cl key = map Some (evals (cl_n cl) cs')" and "hd cs' = hd cs" and "length cs' = cl_t cl"
proof -
  obtain zs where zs: "length zs = cl_t cl" "hd zs = 0" "i \<le> cl_n cl"
      "held cl key = map Some (take i (evals (cl_n cl) (padd cs zs)) @ drop i (evals (cl_n cl) cs))"
    using assms(1) by (auto simp: half_refreshed_def)
  have "hd (padd cs zs) = hd cs" using zs(1,2) assms(3,4) by (cases cs; cases zs) (auto simp: padd_def)
  thus ?thesis using that[of "padd cs zs"] zs assms(2,3) by simp
qed

lemma refresh_writer_step:
  assumes ex: "exclusive ts key" and pk: "ki_public_key info = public_from_scalar (C x) (hd cs)"
    and ok: "key_ok (C x) cl ts key cs"
    and p: "ts p = Some task" "task_key task = key" "task_writes task" and k': "task_key task' = key"
    and new: "cl_keys cl' key = Some info'" "ki_public_key info' = ki_public_key info" "hd cs' = hd cs"
      "length cs' = cl_t cl'" "task_ok (C x) cl' cs' task'"
      "\<not> mid_write task' \<Longrightarrow> held cl' key = map Some (evals (cl_n cl') cs')"
  shows "key_inv (C x) cl' (ts(p \<mapsto> task')) key"
proof -
  have "task_ok (C x) cl' cs' other" if "ts q = Some other" "task_key other = key" "task_ended other" for q other
    using that ok ended_task_ok[OF that(3) _ new(3)] unfolding key_ok_def by blast
  thus ?thesis
    by (rule writer_step[OF ex p k' _ new(1) _ new(4-6)]) (simp_all add: new(2,3) pk)
qed

lemma refresh_step_ok:
  assumes x: "lawful x" and wf: "cluster_wf (cl :: 's Cluster)" and key: "cl_keys cl key = Some info"
    and len: "length cs = cl_t cl" and p: "task_key task = key" "task_writes task"
    and tok: "task_ok (C x) cl cs task"
    and settled: "\<not> mid_write task \<Longrightarrow> held cl key = map Some (evals (cl_n cl) cs)"
    and st: "call_step (C x) tm g cl task = (cl', task')"
  shows "\<exists>info' cs'. cl_keys cl' key = Some info' \<and> ki_public_key info' = ki_public_key info \<and>
    hd cs' = hd cs \<and> length cs' = cl_t cl' \<and> task_ok (C x) cl' cs' task' \<and>
    (\<not> mid_write task' \<longrightarrow> held cl' key = map Some (evals (cl_n cl') cs'))"
proof -
  have n: "length (cl_nodes cl) = cl_n cl" and t: "1 \<le> cl_t cl"
    using wf wf_length[OF wf] by (simp_all add: cluster_wf_def)
  show ?thesis
  proof (cases task)
    case (Refresh_Start k)
    with st p(1) key len settled show ?thesis
      by (intro exI[of _ info] exI[of _ cs]) (auto simp: mid_write_def split: if_splits)
  next
    case (Refresh_Lookup k)
    with st p(1) key len settled show ?thesis
      by (intro exI[of _ info] exI[of _ cs]) (auto simp: mid_write_def)
  next
    case (Refresh_Round k i)
    with st p(1) key len settled show ?thesis
      by (intro exI[of _ info] exI[of _ cs]) (auto simp: mid_write_def split: if_splits)
  next
    case (Refresh_Ack k i delay)
    with st p(1) key len settled show ?thesis
      by (intro exI[of _ info] exI[of _ cs]) (auto simp: mid_write_def)
  next
    case (Refresh_Deal k)
    hence held: "held cl key = map Some (evals (cl_n cl) cs)" by (intro settled) (simp add: mid_write_def)
    obtain delta where "fst (refresh_deal (C x) (cl_t cl) (cl_n cl) (cl_n cl)
        (replicate (cl_n cl) (scalar_zero (C x))) g) = Ok delta" "half_refreshed cl key cs 0 delta"
      by (rule half_refreshed_zero[OF x wf held refl])
    with Refresh_Deal st p(1) key len show ?thesis
      by (intro exI[of _ info] exI[of _ cs]) (auto simp: mid_write_def)
  next
    case (Refresh_Read k i delta)
    hence h: "half_refreshed cl key cs i delta" using tok p(1) by simp
    show ?thesis
    proof (cases "i < cl_n cl")
      case True
      with Refresh_Read st p(1) key len n h half_refreshed_read[OF wf h True] show ?thesis
        by (intro exI[of _ info] exI[of _ cs]) (auto simp: mid_write_def)
    next
      case False
      obtain cs' where "held cl key = map Some (evals (cl_n cl) cs')" "hd cs' = hd cs" "length cs' = cl_t cl"
        by (rule half_refreshed_all[OF h False len t])
      with Refresh_Read False st p(1) key n show ?thesis by (intro exI[of _ info] exI[of _ cs']) auto
    qed
  next
    case (Refresh_Write k i v delta)
    hence "i < cl_n cl" "half_refreshed cl key cs i delta" "v = scalar_add (C x) (evals (cl_n cl) cs ! i) (delta ! i)"
      using tok p(1) by simp_all
    with Refresh_Write st p(1) key len half_refreshed_write[OF x len, of key i delta] show ?thesis
      by (intro exI[of _ info] exI[of _ cs]) (auto simp: mid_write_def store_share_frame)
  next
    case (Refresh_Bump k)
    hence "held cl key = map Some (evals (cl_n cl) cs)" by (intro settled) (simp add: mid_write_def)
    with Refresh_Bump st p(1) key len show ?thesis
      by (intro exI[of _ "info\<lparr>ki_epoch := ki_epoch info + 1\<rparr>"] exI[of _ cs]) (auto simp: held_def)
  qed (use p(2) tok in \<open>simp_all add: task_writes_def\<close>)
qed

lemma refresh_step_inv:
  assumes x: "lawful x" and wf: "cluster_wf (cl :: 's Cluster)" and ex: "exclusive ts key"
    and key: "cl_keys cl key = Some info" and pk: "ki_public_key info = public_from_scalar (C x) (hd cs)"
    and ok: "key_ok (C x) cl ts key cs"
    and p: "ts p = Some task" "task_key task = key" "task_writes task" and tok: "task_ok (C x) cl cs task"
    and st: "call_step (C x) tm g cl task = (cl', task')"
  shows "key_inv (C x) cl' (ts(p \<mapsto> task')) key"
proof -
  have len: "length cs = cl_t cl" using ok by (simp add: key_ok_def)
  have k': "task_key task' = key" using call_step_key[OF st] p(2) by simp
  have settled: "held cl key = map Some (evals (cl_n cl) cs)" if "\<not> mid_write task"
    by (rule settled_held[OF ex ok p(1,2) _ that]) (use p(3) in \<open>cases task; simp add: task_ended_def task_writes_def\<close>)
  show ?thesis
    using refresh_step_ok[OF x wf key len p(2,3) tok settled st] refresh_writer_step[OF ex pk ok p k', of cl'] by blast
qed

text \<open>The steps of a key generation, and of a refresh of an unknown key.\<close>

lemma dealt_keygen:
  assumes x: "lawful x" and wf: "cluster_wf (cl :: 's Cluster)"
    and deal: "fst (keygen_deal (C x) (cl_t cl) (cl_n cl) (cl_n cl) (replicate (cl_n cl) (scalar_zero (C x))) [] g) = r"
  obtains cs coms where "r = Ok (evals (cl_n cl) cs, coms)" and "length cs = cl_t cl" and "dealt (C x) coms cs"
proof (rule keygen_dealt[OF x wf, of g])
  fix cs let ?secrets = "map (\<lambda>d. g !! (d * cl_t cl)) [0..<cl_n cl]"
  assume cs: "length cs = cl_t cl" "hd cs = sum_list ?secrets"
    "keygen_deal (C x) (cl_t cl) (cl_n cl) (cl_n cl) (replicate (cl_n cl) (scalar_zero (C x))) [] g =
      (Ok (evals (cl_n cl) cs, map (public_from_scalar (C x)) ?secrets), sdrop (cl_n cl * cl_t cl) g)"
  have "dealt (C x) (map (public_from_scalar (C x)) ?secrets) cs"
    unfolding dealt_def aggregate[OF x] cs(2) by simp
  with cs(1,3) deal show thesis by (intro that[of cs]) auto
qed

lemma early_writer_step:
  assumes ex: "exclusive ts key"
    and ok: "\<And>q other. ts q = Some other \<Longrightarrow> task_key other = key \<Longrightarrow> early_ok (C x) cl other"
    and p: "ts p = Some task" "task_key task = key" "task_writes task"
    and new: "task_key task' = key" "cl_keys cl' key = None" "early_ok (C x) cl' task'"
  shows "key_inv (C x) cl' (ts(p \<mapsto> task')) key"
proof -
  have "early_ok (C x) cl' other" if q: "q \<noteq> p" "ts q = Some other" "task_key other = key" for q other
  proof -
    have "task_ended other" using ex p q unfolding exclusive_def by metis
    with ok[OF q(2,3)] show ?thesis by (cases other) (auto simp: task_ended_def)
  qed
  with new show ?thesis by (auto simp: key_inv_def)
qed

lemma publish_step_inv:
  assumes ex: "exclusive ts key"
    and ok: "\<And>q other. ts q = Some other \<Longrightarrow> task_key other = key \<Longrightarrow> early_ok (C x) cl other"
    and p: "ts p = Some task" "task_key task = key" and task: "task = Keygen_Publish key coms"
    and cs: "length cs = cl_t cl" "held cl key = map Some (evals (cl_n cl) cs)" "dealt (C x) coms cs"
    and pk: "aggregate_public (C x) coms = Some pk" and st: "call_step (C x) tm g cl task = (cl', task')"
  shows "key_inv (C x) cl' (ts(p \<mapsto> task')) key"
proof -
  have w: "task_writes task" by (simp add: task task_writes_def)
  have "task_ok (C x) cl' cs other" if q: "q \<noteq> p" "ts q = Some other" "task_key other = key" for q other
  proof (rule early_ended_ok)
    show "task_ended other" using ex p w q unfolding exclusive_def by metis
  qed (rule ok[OF q(2,3)])
  with task pk st p cs show ?thesis
    by (intro writer_step[OF ex p w, where cs' = cs]) (auto simp: dealt_def held_def)
qed

lemma early_step_ok:
  assumes x: "lawful x" and wf: "cluster_wf (cl :: 's Cluster)" and key: "cl_keys cl key = None"
    and p: "task_key task = key" "task_writes task" and tok: "early_ok (C x) cl task"
    and st: "call_step (C x) tm g cl task = (cl', task')"
    and pub: "\<And>coms. task = Keygen_Publish key coms \<Longrightarrow> aggregate_public (C x) coms = None"
  shows "cl_keys cl' key = None \<and> early_ok (C x) cl' task'"
proof (cases task)
  case (Keygen_Deal k)
  obtain cs coms where "fst (keygen_deal (C x) (cl_t cl) (cl_n cl) (cl_n cl)
      (replicate (cl_n cl) (scalar_zero (C x))) [] g) = Ok (evals (cl_n cl) cs, coms)"
      "length cs = cl_t cl" "dealt (C x) coms cs"
    by (rule dealt_keygen[OF x wf refl])
  with Keygen_Deal st p(1) key show ?thesis by auto
next
  case (Keygen_Put k i agg coms)
  have n: "length (cl_nodes cl) = cl_n cl" by (rule wf_length[OF wf])
  have hl: "length (held cl key) = cl_n cl" by (simp add: held_def n)
  obtain cs where cs: "length cs = cl_t cl" "agg = evals (cl_n cl) cs" "i \<le> cl_n cl"
      "take i (held cl key) = map Some (take i agg)" "dealt (C x) coms cs"
    using Keygen_Put tok p(1) by auto
  show ?thesis
  proof (cases "i < cl_n cl")
    case True
    have "take (Suc i) ((held cl key)[i := Some (agg ! i)]) = map Some (take (Suc i) agg)"
      using True hl cs(2,4) by (simp add: take_Suc_conv_app_nth)
    with Keygen_Put True st p(1) key n cs show ?thesis by (auto simp: store_share_frame)
  next
    case False
    with Keygen_Put st p(1) key n hl cs show ?thesis by auto
  qed
qed (use st p key tok pub in \<open>auto simp: task_writes_def split: if_splits\<close>)

lemma early_step_inv:
  assumes x: "lawful x" and wf: "cluster_wf (cl :: 's Cluster)" and ex: "exclusive ts key"
    and key: "cl_keys cl key = None"
    and ok: "\<And>q other. ts q = Some other \<Longrightarrow> task_key other = key \<Longrightarrow> early_ok (C x) cl other"
    and p: "ts p = Some task" "task_key task = key" "task_writes task"
    and st: "call_step (C x) tm g cl task = (cl', task')"
  shows "key_inv (C x) cl' (ts(p \<mapsto> task')) key"
proof (cases "\<exists>coms pk. task = Keygen_Publish key coms \<and> aggregate_public (C x) coms = Some pk")
  case True
  then obtain coms pk where task: "task = Keygen_Publish key coms" and pk: "aggregate_public (C x) coms = Some pk"
    by blast
  obtain cs where cs: "length cs = cl_t cl" "held cl key = map Some (evals (cl_n cl) cs)" "dealt (C x) coms cs"
    using ok[OF p(1,2)] task by auto
  show ?thesis by (rule publish_step_inv[OF ex ok p(1,2) task cs pk st])
next
  case False
  have "cl_keys cl' key = None \<and> early_ok (C x) cl' task'"
    by (rule early_step_ok[OF x wf key p(2,3) ok[OF p(1,2)] st]) (use False in auto)
  moreover have "task_key task' = key" using call_step_key[OF st] p(2) by simp
  ultimately show ?thesis by (intro early_writer_step[OF ex ok p]) auto
qed

text \<open>Every step of every task keeps the invariant.\<close>

lemma run_step_inv:
  assumes x: "lawful x" and inv: "conc_inv (C x) (cl, ts)" and p: "ts p = Some task"
    and st: "call_step (C x) tm g cl task = (cl', task')"
  shows "conc_inv (C x) (cl', ts(p \<mapsto> task'))"
proof -
  have wf: "cluster_wf cl" and ex: "exclusive ts key" and ki: "key_inv (C x) cl ts key" for key
    using inv by (simp_all add: conc_inv_def)
  let ?key = "task_key task"
  have "key_inv (C x) cl' (ts(p \<mapsto> task')) ?key"
  proof (cases "task_writes task")
    case False
    show ?thesis using sign_step_inv[OF x wf ex ki p refl False st] by simp
  next
    case True
    show ?thesis
    proof (cases "cl_keys cl ?key")
      case None
      have "early_ok (C x) cl other" if "ts q = Some other" "task_key other = ?key" for q other
        using ki[of ?key] None that by (auto simp: key_inv_def)
      from early_step_inv[OF x wf ex None this p refl True st] show ?thesis by simp
    next
      case (Some info)
      then obtain cs where cs: "ki_public_key info = public_from_scalar (C x) (hd cs)" "key_ok (C x) cl ts ?key cs"
        using ki[of ?key] by (auto simp: key_inv_def)
      hence "task_ok (C x) cl cs task" using p by (auto simp: key_ok_def)
      from refresh_step_inv[OF x wf ex Some cs p refl True this st] show ?thesis .
    qed
  qed
  moreover have "key_inv (C x) cl' (ts(p \<mapsto> task')) k" if "k \<noteq> ?key" for k
  proof -
    have "key_inv (C x) cl' (ts(p \<mapsto> task')) k = key_inv (C x) cl ts k"
      by (rule key_inv_cong) (use call_step_frame[OF st] call_step_key[OF st] p that in auto)
    with ki show ?thesis by simp
  qed
  ultimately have "key_inv (C x) cl' (ts(p \<mapsto> task')) k" for k by (cases "k = ?key") auto
  moreover have "exclusive (ts(p \<mapsto> task')) k" for k by (rule exclusive_step[OF ex p st])
  ultimately show ?thesis using call_step_wf[OF st wf] by (simp add: conc_inv_def)
qed

end

section \<open>Lemmas: runs under the lock\<close>

lemma new_call_cases:
  assumes "new_call cl ts task"
  obtains key msg where "task = Sign_Start key msg" | key where "task = Refresh_Start key"
    | key where "task = Keygen_Start key" "cl_keys cl key = None"
  using assms by (cases task) (auto simp: new_call_def)

lemma writes_not_ended: "task_writes task \<Longrightarrow> \<not> task_ended task"
  by (cases task) (auto simp: task_writes_def task_ended_def)

lemma spawn_inv:
  assumes inv: "conc_inv C (cl, ts)" and p: "ts p = None" and adm: "key_locked cl ts task"
  shows "conc_inv C (cl, ts(p \<mapsto> task))"
proof -
  have wf: "cluster_wf cl" and ex: "exclusive ts key" and ki: "key_inv C cl ts key" for key
    using inv by (simp_all add: conc_inv_def)
  have nc: "new_call cl ts task" using adm by (simp add: key_locked_def)
  have "exclusive (ts(p \<mapsto> task)) key" for key
    unfolding exclusive_def
  proof (intro allI impI)
    fix q r a b assume "q \<noteq> r" "(ts(p \<mapsto> task)) q = Some a" "(ts(p \<mapsto> task)) r = Some b"
      "task_key a = key" "task_key b = key" "task_writes a"
    with ex[of key] adm writes_not_ended[of a] show "task_ended b"
      unfolding exclusive_def key_locked_def by (cases "q = p"; cases "r = p"; simp; metis)
  qed
  moreover have "key_inv C cl (ts(p \<mapsto> task)) key" for key
  proof (cases "task_key task = key")
    case False
    have "key_inv C cl (ts(p \<mapsto> task)) key = key_inv C cl ts key"
      by (rule key_inv_cong) (use False p in auto)
    with ki show ?thesis by simp
  next
    case True
    have new: "early_ok C cl task" "cl_keys cl key \<noteq> None \<Longrightarrow> task_ok C cl cs task" "\<not> mid_write task" for cs
      using nc True by (cases rule: new_call_cases; auto simp: mid_write_def)+
    show ?thesis
    proof (cases "cl_keys cl key")
      case None
      with ki[of key] new(1) show ?thesis by (auto simp: key_inv_def)
    next
      case (Some info)
      with ki[of key] obtain cs where cs: "ki_public_key info = public_from_scalar C (hd cs)" "key_ok C cl ts key cs"
        by (auto simp: key_inv_def)
      have "key_ok C cl (ts(p \<mapsto> task)) key cs"
        using cs(2) new(2,3) Some p unfolding key_ok_def by (auto split: if_splits) (metis option.distinct(1))
      with cs(1) Some show ?thesis by (auto simp: key_inv_def)
    qed
  qed
  ultimately show ?thesis using wf by (simp add: conc_inv_def)
qed

lemma conc_inv_cong:
  assumes "cl_t cl' = cl_t cl" "cl_n cl' = cl_n cl" "cl_keys cl' = cl_keys cl"
    and "map nd_index (cl_nodes cl') = map nd_index (cl_nodes cl)" and "\<And>key. held cl' key = held cl key"
  shows "conc_inv C (cl', ts) = conc_inv C (cl, ts)"
proof -
  have "key_inv C cl' ts key = key_inv C cl ts key" for key
    by (rule key_inv_cong) (simp_all add: assms)
  thus ?thesis using assms(1,2,4) by (simp add: conc_inv_def cluster_wf_def)
qed

lemma conc_inv_set_online: "conc_inv C (set_online i b cl, ts) = conc_inv C (cl, ts)"
  by (rule conc_inv_cong) (simp_all add: set_online_def held_def update_first_keep)

lemma conc_inv_set_delay: "conc_inv C (set_delay i ms cl, ts) = conc_inv C (cl, ts)"
  by (rule conc_inv_cong) (simp_all add: set_delay_def held_def update_first_keep)

lemma conc_inv_start:
  assumes "cluster_inv C cl"
  shows "conc_inv C (cl, Map.empty)"
proof -
  have wf: "cluster_wf cl" using assms by (simp add: cluster_inv_def)
  have idx: "map nd_index (cl_nodes cl) = map of_nat [1..<Suc (cl_n cl)]" using wf by (simp add: cluster_wf_def)
  have "key_inv C cl Map.empty key" for key
    using assms sharing_iff[OF idx]
    by (auto simp: key_inv_def key_ok_def cluster_inv_def held_def split: option.split) metis
  with wf show ?thesis by (simp add: conc_inv_def exclusive_def)
qed

context curve_family
begin

lemma conc_step_inv:
  assumes x: "lawful x" and "conc_step (C x) tm key_locked \<sigma> \<sigma>'" and "conc_inv (C x) \<sigma>"
  shows "conc_inv (C x) \<sigma>'"
  using assms(2,3)
  by (cases rule: conc_step.cases)
    (auto simp: conc_inv_set_online conc_inv_set_delay intro: spawn_inv run_step_inv[OF x])

lemma conc_run_inv:
  assumes x: "lawful x" and "conc_run (C x) tm key_locked \<sigma> \<sigma>'" and "conc_inv (C x) \<sigma>"
  shows "conc_inv (C x) \<sigma>'"
  using assms(2,3) by (induction rule: rtranclp_induct) (auto intro: conc_step_inv[OF x])

end

lemma locked_run_inv:
  assumes "lawful_curve K XD (C :: 's :: field curve)" and "indices_distinct TYPE('s) n"
    and "cluster_reach C tm t n cl0" and "conc_run C tm key_locked (cl0, Map.empty) \<sigma>"
  shows "conc_inv C \<sigma>"
  using assms(1)
proof (cases rule: lawful_curve_cases)
  case 1
  have "conc_inv C (cl0, Map.empty)" by (rule conc_inv_start[OF lawful_reach_inv[OF assms(1-3)]])
  with secp.conc_run_inv[OF 1(2)] assms(4) show ?thesis unfolding 1(1) by blast
next
  case 2
  have "conc_inv C (cl0, Map.empty)" by (rule conc_inv_start[OF lawful_reach_inv[OF assms(1-3)]])
  with ed.conc_run_inv[OF 2(2)] assms(4) show ?thesis unfolding 2(1) by blast
qed

lemma conc_inv_signature:
  assumes "conc_inv C (cl, ts)" and "ts p = Some (Sign_Done key msg (Ok sig))"
  obtains info where "cl_keys cl key = Some info" and "curve_verify C (ki_public_key info) msg sig"
proof -
  have ki: "key_inv C cl ts key" using assms(1) by (simp add: conc_inv_def)
  have "cl_keys cl key \<noteq> None"
  proof
    assume "cl_keys cl key = None"
    with ki assms(2) show False by (fastforce simp: key_inv_def)
  qed
  then obtain info where key: "cl_keys cl key = Some info" by blast
  with ki obtain cs where cs: "ki_public_key info = public_from_scalar C (hd cs)" "key_ok C cl ts key cs"
    by (auto simp: key_inv_def)
  hence "task_ok C cl cs (Sign_Done key msg (Ok sig))"
    using assms(2) unfolding key_ok_def by (metis task_key.simps(4))
  hence "curve_verify C (ki_public_key info) msg sig" unfolding cs(1) by simp
  thus ?thesis by (rule that[OF key])
qed

lemma conc_inv_idle:
  assumes "conc_inv C (cl, ts)" and idle: "\<And>p task. ts p = Some task \<Longrightarrow> task_ended task"
  shows "cluster_inv C cl"
proof -
  have wf: "cluster_wf cl" using assms(1) by (simp add: conc_inv_def)
  have idx: "map nd_index (cl_nodes cl) = map of_nat [1..<Suc (cl_n cl)]" using wf by (simp add: cluster_wf_def)
  have "\<exists>cs. sharing cl key cs \<and> ki_public_key info = public_from_scalar C (hd cs)"
    if key: "cl_keys cl key = Some info" for key info
  proof -
    have "key_inv C cl ts key" using assms(1) by (simp add: conc_inv_def)
    with key obtain cs where cs: "ki_public_key info = public_from_scalar C (hd cs)" "key_ok C cl ts key cs"
      by (auto simp: key_inv_def)
    have "\<not> mid_write task" if "ts p = Some task" for p task
      using idle[OF that] by (cases task) (auto simp: task_ended_def mid_write_def)
    with cs(2) have "sharing cl key cs" unfolding sharing_iff[OF idx] key_ok_def held_def by blast
    with cs(1) show ?thesis by blast
  qed
  with wf show ?thesis by (auto simp: cluster_inv_def)
qed

section \<open>Properties\<close>

text \<open>
  (C18) One lock per key is enough. Let any number of calls run on a cluster in any interleaving of
  their steps, with nodes failing and slowing down in between, where a refresh or key generation
  excludes other calls on its key. Then every signature a call returns verifies under the stored
  public key of its key, and whenever no call is under way every quorum of nodes holds one secret
  per key, the one behind its public key.
\<close>
theorem locked_calls_safe:
  assumes "lawful_curve K XD (C :: 's :: field curve)" and "indices_distinct TYPE('s) n"
    and "cluster_reach C tm t n cl0" and "conc_run C tm key_locked (cl0, Map.empty) (cl, ts)"
  shows "(\<forall>p key msg sig. ts p = Some (Sign_Done key msg (Ok sig)) \<longrightarrow>
      (\<exists>info. cl_keys cl key = Some info \<and> curve_verify C (ki_public_key info) msg sig)) \<and>
    ((\<forall>p task. ts p = Some task \<longrightarrow> task_ended task) \<longrightarrow>
      (\<forall>key info. cl_keys cl key = Some info \<longrightarrow>
        (\<exists>s. quorum_secret C cl key s \<and> ki_public_key info = public_from_scalar C s)))"
proof (intro conjI allI impI)
  have inv: "conc_inv C (cl, ts)" by (rule locked_run_inv[OF assms])
  show "\<exists>info. cl_keys cl key = Some info \<and> curve_verify C (ki_public_key info) msg sig"
    if "ts p = Some (Sign_Done key msg (Ok sig))" for p key msg sig
    by (rule conc_inv_signature[OF inv that]) blast
  assume "\<forall>p task. ts p = Some task \<longrightarrow> task_ended task"
  with conc_inv_idle[OF inv] have idle: "cluster_inv C cl" by blast
  fix key info assume key: "cl_keys cl key = Some info"
  obtain cs where "sharing cl key cs" "ki_public_key info = public_from_scalar C (hd cs)"
    by (rule inv_sharing[OF idle key])
  thus "\<exists>s. quorum_secret C cl key s \<and> ki_public_key info = public_from_scalar C s"
    using lawful_sharing_secret[OF assms(1) idle] by blast
qed

theorem locked_calls_safe_witness:
  "\<exists>ts s sig info. conc_run demo_secp demo_timer key_locked (demo_cluster, Map.empty) (demo_refreshed, ts) \<and>
    ts 0 = Some (Sign_Done ''k'' [1, 2] (Ok sig)) \<and> ts 1 = Some (Refresh_Done ''k'' (Ok (gf5_bytes G3, 2))) \<and>
    cl_keys demo_refreshed ''k'' = Some info \<and> curve_verify demo_secp (ki_public_key info) [1, 2] sig \<and>
    quorum_secret demo_secp demo_refreshed ''k'' s \<and> gf5_bytes G3 = public_from_scalar demo_secp s"
proof -
  let ?run = "conc_run demo_secp demo_timer key_locked"
  have "cl_t demo_cluster \<le> length (round_responders demo_timer demo_cluster)"
    by (simp add: round_responders_def demo_cluster_def demo_cluster_for_def demo_node_def)
  from secp.sign_verifies[OF demo_k256_laws demo_inv demo_key this demo_sharing, of "[1, 2]" "sconst G0"]
  obtain sig where sig: "fst (cluster_sign demo_secp demo_timer ''k'' [1, 2] demo_cluster (sconst G0)) = Ok sig"
    by (auto simp: gf5_numerals)
  let ?ts = "[0 \<mapsto> Sign_Done ''k'' [1, 2] (Ok sig), 1 \<mapsto> Refresh_Done ''k'' (Ok (gf5_bytes G3, 2))] :: gf5 tasks"
  have "?run (demo_cluster, Map.empty) (demo_cluster, [0 \<mapsto> Sign_Start ''k'' [1, 2]])"
    by (intro r_into_rtranclp cs_spawn) (simp_all add: key_locked_def new_call_def)
  moreover have "?run (demo_cluster, [0 \<mapsto> Sign_Start ''k'' [1, 2]]) (demo_cluster, [0 \<mapsto> Sign_Done ''k'' [1, 2] (Ok sig)])"
    using runs_to_conc[OF sign_alone[of demo_secp demo_timer "sconst G0" demo_cluster "''k''" "[1, 2]", unfolded sig],
        of "[0 \<mapsto> Sign_Start ''k'' [1, 2]]" 0 key_locked] by simp
  moreover have "?run (demo_cluster, [0 \<mapsto> Sign_Done ''k'' [1, 2] (Ok sig)])
      (demo_cluster, [0 \<mapsto> Sign_Done ''k'' [1, 2] (Ok sig), 1 \<mapsto> Refresh_Start ''k''])"
    by (intro r_into_rtranclp cs_spawn) (simp_all add: key_locked_def new_call_def task_ended_def)
  moreover have "?run (demo_cluster, [0 \<mapsto> Sign_Done ''k'' [1, 2] (Ok sig), 1 \<mapsto> Refresh_Start ''k'']) (demo_refreshed, ?ts)"
    using runs_to_conc[OF refresh_alone[OF demo_refresh],
        of "[0 \<mapsto> Sign_Done ''k'' [1, 2] (Ok sig), 1 \<mapsto> Refresh_Start ''k'']" 1 key_locked] by simp
  ultimately have run: "?run (demo_cluster, Map.empty) (demo_refreshed, ?ts)" by (meson rtranclp_trans)
  have idle: "\<forall>p task. ?ts p = Some task \<longrightarrow> task_ended task" by (auto simp: task_ended_def)
  have k: "cl_keys demo_refreshed ''k'' = Some \<lparr>ki_public_key = gf5_bytes G3, ki_epoch = 2\<rparr>"
    by (simp add: demo_refreshed_def demo_refreshed_for_def)
  have "\<exists>s. quorum_secret demo_secp demo_refreshed ''k'' s \<and> gf5_bytes G3 = public_from_scalar demo_secp s"
    using conjunct2[OF locked_calls_safe[OF demo_lawful demo_indices demo_reach run]] idle k by fastforce
  moreover have "\<exists>info. cl_keys demo_refreshed ''k'' = Some info \<and> curve_verify demo_secp (ki_public_key info) [1, 2] sig"
    using conjunct1[OF locked_calls_safe[OF demo_lawful demo_indices demo_reach run],
        THEN spec, of 0, THEN spec, of "''k''", THEN spec, of "[1, 2]", THEN spec, of sig] by simp
  ultimately show ?thesis using run by (intro exI[of _ ?ts]) auto
qed

end
