(* ===== verification/Engine_Tasks.thy ===== *)
theory Engine_Tasks
  imports Threshold Cluster_Locking
begin

text \<open>
  The calls of \<open>src/engine/threshold/mod.rs\<close> as a running server takes them: \<open>sign\<close>, \<open>dkg\<close> and
  \<open>rotate_key\<close> look up the key, await the operation of one of the two clusters, and finish with
  what it returned; any number of them interleave, each cluster operation step by step as in the
  theory \<open>Cluster_Tasks\<close>. Every run of the engine is a run of each of its clusters. So with one lock
  per key all answers are right; as the code is, a key rotation makes an overlapping \<open>sign\<close> answer
  with a signature of another secret, next to the right public key.
\<close>

section \<open>Calls\<close>

text \<open>A call of \<open>dkg\<close> carries the UUID it draws.\<close>

datatype engine_call =
    Call_Sign EngineSignRequest
  | Call_Dkg DkgParams string
  | Call_Rotate KeyId

datatype engine_answer =
    Ans_Sign "(EngineSignature, EngineError) result"
  | Ans_Dkg "(DkgOutcome, EngineError) result"
  | Ans_Rotate "(RotateOutcome, EngineError) result"

text \<open>The awaited operation, on the cluster that owns the key.\<close>

datatype ('s, 't) inner = On_Ecdsa "'s cluster_task" | On_Eddsa "'t cluster_task"

datatype ('s, 't) engine_task =
    Asked engine_call
  | Within engine_call "('s, 't) inner"
  | Answered engine_call "('s, 't) inner option" engine_answer

definition dkg_key :: "string \<Rightarrow> string" where
  "dkg_key u = ''mpc-'' @ u"

text \<open>The part of a call before the cluster operation.\<close>

fun open_call :: "('s, 't) ThresholdEngine \<Rightarrow> engine_call \<Rightarrow> ('s, 't) engine_task" where
  "open_call e (Call_Sign req) =
     (case th_keys e (er_key_id req) of
        None \<Rightarrow> Answered (Call_Sign req) None (Ans_Sign (Err (KeyNotFound (er_key_id req))))
      | Some sch \<Rightarrow>
          if scheme_of (scheme (er_chain req)) \<noteq> sch
          then Answered (Call_Sign req) None (Ans_Sign (Err (EngineDenied ''chain/scheme mismatch for key'')))
          else Within (Call_Sign req) (case sch of
            Ecdsa \<Rightarrow> On_Ecdsa (Sign_Start (er_key_id req) (er_payload req))
          | Eddsa \<Rightarrow> On_Eddsa (Sign_Start (er_key_id req) (er_payload req))))"
| "open_call e (Call_Dkg p u) =
     Within (Call_Dkg p u) (case scheme (dp_chain p) of
       EcdsaSecp256k1 \<Rightarrow> On_Ecdsa (Keygen_Start (dkg_key u))
     | Ed25519Scheme \<Rightarrow> On_Eddsa (Keygen_Start (dkg_key u)))"
| "open_call e (Call_Rotate key_id) =
     (case th_keys e key_id of
        None \<Rightarrow> Answered (Call_Rotate key_id) None (Ans_Rotate (Err (KeyNotFound key_id)))
      | Some sch \<Rightarrow> Within (Call_Rotate key_id) (case sch of
          Ecdsa \<Rightarrow> On_Ecdsa (Refresh_Start key_id)
        | Eddsa \<Rightarrow> On_Eddsa (Refresh_Start key_id)))"

text \<open>
  The part after it: the public key a \<open>sign\<close> returns is read now, and a \<open>dkg\<close> enters its key
  into the table.
\<close>

definition close_sign ::
  "EngineSignRequest \<Rightarrow> 's Cluster \<Rightarrow> (bytes, ThresholdError) result \<Rightarrow> engine_answer" where
  "close_sign req cl r =
     Ans_Sign (and_then (map_err threshold_to_engine_error r) (\<lambda>sig.
       and_then (ok_or (cluster_public_key cl (er_key_id req)) (KeyNotFound (er_key_id req))) (\<lambda>pk.
         Ok \<lparr>es_signature = sig, es_public_key = pk\<rparr>)))"

definition close_dkg ::
  "Scheme \<Rightarrow> string \<Rightarrow> (bytes, ThresholdError) result \<Rightarrow> ('s, 't) ThresholdEngine \<Rightarrow>
   engine_answer \<times> ('s, 't) ThresholdEngine" where
  "close_dkg sch key_id r e =
     (case r of
        Ok pk \<Rightarrow> (Ans_Dkg (Ok \<lparr>do_key_id = key_id, do_public_key = pk\<rparr>),
                  e\<lparr>th_keys := (th_keys e)(key_id \<mapsto> sch)\<rparr>)
      | Err x \<Rightarrow> (Ans_Dkg (Err (threshold_to_engine_error x)), e)
      | Panic \<Rightarrow> (Ans_Dkg Panic, e))"

definition close_rotate :: "KeyId \<Rightarrow> (bytes \<times> u64, ThresholdError) result \<Rightarrow> engine_answer" where
  "close_rotate key_id r =
     Ans_Rotate (and_then (map_err threshold_to_engine_error r) (\<lambda>(pk, ep).
       Ok \<lparr>ro_key_id = key_id, ro_public_key = pk, ro_epoch = ep\<rparr>))"

text \<open>What an ended operation returned.\<close>

definition sign_result :: "'s cluster_task \<Rightarrow> (bytes, ThresholdError) result option" where
  "sign_result task = (case task of Sign_Done _ _ r \<Rightarrow> Some r | _ \<Rightarrow> None)"

definition keygen_result :: "'s cluster_task \<Rightarrow> (bytes, ThresholdError) result option" where
  "keygen_result task = (case task of Keygen_Done _ r \<Rightarrow> Some r | _ \<Rightarrow> None)"

definition refresh_result :: "'s cluster_task \<Rightarrow> (bytes \<times> u64, ThresholdError) result option" where
  "refresh_result task = (case task of Refresh_Done _ r \<Rightarrow> Some r | _ \<Rightarrow> None)"

fun close_call ::
  "('s, 't) ThresholdEngine \<Rightarrow> engine_call \<Rightarrow> ('s, 't) inner \<Rightarrow> (engine_answer \<times> ('s, 't) ThresholdEngine) option" where
  "close_call e (Call_Sign req) (On_Ecdsa k) = map_option (\<lambda>r. (close_sign req (th_ecdsa e) r, e)) (sign_result k)"
| "close_call e (Call_Sign req) (On_Eddsa k') = map_option (\<lambda>r. (close_sign req (th_eddsa e) r, e)) (sign_result k')"
| "close_call e (Call_Dkg p u) (On_Ecdsa k) = map_option (\<lambda>r. close_dkg Ecdsa (dkg_key u) r e) (keygen_result k)"
| "close_call e (Call_Dkg p u) (On_Eddsa k') = map_option (\<lambda>r. close_dkg Eddsa (dkg_key u) r e) (keygen_result k')"
| "close_call e (Call_Rotate key_id) (On_Ecdsa k) = map_option (\<lambda>r. (close_rotate key_id r, e)) (refresh_result k)"
| "close_call e (Call_Rotate key_id) (On_Eddsa k') = map_option (\<lambda>r. (close_rotate key_id r, e)) (refresh_result k')"

section \<open>The running engine\<close>

type_synonym ('s, 't) engine_tasks = "nat \<rightharpoonup> ('s, 't) engine_task"

text \<open>What each cluster sees of the calls.\<close>

fun ecdsa_task :: "('s, 't) engine_task \<Rightarrow> 's cluster_task option" where
  "ecdsa_task (Within c (On_Ecdsa task)) = Some task"
| "ecdsa_task (Answered c (Some (On_Ecdsa task)) a) = Some task"
| "ecdsa_task _ = None"

fun eddsa_task :: "('s, 't) engine_task \<Rightarrow> 't cluster_task option" where
  "eddsa_task (Within c (On_Eddsa task)) = Some task"
| "eddsa_task (Answered c (Some (On_Eddsa task)) a) = Some task"
| "eddsa_task _ = None"

definition ecdsa_tasks :: "('s, 't) engine_tasks \<Rightarrow> 's tasks" where
  "ecdsa_tasks T p = Option.bind (T p) ecdsa_task"

definition eddsa_tasks :: "('s, 't) engine_tasks \<Rightarrow> 't tasks" where
  "eddsa_tasks T p = Option.bind (T p) eddsa_task"

text \<open>
  A call reaches its cluster operation when the cluster admits it. The code admits every call, with
  a new key identifier for a \<open>dkg\<close> (\<open>new_call\<close>); under a lock per key a call may have to wait
  (\<open>key_locked\<close>).
\<close>

definition admitted ::
  "'s admission \<Rightarrow> 't admission \<Rightarrow> ('s, 't) ThresholdEngine \<Rightarrow> ('s, 't) engine_tasks \<Rightarrow> ('s, 't) engine_task \<Rightarrow> bool" where
  "admitted adm1 adm2 e T task = (case task of
       Within c (On_Ecdsa k) \<Rightarrow> adm1 (th_ecdsa e) (ecdsa_tasks T) k
     | Within c (On_Eddsa k) \<Rightarrow> adm2 (th_eddsa e) (eddsa_tasks T) k
     | _ \<Rightarrow> True)"

inductive engine_step ::
  "('s :: field, 'p :: ab_group_add, 't :: field, 'q :: ab_group_add) threshold_env \<Rightarrow> 's admission \<Rightarrow> 't admission \<Rightarrow>
   ('s, 't) ThresholdEngine \<times> ('s, 't) engine_tasks \<Rightarrow> ('s, 't) ThresholdEngine \<times> ('s, 't) engine_tasks \<Rightarrow> bool"
  for E adm1 adm2 where
  es_call: "T p = None \<Longrightarrow> engine_step E adm1 adm2 (e, T) (e, T(p \<mapsto> Asked c))"
| es_open: "\<lbrakk>T p = Some (Asked c); admitted adm1 adm2 e T (open_call e c)\<rbrakk>
    \<Longrightarrow> engine_step E adm1 adm2 (e, T) (e, T(p \<mapsto> open_call e c))"
| es_ecdsa: "\<lbrakk>T p = Some (Within c (On_Ecdsa task));
      call_step (te_secp E) (te_timer E) g (th_ecdsa e) task = (cl, task')\<rbrakk>
    \<Longrightarrow> engine_step E adm1 adm2 (e, T) (e\<lparr>th_ecdsa := cl\<rparr>, T(p \<mapsto> Within c (On_Ecdsa task')))"
| es_eddsa: "\<lbrakk>T p = Some (Within c (On_Eddsa task));
      call_step (te_edwards E) (te_timer E) g (th_eddsa e) task = (cl, task')\<rbrakk>
    \<Longrightarrow> engine_step E adm1 adm2 (e, T) (e\<lparr>th_eddsa := cl\<rparr>, T(p \<mapsto> Within c (On_Eddsa task')))"
| es_close: "\<lbrakk>T p = Some (Within c i); close_call e c i = Some (a, e')\<rbrakk>
    \<Longrightarrow> engine_step E adm1 adm2 (e, T) (e', T(p \<mapsto> Answered c (Some i) a))"
| es_online1: "engine_step E adm1 adm2 (e, T) (e\<lparr>th_ecdsa := set_online i b (th_ecdsa e)\<rparr>, T)"
| es_online2: "engine_step E adm1 adm2 (e, T) (e\<lparr>th_eddsa := set_online i b (th_eddsa e)\<rparr>, T)"
| es_delay1: "engine_step E adm1 adm2 (e, T) (e\<lparr>th_ecdsa := set_delay i ms (th_ecdsa e)\<rparr>, T)"
| es_delay2: "engine_step E adm1 adm2 (e, T) (e\<lparr>th_eddsa := set_delay i ms (th_eddsa e)\<rparr>, T)"

abbreviation tasks_run ::
  "('s :: field, 'p :: ab_group_add, 't :: field, 'q :: ab_group_add) threshold_env \<Rightarrow> 's admission \<Rightarrow> 't admission \<Rightarrow>
   ('s, 't) ThresholdEngine \<times> ('s, 't) engine_tasks \<Rightarrow> ('s, 't) ThresholdEngine \<times> ('s, 't) engine_tasks \<Rightarrow> bool" where
  "tasks_run E adm1 adm2 \<equiv> (engine_step E adm1 adm2)\<^sup>*\<^sup>*"

section \<open>Lemmas: a run of the engine is a run of each cluster\<close>

lemma ecdsa_tasks_upd: "ecdsa_tasks (T(p \<mapsto> task)) = (ecdsa_tasks T)(p := ecdsa_task task)"
  by (auto simp: ecdsa_tasks_def)

lemma eddsa_tasks_upd: "eddsa_tasks (T(p \<mapsto> task)) = (eddsa_tasks T)(p := eddsa_task task)"
  by (auto simp: eddsa_tasks_def)

lemma ecdsa_tasks_within: "ecdsa_tasks (\<lambda>p. map_option (\<lambda>k. Within (c p) (On_Ecdsa k)) (ts p)) = ts"
  by (rule ext, rename_tac p, case_tac "ts p") (simp_all add: ecdsa_tasks_def)

lemma eddsa_tasks_within: "eddsa_tasks (\<lambda>p. map_option (\<lambda>k. Within (c p) (On_Eddsa k)) (ts p)) = ts"
  by (rule ext, rename_tac p, case_tac "ts p") (simp_all add: eddsa_tasks_def)

lemma tasks_empty [simp]: "ecdsa_tasks Map.empty = Map.empty" "eddsa_tasks Map.empty = Map.empty"
  by (auto simp: ecdsa_tasks_def eddsa_tasks_def)

lemma open_call_start:
  "ecdsa_task (open_call e c) = Some k \<Longrightarrow> open_call e c = Within c (On_Ecdsa k)"
  "eddsa_task (open_call e c) = Some k' \<Longrightarrow> open_call e c = Within c (On_Eddsa k')"
  by (cases c; auto split: option.splits if_splits Scheme.splits SignatureScheme.splits)+

lemma close_dkg_clusters:
  "th_ecdsa (snd (close_dkg sch k r e)) = th_ecdsa e" "th_eddsa (snd (close_dkg sch k r e)) = th_eddsa e"
  by (simp_all add: close_dkg_def split: result.split)

lemma close_call_clusters:
  assumes "close_call e c i = Some (a, e')"
  shows "th_ecdsa e' = th_ecdsa e" and "th_eddsa e' = th_eddsa e"
  using assms close_dkg_clusters[of Ecdsa _ _ e] close_dkg_clusters[of Eddsa _ _ e]
  by (cases c; cases i; auto; metis snd_conv)+

lemma spawn_run:
  "\<lbrakk>ts p = None; adm cl ts k\<rbrakk> \<Longrightarrow> conc_run C tm adm (cl, ts) (cl, ts(p \<mapsto> k))"
  by (intro r_into_rtranclp cs_spawn)

lemma step_run:
  "\<lbrakk>ts p = Some k; call_step C tm g cl k = (cl', k')\<rbrakk> \<Longrightarrow> conc_run C tm adm (cl, ts) (cl', ts(p \<mapsto> k'))"
  by (intro r_into_rtranclp cs_run)

lemma same_run: "ts p = o' \<Longrightarrow> conc_run C tm adm (cl, ts) (cl, ts(p := o'))"
  by (simp add: fun_upd_idem)

lemma engine_step_sim:
  assumes "engine_step E adm1 adm2 (e, T) (e', T')"
  shows "conc_run (te_secp E) (te_timer E) adm1 (th_ecdsa e, ecdsa_tasks T) (th_ecdsa e', ecdsa_tasks T') \<and>
    conc_run (te_edwards E) (te_timer E) adm2 (th_eddsa e, eddsa_tasks T) (th_eddsa e', eddsa_tasks T')"
  using assms
proof (cases rule: engine_step.cases)
  case (es_call p c)
  hence none: "ecdsa_tasks T p = None" "eddsa_tasks T p = None" by (simp_all add: ecdsa_tasks_def eddsa_tasks_def)
  thus ?thesis unfolding es_call(1,2) ecdsa_tasks_upd eddsa_tasks_upd by (auto intro!: same_run)
next
  case (es_open p c)
  hence none: "ecdsa_tasks T p = None" "eddsa_tasks T p = None" by (simp_all add: ecdsa_tasks_def eddsa_tasks_def)
  show ?thesis unfolding es_open(1,2) ecdsa_tasks_upd eddsa_tasks_upd
  proof (intro conjI)
    show "conc_run (te_secp E) (te_timer E) adm1 (th_ecdsa e, ecdsa_tasks T)
        (th_ecdsa e, (ecdsa_tasks T)(p := ecdsa_task (open_call e c)))"
      using none(1) open_call_start(1)[of e c] es_open(4)
      by (cases "ecdsa_task (open_call e c)") (simp_all add: admitted_def same_run spawn_run)
    show "conc_run (te_edwards E) (te_timer E) adm2 (th_eddsa e, eddsa_tasks T)
        (th_eddsa e, (eddsa_tasks T)(p := eddsa_task (open_call e c)))"
      using none(2) open_call_start(2)[of e c] es_open(4)
      by (cases "eddsa_task (open_call e c)") (simp_all add: admitted_def same_run spawn_run)
  qed
next
  case (es_ecdsa p c task g cl task')
  hence "ecdsa_tasks T p = Some task" "eddsa_tasks T p = None" by (simp_all add: ecdsa_tasks_def eddsa_tasks_def)
  thus ?thesis unfolding es_ecdsa(1,2) ecdsa_tasks_upd eddsa_tasks_upd
    using es_ecdsa(4) by (auto intro!: same_run step_run)
next
  case (es_eddsa p c task g cl task')
  hence "eddsa_tasks T p = Some task" "ecdsa_tasks T p = None" by (simp_all add: ecdsa_tasks_def eddsa_tasks_def)
  thus ?thesis unfolding es_eddsa(1,2) ecdsa_tasks_upd eddsa_tasks_upd
    using es_eddsa(4) by (auto intro!: same_run step_run)
next
  case (es_close p c i a)
  hence "ecdsa_tasks T p = ecdsa_task (Answered c (Some i) a)" "eddsa_tasks T p = eddsa_task (Answered c (Some i) a)"
    by (cases i; simp add: ecdsa_tasks_def eddsa_tasks_def)+
  thus ?thesis unfolding es_close(1) ecdsa_tasks_upd eddsa_tasks_upd close_call_clusters[OF es_close(3)]
    by (intro conjI same_run)
qed (auto intro: cs_online cs_delay)

lemma tasks_run_sim:
  assumes "tasks_run E adm1 adm2 (e, T) (e', T')"
  shows "conc_run (te_secp E) (te_timer E) adm1 (th_ecdsa e, ecdsa_tasks T) (th_ecdsa e', ecdsa_tasks T')"
    and "conc_run (te_edwards E) (te_timer E) adm2 (th_eddsa e, eddsa_tasks T) (th_eddsa e', eddsa_tasks T')"
  using assms
  by (induction rule: rtranclp_induct2; fastforce dest: engine_step_sim intro: rtranclp_trans)+

section \<open>Lemmas: what a cluster task is about\<close>

datatype cluster_op = Op_Sign string bytes | Op_Refresh string | Op_Keygen string

fun task_op :: "'s cluster_task \<Rightarrow> cluster_op" where
  "task_op (Sign_Start k m) = Op_Sign k m"
| "task_op (Sign_Poll k m _ _) = Op_Sign k m"
| "task_op (Sign_Wait k m _ _ _) = Op_Sign k m"
| "task_op (Sign_Done k m _) = Op_Sign k m"
| "task_op (Refresh_Start k) = Op_Refresh k"
| "task_op (Refresh_Lookup k) = Op_Refresh k"
| "task_op (Refresh_Round k _) = Op_Refresh k"
| "task_op (Refresh_Ack k _ _) = Op_Refresh k"
| "task_op (Refresh_Deal k) = Op_Refresh k"
| "task_op (Refresh_Read k _ _) = Op_Refresh k"
| "task_op (Refresh_Write k _ _ _) = Op_Refresh k"
| "task_op (Refresh_Bump k) = Op_Refresh k"
| "task_op (Refresh_Done k _) = Op_Refresh k"
| "task_op (Keygen_Start k) = Op_Keygen k"
| "task_op (Keygen_Round k _) = Op_Keygen k"
| "task_op (Keygen_Ack k _ _) = Op_Keygen k"
| "task_op (Keygen_Deal k) = Op_Keygen k"
| "task_op (Keygen_Put k _ _ _) = Op_Keygen k"
| "task_op (Keygen_Publish k _) = Op_Keygen k"
| "task_op (Keygen_Done k _) = Op_Keygen k"

lemma call_step_op: "call_step C tm g cl task = (cl', task') \<Longrightarrow> task_op task' = task_op task"
  by (cases task) (auto split: if_splits result.splits option.splits prod.splits)

definition is_start :: "'s cluster_task \<Rightarrow> bool" where
  "is_start task = (case task of Sign_Start _ _ \<Rightarrow> True | Refresh_Start _ \<Rightarrow> True | Keygen_Start _ \<Rightarrow> True | _ \<Rightarrow> False)"

lemma new_call_start: "new_call cl ts task \<Longrightarrow> is_start task"
  by (cases rule: new_call_cases) (auto simp: is_start_def)

lemma start_unique: "\<lbrakk>is_start a; is_start b; task_op a = task_op b\<rbrakk> \<Longrightarrow> a = b"
  by (cases a; cases b) (auto simp: is_start_def)

lemma result_Some:
  "sign_result task = Some r \<longleftrightarrow> (\<exists>k m. task = Sign_Done k m r)"
  "keygen_result task = Some r \<longleftrightarrow> (\<exists>k. task = Keygen_Done k r)"
  "refresh_result task = Some r2 \<longleftrightarrow> (\<exists>k. task = Refresh_Done k r2)"
  by (cases task; auto simp: sign_result_def keygen_result_def refresh_result_def)+

text \<open>
  Under the lock a stored public key never changes, and an ended operation reports the stored one.
\<close>

definition reports_stored :: "'s Cluster \<Rightarrow> 's cluster_task \<Rightarrow> bool" where
  "reports_stored cl task = (case task of
       Keygen_Done key (Ok pk) \<Rightarrow> cluster_public_key cl key = Some pk
     | Refresh_Done key (Ok (pk, ep)) \<Rightarrow> cluster_public_key cl key = Some pk
     | _ \<Rightarrow> True)"

lemma call_step_public_key:
  assumes "conc_inv C (cl, ts)" and "ts p = Some task" and "call_step C tm g cl task = (cl', task')"
    and "cluster_public_key cl key = Some pk"
  shows "cluster_public_key cl' key = Some pk"
proof -
  have "\<not> (\<exists>coms. task = Keygen_Publish key coms)"
  proof
    assume "\<exists>coms. task = Keygen_Publish key coms"
    moreover obtain info where "cl_keys cl key = Some info" using assms(4) by (auto simp: cluster_public_key_def)
    moreover have "key_inv C cl ts key" using assms(1) by (simp add: conc_inv_def)
    ultimately show False using assms(2) by (fastforce simp: key_inv_def key_ok_def)
  qed
  with assms(3,4) show ?thesis
    by (cases task) (auto simp: cluster_public_key_def store_share_frame split: if_splits result.splits option.splits prod.splits)
qed

lemma call_step_reports:
  assumes "call_step C tm g cl task = (cl', task')" and "reports_stored cl task"
  shows "reports_stored cl' task'"
  using assms
  by (cases task) (auto simp: reports_stored_def cluster_public_key_def split: if_splits result.splits option.splits prod.splits)

lemma reports_stored_mono:
  assumes "reports_stored cl task"
    and "\<And>key pk. cluster_public_key cl key = Some pk \<Longrightarrow> cluster_public_key cl' key = Some pk"
  shows "reports_stored cl' task"
  using assms by (auto simp: reports_stored_def split: cluster_task.splits result.splits prod.splits)

lemma conc_step_keeps:
  assumes inv: "conc_inv C (cl, ts)" and "conc_step C tm key_locked (cl, ts) (cl', ts')"
  shows "\<And>key pk. cluster_public_key cl key = Some pk \<Longrightarrow> cluster_public_key cl' key = Some pk"
    and "\<forall>p k. ts p = Some k \<longrightarrow> reports_stored cl k \<Longrightarrow> \<forall>p k. ts' p = Some k \<longrightarrow> reports_stored cl' k"
proof -
  show pk: "cluster_public_key cl' key = Some pk" if "cluster_public_key cl key = Some pk" for key pk
    using assms(2) that
    by (cases rule: conc_step.cases)
      (auto simp: set_online_def set_delay_def cluster_public_key_def[of "cl\<lparr>cl_nodes := _\<rparr>"]
        cluster_public_key_def[of cl] intro: call_step_public_key[OF inv])
  assume old: "\<forall>p k. ts p = Some k \<longrightarrow> reports_stored cl k"
  from assms(2) show "\<forall>p k. ts' p = Some k \<longrightarrow> reports_stored cl' k"
  proof (cases rule: conc_step.cases)
    case (cs_spawn p task)
    hence "reports_stored cl task" by (cases task) (auto simp: key_locked_def new_call_def reports_stored_def)
    with old cs_spawn show ?thesis by auto
  next
    case (cs_run p task g task')
    hence "reports_stored cl' task'" using old call_step_reports by blast
    with old cs_run reports_stored_mono[OF _ pk] show ?thesis by auto
  qed (use old reports_stored_mono[OF _ pk] in auto)
qed

context curve_family
begin

lemma locked_run_keeps:
  assumes x: "lawful x" and run: "conc_run (C x) tm key_locked (cl, ts) (cl', ts')" and inv: "conc_inv (C x) (cl, ts)"
  shows "cluster_public_key cl key = Some pk \<Longrightarrow> cluster_public_key cl' key = Some pk"
    and "\<forall>p k. ts p = Some k \<longrightarrow> reports_stored cl k \<Longrightarrow> \<forall>p k. ts' p = Some k \<longrightarrow> reports_stored cl' k"
proof -
  have "conc_inv (C x) (cl', ts') \<and>
    (cluster_public_key cl key = Some pk \<longrightarrow> cluster_public_key cl' key = Some pk) \<and>
    ((\<forall>p k. ts p = Some k \<longrightarrow> reports_stored cl k) \<longrightarrow> (\<forall>p k. ts' p = Some k \<longrightarrow> reports_stored cl' k))"
    using run
  proof (induction rule: rtranclp_induct2)
    case refl
    show ?case using inv by simp
  next
    case (step cl1 ts1 cl2 ts2)
    thus ?case using conc_step_inv[OF x step(2)] conc_step_keeps[OF _ step(2)] by blast
  qed
  thus "cluster_public_key cl key = Some pk \<Longrightarrow> cluster_public_key cl' key = Some pk"
    and "\<forall>p k. ts p = Some k \<longrightarrow> reports_stored cl k \<Longrightarrow> \<forall>p k. ts' p = Some k \<longrightarrow> reports_stored cl' k"
    by blast+
qed

end

section \<open>Lemmas: answers under the lock\<close>

fun call_fits :: "engine_call \<Rightarrow> ('s, 't) inner \<Rightarrow> bool" where
  "call_fits (Call_Sign req) (On_Ecdsa k) \<longleftrightarrow>
     scheme (er_chain req) = EcdsaSecp256k1 \<and> task_op k = Op_Sign (er_key_id req) (er_payload req)"
| "call_fits (Call_Sign req) (On_Eddsa k') \<longleftrightarrow>
     scheme (er_chain req) = Ed25519Scheme \<and> task_op k' = Op_Sign (er_key_id req) (er_payload req)"
| "call_fits (Call_Dkg p u) (On_Ecdsa k) \<longleftrightarrow> task_op k = Op_Keygen (dkg_key u)"
| "call_fits (Call_Dkg p u) (On_Eddsa k') \<longleftrightarrow> task_op k' = Op_Keygen (dkg_key u)"
| "call_fits (Call_Rotate key_id) (On_Ecdsa k) \<longleftrightarrow> task_op k = Op_Refresh key_id"
| "call_fits (Call_Rotate key_id) (On_Eddsa k') \<longleftrightarrow> task_op k' = Op_Refresh key_id"

text \<open>The public key the cluster that served a call has for a key.\<close>

fun stored_key :: "('s, 't) ThresholdEngine \<Rightarrow> ('s, 't) inner option \<Rightarrow> KeyId \<Rightarrow> bytes option" where
  "stored_key e (Some (On_Ecdsa _)) k = cluster_public_key (th_ecdsa e) k"
| "stored_key e (Some (On_Eddsa _)) k = cluster_public_key (th_eddsa e) k"
| "stored_key e None k = None"

text \<open>
  What a right answer is: a signature the chain's verifier accepts under the returned key, and in
  each answer the key's stored public key.
\<close>

fun answer_right ::
  "('s :: field, 'p :: ab_group_add, 't :: field, 'q :: ab_group_add) threshold_env \<Rightarrow> ('s, 't) ThresholdEngine \<Rightarrow>
   engine_call \<Rightarrow> ('s, 't) inner option \<Rightarrow> engine_answer \<Rightarrow> bool" where
  "answer_right E e (Call_Sign req) i (Ans_Sign (Ok s)) \<longleftrightarrow>
     chain_accepts E (er_chain req) (er_payload req) (es_signature s) (es_public_key s) \<and>
     stored_key e i (er_key_id req) = Some (es_public_key s)"
| "answer_right E e (Call_Dkg p u) i (Ans_Dkg (Ok out)) \<longleftrightarrow>
     do_key_id out = dkg_key u \<and> stored_key e i (do_key_id out) = Some (do_public_key out)"
| "answer_right E e (Call_Rotate k) i (Ans_Rotate (Ok ro)) \<longleftrightarrow>
     ro_key_id ro = k \<and> stored_key e i k = Some (ro_public_key ro)"
| "answer_right E e (Call_Sign req) i (Ans_Sign r) \<longleftrightarrow> True"
| "answer_right E e (Call_Dkg p u) i (Ans_Dkg r1) \<longleftrightarrow> True"
| "answer_right E e (Call_Rotate k) i (Ans_Rotate r2) \<longleftrightarrow> True"
| "answer_right E e c i a \<longleftrightarrow> False"

fun task_right ::
  "('s :: field, 'p :: ab_group_add, 't :: field, 'q :: ab_group_add) threshold_env \<Rightarrow> ('s, 't) ThresholdEngine \<Rightarrow>
   ('s, 't) engine_task \<Rightarrow> bool" where
  "task_right E e (Asked c) \<longleftrightarrow> True"
| "task_right E e (Within c i) \<longleftrightarrow> call_fits c i"
| "task_right E e (Answered c i a) \<longleftrightarrow> answer_right E e c i a"

lemma open_call_right: "task_right E e (open_call e c)"
  by (cases c) (auto split: option.splits Scheme.splits SignatureScheme.splits; metis scheme_of.simps SignatureScheme.exhaust Scheme.distinct(1))+

lemma stored_key_mono:
  assumes "\<And>key pk. cluster_public_key (th_ecdsa e) key = Some pk \<Longrightarrow> cluster_public_key (th_ecdsa e') key = Some pk"
    and "\<And>key pk. cluster_public_key (th_eddsa e) key = Some pk \<Longrightarrow> cluster_public_key (th_eddsa e') key = Some pk"
    and "stored_key e i k = Some pk"
  shows "stored_key e' i k = Some pk"
  using assms by (cases "(e, i, k)" rule: stored_key.cases) auto

lemma task_right_mono:
  assumes "\<And>key pk. cluster_public_key (th_ecdsa e) key = Some pk \<Longrightarrow> cluster_public_key (th_ecdsa e') key = Some pk"
    and "\<And>key pk. cluster_public_key (th_eddsa e) key = Some pk \<Longrightarrow> cluster_public_key (th_eddsa e') key = Some pk"
    and "task_right E e task"
  shows "task_right E e' task"
proof (cases task)
  case (Answered c i a)
  with assms(3) stored_key_mono[OF assms(1,2), where i = i] show ?thesis
    by (cases "(E, e, c, i, a)" rule: answer_right.cases) auto
qed (use assms(3) in auto)

lemma close_sign_right:
  assumes "conc_inv C (cl, ts)" and "ts p = Some (Sign_Done (er_key_id req) (er_payload req) r)"
    and "close_sign req cl r = Ans_Sign (Ok s)"
  shows "curve_verify C (es_public_key s) (er_payload req) (es_signature s) \<and>
    cluster_public_key cl (er_key_id req) = Some (es_public_key s)"
proof -
  obtain sig where sig: "r = Ok sig" "es_signature s = sig"
      "cluster_public_key cl (er_key_id req) = Some (es_public_key s)"
    using assms(3) by (auto simp: close_sign_def result_simps)
  obtain info where "cl_keys cl (er_key_id req) = Some info" "curve_verify C (ki_public_key info) (er_payload req) sig"
    by (rule conc_inv_signature[OF assms(1) assms(2)[unfolded sig(1)]])
  with sig show ?thesis by (simp add: cluster_public_key_def)
qed

lemma stored_key_cong:
  "\<lbrakk>th_ecdsa e' = th_ecdsa e; th_eddsa e' = th_eddsa e\<rbrakk> \<Longrightarrow> stored_key e' i k = stored_key e i k"
  by (cases "(e, i, k)" rule: stored_key.cases) auto

lemma answer_right_sign:
  assumes "\<And>s. close_sign req cl r = Ans_Sign (Ok s) \<Longrightarrow>
    chain_accepts E (er_chain req) (er_payload req) (es_signature s) (es_public_key s) \<and>
    stored_key e i (er_key_id req) = Some (es_public_key s)"
  shows "answer_right E e (Call_Sign req) i (close_sign req cl r)"
proof -
  obtain r' where "close_sign req cl r = Ans_Sign r'" by (simp add: close_sign_def)
  with assms show ?thesis by (cases r') auto
qed

lemma answer_right_dkg:
  assumes "close_dkg sch (dkg_key u) r e = (a, e')" and "\<And>pk. r = Ok pk \<Longrightarrow> stored_key e i (dkg_key u) = Some pk"
  shows "answer_right E e' (Call_Dkg p u) i a"
proof (cases r)
  case (Ok pk)
  have "stored_key e' i (dkg_key u) = stored_key e i (dkg_key u)"
    by (rule stored_key_cong) (use close_dkg_clusters[of sch "dkg_key u" r e] assms(1) in simp_all)
  thus ?thesis using assms Ok by (auto simp: close_dkg_def)
qed (use assms(1) in \<open>auto simp: close_dkg_def\<close>)

lemma answer_right_rotate:
  "(\<And>pk ep. r = Ok (pk, ep) \<Longrightarrow> stored_key e i k = Some pk) \<Longrightarrow> answer_right E e (Call_Rotate k) i (close_rotate k r)"
  by (cases r) (auto simp: close_rotate_def)

lemma close_call_right:
  assumes fits: "call_fits c i" and cl: "close_call e c i = Some (a, e')"
    and p: "T p = Some (Within c i)"
    and inv: "conc_inv (te_secp E) (th_ecdsa e, ecdsa_tasks T)" "conc_inv (te_edwards E) (th_eddsa e, eddsa_tasks T)"
    and rep: "\<forall>p k. ecdsa_tasks T p = Some k \<longrightarrow> reports_stored (th_ecdsa e) k"
      "\<forall>p k. eddsa_tasks T p = Some k \<longrightarrow> reports_stored (th_eddsa e) k"
  shows "answer_right E e' c (Some i) a"
proof -
  have view: "i = On_Ecdsa k \<Longrightarrow> ecdsa_tasks T p = Some k" "i = On_Eddsa k' \<Longrightarrow> eddsa_tasks T p = Some k'" for k k'
    using p by (simp_all add: ecdsa_tasks_def eddsa_tasks_def)
  have rep': "i = On_Ecdsa k \<Longrightarrow> reports_stored (th_ecdsa e) k" "i = On_Eddsa k' \<Longrightarrow> reports_stored (th_eddsa e) k'" for k k'
    using rep view by metis+
  show ?thesis
  proof (cases c)
    case (Call_Sign req)
    show ?thesis
    proof (cases i)
      case (On_Ecdsa k)
      with Call_Sign fits cl obtain r where r: "k = Sign_Done (er_key_id req) (er_payload req) r" "e' = e"
          "a = close_sign req (th_ecdsa e) r" "scheme (er_chain req) = EcdsaSecp256k1" by (auto simp: result_Some)
      show ?thesis unfolding Call_Sign r(2,3) On_Ecdsa
        by (rule answer_right_sign)
          (use close_sign_right[OF inv(1) view(1)[OF On_Ecdsa, unfolded r(1)]] r(4) in \<open>simp add: chain_accepts_def\<close>)
    next
      case (On_Eddsa k)
      with Call_Sign fits cl obtain r where r: "k = Sign_Done (er_key_id req) (er_payload req) r" "e' = e"
          "a = close_sign req (th_eddsa e) r" "scheme (er_chain req) = Ed25519Scheme" by (auto simp: result_Some)
      show ?thesis unfolding Call_Sign r(2,3) On_Eddsa
        by (rule answer_right_sign)
          (use close_sign_right[OF inv(2) view(2)[OF On_Eddsa, unfolded r(1)]] r(4) in \<open>simp add: chain_accepts_def\<close>)
    qed
  next
    case (Call_Dkg d u)
    with fits cl obtain sch r where r: "close_dkg sch (dkg_key u) r e = (a, e')"
        "i = On_Ecdsa (Keygen_Done (dkg_key u) r) \<or> i = On_Eddsa (Keygen_Done (dkg_key u) r)"
      by (cases i) (auto simp: result_Some)
    with rep' show ?thesis unfolding Call_Dkg
      by (intro answer_right_dkg[OF r(1)]) (auto simp: reports_stored_def)
  next
    case (Call_Rotate k)
    with fits cl obtain r where r: "i = On_Ecdsa (Refresh_Done k r) \<or> i = On_Eddsa (Refresh_Done k r)"
        "a = close_rotate k r" "e' = e" by (cases i) (auto simp: result_Some)
    with rep' show ?thesis unfolding Call_Rotate r(2,3)
      by (intro answer_right_rotate) (auto simp: reports_stored_def)
  qed
qed

text \<open>The invariant of an engine whose calls on a key take the lock.\<close>

definition locked_inv ::
  "('s :: field, 'p :: ab_group_add, 't :: field, 'q :: ab_group_add) threshold_env \<Rightarrow>
   ('s, 't) ThresholdEngine \<times> ('s, 't) engine_tasks \<Rightarrow> bool" where
  "locked_inv E = (\<lambda>(e, T).
     conc_inv (te_secp E) (th_ecdsa e, ecdsa_tasks T) \<and> conc_inv (te_edwards E) (th_eddsa e, eddsa_tasks T) \<and>
     (\<forall>p k. ecdsa_tasks T p = Some k \<longrightarrow> reports_stored (th_ecdsa e) k) \<and>
     (\<forall>p k. eddsa_tasks T p = Some k \<longrightarrow> reports_stored (th_eddsa e) k) \<and>
     (\<forall>p task. T p = Some task \<longrightarrow> task_right E e task))"

lemma engine_step_right:
  assumes inv: "locked_inv E (e, T)" and st: "engine_step E key_locked key_locked (e, T) (e', T')"
    and keep: "\<And>task. task_right E e task \<Longrightarrow> task_right E e' task"
  shows "\<forall>p task. T' p = Some task \<longrightarrow> task_right E e' task"
proof -
  have old: "task_right E e' task" if "T p = Some task" for p task
    using inv that keep by (auto simp: locked_inv_def)
  have "T' = T \<or> (\<exists>p task. T' = T(p \<mapsto> task) \<and> task_right E e' task)"
    using st
  proof (cases rule: engine_step.cases)
    case (es_call p c)
    have "task_right E e' (Asked c)" by simp
    with es_call(2) show ?thesis by blast
  next
    case (es_open p c)
    with open_call_right[of E e c] show ?thesis by blast
  next
    case (es_ecdsa p c task g cl task')
    from old[OF es_ecdsa(3)] have "task_right E e' (Within c (On_Ecdsa task'))"
      using call_step_op[OF es_ecdsa(4)] by (cases c) simp_all
    with es_ecdsa(2) show ?thesis by blast
  next
    case (es_eddsa p c task g cl task')
    from old[OF es_eddsa(3)] have "task_right E e' (Within c (On_Eddsa task'))"
      using call_step_op[OF es_eddsa(4)] by (cases c) simp_all
    with es_eddsa(2) show ?thesis by blast
  next
    case (es_close p c i a)
    from old[OF es_close(2)] inv have "answer_right E e' c (Some i) a"
      by (intro close_call_right[where T = T and p = p and e = e]) (use es_close in \<open>simp_all add: locked_inv_def\<close>)
    with es_close(1) show ?thesis by (metis task_right.simps(3))
  qed auto
  with old show ?thesis by (auto split: if_splits)
qed

lemma engine_step_inv:
  assumes E: "threshold_lawful E" and inv: "locked_inv E \<sigma>" and st: "engine_step E key_locked key_locked \<sigma> \<sigma>'"
  shows "locked_inv E \<sigma>'"
proof -
  obtain e T e' T' where \<sigma>: "\<sigma> = (e, T)" "\<sigma>' = (e', T')" by (metis prod.exhaust)
  have x: "k256_laws (te_k256 E)" "dalek_laws (te_ed E)" using E by (simp_all add: threshold_lawful_def)
  note run = conjunct1[OF engine_step_sim[OF st[unfolded \<sigma>]]] conjunct2[OF engine_step_sim[OF st[unfolded \<sigma>]]]
  have ci: "conc_inv (te_secp E) (th_ecdsa e, ecdsa_tasks T)" "conc_inv (te_edwards E) (th_eddsa e, eddsa_tasks T)"
    using inv by (simp_all add: \<sigma> locked_inv_def)
  have "task_right E e' task" if "task_right E e task" for task
    by (rule task_right_mono[OF secp.locked_run_keeps(1)[OF x(1) run(1) ci(1)] ed.locked_run_keeps(1)[OF x(2) run(2) ci(2)] that])
  from engine_step_right[OF inv[unfolded \<sigma>] st[unfolded \<sigma>] this]
    secp.conc_run_inv[OF x(1) run(1) ci(1)] ed.conc_run_inv[OF x(2) run(2) ci(2)]
    secp.locked_run_keeps(2)[OF x(1) run(1) ci(1)] ed.locked_run_keeps(2)[OF x(2) run(2) ci(2)] inv
  show ?thesis by (simp add: \<sigma> locked_inv_def)
qed

lemma tasks_run_inv:
  assumes "threshold_lawful E" and "threshold_inv E e0" and "tasks_run E key_locked key_locked (e0, Map.empty) \<sigma>"
  shows "locked_inv E \<sigma>"
  using assms(3)
proof (induction rule: rtranclp_induct)
  case base
  show ?case using assms(2) by (simp add: locked_inv_def threshold_inv_def conc_inv_start)
next
  case (step \<sigma> \<sigma>')
  show ?case by (rule engine_step_inv[OF assms(1) step.IH step.hyps(2)])
qed

section \<open>One side of the engine\<close>

text \<open>
  What the calls on one of the two clusters need to know of the engine: a cluster step is a step of
  the engine, and an admitted operation starts. Both clusters interpret it.
\<close>

locale engine_side =
  fixes E :: "('s :: field, 'p :: ab_group_add, 't :: field, 'q :: ab_group_add) threshold_env"
    and adm1 :: "'s admission" and adm2 :: "'t admission"
    and C :: "'a curve" and adm :: "'a admission"
    and get :: "('s, 't) ThresholdEngine \<Rightarrow> 'a Cluster"
    and put :: "'a Cluster \<Rightarrow> ('s, 't) ThresholdEngine \<Rightarrow> ('s, 't) ThresholdEngine"
    and on :: "'a cluster_task \<Rightarrow> ('s, 't) inner"
    and view :: "('s, 't) engine_tasks \<Rightarrow> 'a tasks"
  assumes get_put: "get (put cl e) = cl" and put_put: "put cl (put cl' e) = put cl e" and put_get: "put (get e) e = e"
    and put_open: "open_call (put cl e) c = open_call e c"
    and view_within: "view (\<lambda>p. map_option (\<lambda>k. Within (calls p) (on k)) (ts p)) = ts"
    and view_asked: "T p = None \<Longrightarrow> view (T(p \<mapsto> Asked c)) = view T"
    and start: "open_call e c = Within c (on k) \<Longrightarrow> is_start k"
    and side_open: "\<lbrakk>T p = Some (Asked c); open_call e c = Within c (on k); adm (get e) (view T) k\<rbrakk>
      \<Longrightarrow> engine_step E adm1 adm2 (e, T) (e, T(p \<mapsto> Within c (on k)))"
    and side_step: "\<lbrakk>T p = Some (Within c (on k)); call_step C (te_timer E) g (get e) k = (cl, k')\<rbrakk>
      \<Longrightarrow> engine_step E adm1 adm2 (e, T) (put cl e, T(p \<mapsto> Within c (on k')))"
    and side_online: "engine_step E adm1 adm2 (e, T) (put (set_online i b (get e)) e, T)"
    and side_delay: "engine_step E adm1 adm2 (e, T) (put (set_delay i ms (get e)) e, T)"
begin

text \<open>What an operation does alone on its cluster it does within a call of the engine.\<close>

lemma runs_to_within:
  assumes "runs_to C (te_timer E) g (get e, k) (cl', k')" and "T p = Some (Within c (on k))"
  shows "tasks_run E adm1 adm2 (e, T) (put cl' e, T(p \<mapsto> Within c (on k')))"
proof -
  from assms(1) obtain m where "(task_once C (te_timer E) g ^^ m) (get e, k) = (cl', k')"
    by (auto simp: runs_to_def)
  thus ?thesis
  proof (induction m arbitrary: cl' k')
    case 0
    thus ?case using assms(2) by (auto simp: fun_upd_idem put_get)
  next
    case (Suc m)
    obtain cl1 k1 where 1: "(task_once C (te_timer E) g ^^ m) (get e, k) = (cl1, k1)" by fastforce
    with Suc.prems have "call_step C (te_timer E) g cl1 k1 = (cl', k')" by (simp add: task_once_def)
    hence "engine_step E adm1 adm2 (put cl1 e, T(p \<mapsto> Within c (on k1)))
        (put cl' (put cl1 e), (T(p \<mapsto> Within c (on k1)))(p \<mapsto> Within c (on k')))"
      by (intro side_step[of _ p]) (simp_all add: get_put)
    from rtranclp.rtrancl_into_rtrancl[OF Suc.IH[OF 1] this] show ?case by (simp only: put_put fun_upd_upd)
  qed
qed

lemma call_alone:
  assumes "open_call e c = Within c (on k)" and "adm (get e) (view [0 \<mapsto> Asked c]) k"
    and "runs_to C (te_timer E) g (get e, k) (cl', k')"
    and "close_call (put cl' e) c (on k') = Some (a, e')"
  shows "tasks_run E adm1 adm2 (e, [0 \<mapsto> Asked c]) (e', [0 \<mapsto> Answered c (Some (on k')) a])"
proof -
  have "tasks_run E adm1 adm2 (e, [0 \<mapsto> Asked c]) (e, [0 \<mapsto> Within c (on k)])"
    using side_open[of "[0 \<mapsto> Asked c]" 0 c e k] assms(1,2) by auto
  also have "tasks_run E adm1 adm2 (e, [0 \<mapsto> Within c (on k)]) (put cl' e, [0 \<mapsto> Within c (on k')])"
    using runs_to_within[OF assms(3), of "[0 \<mapsto> Within c (on k)]" 0 c] by simp
  also have "tasks_run E adm1 adm2 (put cl' e, [0 \<mapsto> Within c (on k')]) (e', [0 \<mapsto> Answered c (Some (on k')) a])"
    using es_close[of "[0 \<mapsto> Within c (on k')]" 0, OF _ assms(4)] by auto
  finally show ?thesis .
qed

text \<open>
  Every run of the cluster alone whose operations the engine's calls \<open>calls\<close> start is a run of the
  engine.
\<close>

abbreviation as_calls :: "(nat \<Rightarrow> engine_call) \<Rightarrow> 'a tasks \<Rightarrow> ('s, 't) engine_tasks" where
  "as_calls calls ts \<equiv> \<lambda>p. map_option (\<lambda>k. Within (calls p) (on k)) (ts p)"

lemma within_upd: "(as_calls calls ts)(p \<mapsto> Within (calls p) (on k)) = as_calls calls (ts(p \<mapsto> k))"
  by auto

lemma conc_step_within:
  assumes step: "conc_step C (te_timer E) adm (cl, ts) (cl', ts')"
    and op: "\<And>p k. ts' p = Some k \<Longrightarrow> \<exists>k0. open_call e (calls p) = Within (calls p) (on k0) \<and> task_op k0 = task_op k"
    and start': "\<And>cl ts task. adm cl ts task \<Longrightarrow> is_start task"
  shows "tasks_run E adm1 adm2 (put cl e, as_calls calls ts) (put cl' e, as_calls calls ts')"
  using step
proof (cases rule: conc_step.cases)
  case (cs_spawn p task)
  let ?T = "(as_calls calls ts)(p \<mapsto> Asked (calls p))"
  obtain k0 where "open_call e (calls p) = Within (calls p) (on k0)" "task_op k0 = task_op task"
    using op[of p task] cs_spawn(2) by auto
  hence o: "open_call (put cl e) (calls p) = Within (calls p) (on task)"
    using start_unique[OF start start'[OF cs_spawn(4)]] put_open by metis
  have "view ?T = ts" using view_asked[of "as_calls calls ts" p "calls p"] view_within[of calls ts] cs_spawn(3) by simp
  hence "engine_step E adm1 adm2 (put cl e, ?T) (put cl e, ?T(p \<mapsto> Within (calls p) (on task)))"
    by (intro side_open[OF _ o]) (simp_all add: get_put cs_spawn(4))
  moreover have "engine_step E adm1 adm2 (put cl e, as_calls calls ts) (put cl e, ?T)"
    by (rule es_call) (simp add: cs_spawn(3))
  ultimately have "tasks_run E adm1 adm2 (put cl e, as_calls calls ts)
      (put cl e, (as_calls calls ts)(p \<mapsto> Within (calls p) (on task)))"
    unfolding fun_upd_upd by (meson converse_rtranclp_into_rtranclp r_into_rtranclp)
  thus ?thesis unfolding cs_spawn(1,2) within_upd .
next
  case (cs_run p task g task')
  hence "engine_step E adm1 adm2 (put cl e, as_calls calls ts)
      (put cl' (put cl e), (as_calls calls ts)(p \<mapsto> Within (calls p) (on task')))"
    by (intro side_step[of _ p]) (simp_all add: get_put)
  thus ?thesis unfolding cs_run(1) within_upd put_put by (rule r_into_rtranclp)
next
  case (cs_online i b)
  with side_online[of "put cl e" "as_calls calls ts" i b] show ?thesis by (auto simp: get_put put_put)
next
  case (cs_delay i ms)
  with side_delay[of "put cl e" "as_calls calls ts" i ms] show ?thesis by (auto simp: get_put put_put)
qed

lemma conc_run_within:
  assumes "conc_run C (te_timer E) adm (get e, Map.empty) (cl', ts')"
    and "\<And>p k. ts' p = Some k \<Longrightarrow> \<exists>k0. open_call e (calls p) = Within (calls p) (on k0) \<and> task_op k0 = task_op k"
    and start': "\<And>cl ts task. adm cl ts task \<Longrightarrow> is_start task"
  shows "tasks_run E adm1 adm2 (e, Map.empty) (put cl' e, as_calls calls ts')"
  using assms(1,2)
proof (induction rule: rtranclp_induct2)
  case refl
  show ?case by (simp add: put_get)
next
  case (step cl ts cl' ts')
  have "\<exists>k'. ts' p = Some k' \<and> task_op k' = task_op k" if "ts p = Some k" for p k
    using step.hyps(2) that by (cases rule: conc_step.cases) (auto simp: call_step_op)
  hence "tasks_run E adm1 adm2 (e, Map.empty) (put cl e, as_calls calls ts)"
    using step.prems by (intro step.IH) metis
  with conc_step_within[OF step.hyps(2) step.prems start'] show ?case by (rule rtranclp_trans[rotated])
qed

end

interpretation ecdsa_side: engine_side E adm1 adm2 "te_secp E" adm1 th_ecdsa "\<lambda>cl. th_ecdsa_update (\<lambda>_. cl)" On_Ecdsa
  ecdsa_tasks for E adm1 adm2
proof unfold_locales
  show "open_call (e\<lparr>th_ecdsa := cl\<rparr>) c = open_call e c" for cl e c by (cases c) simp_all
  show "is_start k" if "open_call e c = Within c (On_Ecdsa k)" for e c k
    using that by (cases c) (auto simp: is_start_def split: option.splits if_splits Scheme.splits SignatureScheme.splits)
  show "engine_step E adm1 adm2 (e, T) (e, T(p \<mapsto> Within c (On_Ecdsa k)))"
    if "T p = Some (Asked c)" "open_call e c = Within c (On_Ecdsa k)" "adm1 (th_ecdsa e) (ecdsa_tasks T) k" for e T p c k
    using es_open[of T p c adm1 adm2 e E] that by (simp add: admitted_def)
qed (auto simp: ecdsa_tasks_within ecdsa_tasks_upd ecdsa_tasks_def
    intro: es_ecdsa es_online1 es_delay1)

interpretation eddsa_side: engine_side E adm1 adm2 "te_edwards E" adm2 th_eddsa "\<lambda>cl. th_eddsa_update (\<lambda>_. cl)" On_Eddsa
  eddsa_tasks for E adm1 adm2
proof unfold_locales
  show "open_call (e\<lparr>th_eddsa := cl\<rparr>) c = open_call e c" for cl e c by (cases c) simp_all
  show "is_start k" if "open_call e c = Within c (On_Eddsa k)" for e c k
    using that by (cases c) (auto simp: is_start_def split: option.splits if_splits Scheme.splits SignatureScheme.splits)
  show "engine_step E adm1 adm2 (e, T) (e, T(p \<mapsto> Within c (On_Eddsa k)))"
    if "T p = Some (Asked c)" "open_call e c = Within c (On_Eddsa k)" "adm2 (th_eddsa e) (eddsa_tasks T) k" for e T p c k
    using es_open[of T p c adm1 adm2 e E] that by (simp add: admitted_def)
qed (auto simp: eddsa_tasks_within eddsa_tasks_upd eddsa_tasks_def
    intro: es_eddsa es_online2 es_delay2)

section \<open>Lemmas: a call alone is the operation\<close>

text \<open>The engine \<open>e\<close> with the clusters and the key table of \<open>f\<close>; the calls draw no stored randomness.\<close>

definition settled :: "('s, 't) ThresholdEngine \<Rightarrow> ('s, 't) ThresholdEngine \<Rightarrow> ('s, 't) ThresholdEngine" where
  "settled e f = e\<lparr>th_ecdsa := th_ecdsa f, th_eddsa := th_eddsa f, th_keys := th_keys f\<rparr>"

lemma settled_same: "\<lbrakk>th_ecdsa f = th_ecdsa e; th_eddsa f = th_eddsa e; th_keys f = th_keys e\<rbrakk> \<Longrightarrow> settled e f = e"
  by (simp add: settled_def)

lemmas alone_ecdsa = ecdsa_side.call_alone[where ?adm1.0 = new_call and ?adm2.0 = new_call]

lemmas alone_eddsa = eddsa_side.call_alone[where ?adm1.0 = new_call and ?adm2.0 = new_call]

lemma refused_alone:
  assumes "open_call e c = Answered c None a"
  shows "tasks_run E adm1 adm2 (e, [0 \<mapsto> Asked c]) (e, [0 \<mapsto> Answered c None a])"
  using es_open[of "[0 \<mapsto> Asked c]" 0 c adm1 adm2 e E] by (auto simp: admitted_def assms)

lemma sign_call_alone:
  "\<exists>i. tasks_run E new_call new_call (e, [0 \<mapsto> Asked (Call_Sign req)])
     (e, [0 \<mapsto> Answered (Call_Sign req) i (Ans_Sign (fst (threshold_sign E req e)))])"
proof (cases "open_call e (Call_Sign req)")
  case (Within c i)
  hence c: "c = Call_Sign req" by (auto split: option.splits if_splits)
  let ?r = "\<lambda>C cl g. fst (cluster_sign C (te_timer E) (er_key_id req) (er_payload req) cl g)"
  show ?thesis
  proof (cases i)
    case (On_Ecdsa k)
    with Within have k: "k = Sign_Start (er_key_id req) (er_payload req)" and sch: "th_keys e (er_key_id req) = Some Ecdsa"
        "scheme_of (scheme (er_chain req)) = Ecdsa" by (auto split: option.splits if_splits Scheme.splits)
    have "close_sign req (th_ecdsa e) (?r (te_secp E) (th_ecdsa e) (th_rng_ecdsa e)) = Ans_Sign (fst (threshold_sign E req e))"
      by (simp add: close_sign_def threshold_sign_def sch case_prod_unfold Let_def)
    with alone_ecdsa[where E = E, OF Within[unfolded c On_Ecdsa k]
        _ sign_alone[of "te_secp E" _ "th_rng_ecdsa e"]] show ?thesis
      by (fastforce simp: new_call_def sign_result_def)
  next
    case (On_Eddsa k)
    with Within have k: "k = Sign_Start (er_key_id req) (er_payload req)" and sch: "th_keys e (er_key_id req) = Some Eddsa"
        "scheme_of (scheme (er_chain req)) = Eddsa" by (auto split: option.splits if_splits Scheme.splits)
    have "close_sign req (th_eddsa e) (?r (te_edwards E) (th_eddsa e) (th_rng_eddsa e)) = Ans_Sign (fst (threshold_sign E req e))"
      by (simp add: close_sign_def threshold_sign_def sch case_prod_unfold Let_def)
    with alone_eddsa[where E = E, OF Within[unfolded c On_Eddsa k]
        _ sign_alone[of "te_edwards E" _ "th_rng_eddsa e"]] show ?thesis
      by (fastforce simp: new_call_def sign_result_def)
  qed
next
  case (Answered c i a)
  hence "c = Call_Sign req" "i = None" "a = Ans_Sign (fst (threshold_sign E req e))"
    by (auto simp: threshold_sign_def split: option.splits if_splits)
  with refused_alone[of e c a] Answered show ?thesis by blast
qed (auto split: option.splits if_splits)

lemma rotate_call_alone:
  "\<exists>i. tasks_run E new_call new_call (e, [0 \<mapsto> Asked (Call_Rotate key)])
     (settled e (snd (threshold_rotate_key E key e)),
      [0 \<mapsto> Answered (Call_Rotate key) i (Ans_Rotate (fst (threshold_rotate_key E key e)))])"
proof (cases "th_keys e key")
  case None
  with refused_alone[of e "Call_Rotate key" "Ans_Rotate (Err (KeyNotFound key))" E new_call new_call] show ?thesis
    by (auto simp: threshold_rotate_key_def settled_same)
next
  case (Some sch)
  show ?thesis
  proof (cases sch)
    case Ecdsa
    obtain r cl g where rf: "refresh (te_secp E) (te_timer E) key (th_ecdsa e) (th_rng_ecdsa e) = (r, cl, g)"
      by (metis prod_cases3)
    have o: "open_call e (Call_Rotate key) = Within (Call_Rotate key) (On_Ecdsa (Refresh_Start key))" using Some Ecdsa by simp
    have "settled e (snd (threshold_rotate_key E key e)) = e\<lparr>th_ecdsa := cl\<rparr>"
        "close_rotate key r = Ans_Rotate (fst (threshold_rotate_key E key e))"
      using Some Ecdsa by (simp_all add: threshold_rotate_key_def rf settled_def close_rotate_def)
    with alone_ecdsa[where E = E, OF o _ refresh_alone[OF rf]] show ?thesis
      by (fastforce simp: new_call_def refresh_result_def)
  next
    case Eddsa
    obtain r cl g where rf: "refresh (te_edwards E) (te_timer E) key (th_eddsa e) (th_rng_eddsa e) = (r, cl, g)"
      by (metis prod_cases3)
    have o: "open_call e (Call_Rotate key) = Within (Call_Rotate key) (On_Eddsa (Refresh_Start key))" using Some Eddsa by simp
    have "settled e (snd (threshold_rotate_key E key e)) = e\<lparr>th_eddsa := cl\<rparr>"
        "close_rotate key r = Ans_Rotate (fst (threshold_rotate_key E key e))"
      using Some Eddsa by (simp_all add: threshold_rotate_key_def rf settled_def close_rotate_def)
    with alone_eddsa[where E = E, OF o _ refresh_alone[OF rf]] show ?thesis
      by (fastforce simp: new_call_def refresh_result_def)
  qed
qed

lemma dkg_call_alone:
  assumes fresh: "key_id_fresh e"
  shows "\<exists>i. tasks_run E new_call new_call (e, [0 \<mapsto> Asked (Call_Dkg p (shd (uuids (th_world e))))])
     (settled e (snd (threshold_dkg E p e)),
      [0 \<mapsto> Answered (Call_Dkg p (shd (uuids (th_world e)))) i (Ans_Dkg (fst (threshold_dkg E p e)))])"
proof -
  let ?u = "shd (uuids (th_world e))"
  have key: "next_key_id e = dkg_key ?u" by (simp add: next_key_id_def dkg_key_def)
  have new: "new_call (th_ecdsa e) (ecdsa_tasks [0 \<mapsto> Asked c]) (Keygen_Start (dkg_key ?u))"
      "new_call (th_eddsa e) (eddsa_tasks [0 \<mapsto> Asked c]) (Keygen_Start (dkg_key ?u))" for c
    using fresh by (auto simp: new_call_def key_id_fresh_def key ecdsa_tasks_upd eddsa_tasks_upd)
  show ?thesis
  proof (cases "scheme (dp_chain p)")
    case EcdsaSecp256k1
    obtain r cl g where kg: "keygen (te_secp E) (te_timer E) (dkg_key ?u) (th_ecdsa e) (th_rng_ecdsa e) = (r, cl, g)"
      by (metis prod_cases3)
    have o: "open_call e (Call_Dkg p ?u) = Within (Call_Dkg p ?u) (On_Ecdsa (Keygen_Start (dkg_key ?u)))"
      using EcdsaSecp256k1 by simp
    have "close_dkg Ecdsa (dkg_key ?u) r (e\<lparr>th_ecdsa := cl\<rparr>) =
        (Ans_Dkg (fst (threshold_dkg E p e)), settled e (snd (threshold_dkg E p e)))"
      using kg EcdsaSecp256k1
      by (cases r) (simp_all add: threshold_dkg_def close_dkg_def settled_def new_v4_def dkg_key_def Let_def)
    with alone_ecdsa[where E = E, OF o new(1) keygen_alone[OF kg]] show ?thesis
      by (fastforce simp: keygen_result_def)
  next
    case Ed25519Scheme
    obtain r cl g where kg: "keygen (te_edwards E) (te_timer E) (dkg_key ?u) (th_eddsa e) (th_rng_eddsa e) = (r, cl, g)"
      by (metis prod_cases3)
    have o: "open_call e (Call_Dkg p ?u) = Within (Call_Dkg p ?u) (On_Eddsa (Keygen_Start (dkg_key ?u)))"
      using Ed25519Scheme by simp
    have "close_dkg Eddsa (dkg_key ?u) r (e\<lparr>th_eddsa := cl\<rparr>) =
        (Ans_Dkg (fst (threshold_dkg E p e)), settled e (snd (threshold_dkg E p e)))"
      using kg Ed25519Scheme
      by (cases r) (simp_all add: threshold_dkg_def close_dkg_def settled_def new_v4_def dkg_key_def Let_def)
    with alone_eddsa[where E = E, OF o new(2) keygen_alone[OF kg]] show ?thesis
      by (fastforce simp: keygen_result_def)
  qed
qed

section \<open>Lemmas: a rotation during a signature\<close>

lemma close_two:
  assumes "T 0 = Some (Within c0 i0)" and "T 1 = Some (Within c1 i1)"
    and "close_call e c0 i0 = Some (a0, e)" and "close_call e c1 i1 = Some (a1, e)"
  shows "tasks_run E adm1 adm2 (e, T) (e, T(0 \<mapsto> Answered c0 (Some i0) a0, 1 \<mapsto> Answered c1 (Some i1) a1))"
proof -
  have "engine_step E adm1 adm2 (e, T) (e, T(0 \<mapsto> Answered c0 (Some i0) a0))"
    by (rule es_close[of T 0]) (rule assms)+
  moreover have "engine_step E adm1 adm2 (e, T(0 \<mapsto> Answered c0 (Some i0) a0))
      (e, T(0 \<mapsto> Answered c0 (Some i0) a0, 1 \<mapsto> Answered c1 (Some i1) a1))"
    by (rule es_close[of "T(0 \<mapsto> Answered c0 (Some i0) a0)" 1]) (use assms(2,4) in simp_all)
  ultimately show ?thesis by (meson converse_rtranclp_into_rtranclp r_into_rtranclp)
qed

lemma overtaken_run:
  assumes run: "conc_run (te_secp E) (te_timer E) new_call (th_ecdsa e, Map.empty)
      (cl, [0 \<mapsto> Sign_Done (er_key_id req) (er_payload req) r, 1 \<mapsto> Refresh_Done (er_key_id req) r'])"
    and key: "th_keys e (er_key_id req) = Some Ecdsa" and sch: "scheme (er_chain req) = EcdsaSecp256k1"
  shows "\<exists>T i j. tasks_run E new_call new_call (e, Map.empty) (e\<lparr>th_ecdsa := cl\<rparr>, T) \<and>
    T 0 = Some (Answered (Call_Sign req) i (close_sign req cl r)) \<and>
    T 1 = Some (Answered (Call_Rotate (er_key_id req)) j (close_rotate (er_key_id req) r'))"
proof -
  let ?ts = "[0 \<mapsto> Sign_Done (er_key_id req) (er_payload req) r, 1 \<mapsto> Refresh_Done (er_key_id req) r']"
  let ?calls = "\<lambda>p :: nat. if p = 0 then Call_Sign req else Call_Rotate (er_key_id req)"
  let ?T = "\<lambda>p. map_option (\<lambda>k. Within (?calls p) (On_Ecdsa k)) (?ts p)"
  have "\<exists>k0. open_call e (?calls p) = Within (?calls p) (On_Ecdsa k0) \<and> task_op k0 = task_op k"
    if "?ts p = Some k" for p k
    using that key sch by (auto split: if_splits)
  from ecdsa_side.conc_run_within[of E new_call, OF run this new_call_start]
  have 1: "tasks_run E new_call new_call (e, Map.empty) (e\<lparr>th_ecdsa := cl\<rparr>, ?T)" .
  have 2: "tasks_run E new_call new_call (e\<lparr>th_ecdsa := cl\<rparr>, ?T) (e\<lparr>th_ecdsa := cl\<rparr>, ?T(
      0 \<mapsto> Answered (Call_Sign req) (Some (On_Ecdsa (Sign_Done (er_key_id req) (er_payload req) r))) (close_sign req cl r),
      1 \<mapsto> Answered (Call_Rotate (er_key_id req)) (Some (On_Ecdsa (Refresh_Done (er_key_id req) r')))
        (close_rotate (er_key_id req) r')))"
    by (rule close_two) (simp_all add: sign_result_def refresh_result_def)
  from rtranclp_trans[OF 1 2] show ?thesis
    by (intro exI[of _ "?T(0 \<mapsto> _, 1 \<mapsto> _)"] exI[of _ "Some _"] conjI, assumption) simp_all
qed

lemma rotate_ecdsa:
  assumes "threshold_rotate_key E key e = (Ok ro, e1)" and "th_keys e key = Some Ecdsa"
  obtains g where "refresh (te_secp E) (te_timer E) key (th_ecdsa e) (th_rng_ecdsa e) =
      (Ok (ro_public_key ro, ro_epoch ro), th_ecdsa e1, g)"
    and "ro_key_id ro = key" and "cluster_public_key (th_ecdsa e1) key = Some (ro_public_key ro)"
proof -
  obtain r cl g where rf: "refresh (te_secp E) (te_timer E) key (th_ecdsa e) (th_rng_ecdsa e) = (r, cl, g)"
    by (metis prod_cases3)
  hence r: "r = Ok (ro_public_key ro, ro_epoch ro)" "ro_key_id ro = key" "th_ecdsa e1 = cl"
    using assms by (auto simp: threshold_rotate_key_def result_simps)
  have "cluster_public_key cl key = Some (ro_public_key ro)"
    using rf r(1) by (auto simp: refresh_def Let_def cluster_public_key_def split: if_splits result.splits prod.splits option.splits)
  with that rf r show ?thesis by blast
qed

section \<open>A concrete engine\<close>

definition demo_sign :: EngineSignRequest where
  "demo_sign = \<lparr>er_key_id = ''mpc-u'', er_chain = Evm, er_payload = [5]\<rparr>"

lemma demo_engine_sel:
  "th_ecdsa demo_engine = demo_cluster_for ''mpc-u''" "th_keys demo_engine ''mpc-u'' = Some Ecdsa"
  "te_secp demo_env = demo_secp" "te_timer demo_env = demo_timer"
  by (simp_all add: demo_engine_def demo_env_def)

lemma demo_engine_inv: "cluster_inv demo_secp (demo_cluster_for ''mpc-u'')"
  using threshold_reach_inv[OF demo_env_lawful demo_indices demo_indices demo_engine_reach]
  by (simp add: threshold_inv_def demo_engine_sel)

lemma demo_responders: "round_responders demo_timer (demo_cluster_for k) = cl_nodes (demo_cluster_for k)"
  by (simp add: round_responders_def demo_cluster_for_def demo_node_def)

lemma demo_sign_call:
  obtains s k where "open_call demo_engine (Call_Sign demo_sign) =
      Within (Call_Sign demo_sign) (On_Ecdsa (Sign_Start ''mpc-u'' [5]))"
    and "runs_to (te_secp demo_env) (te_timer demo_env) (sconst G0) (th_ecdsa demo_engine, Sign_Start ''mpc-u'' [5])
      (th_ecdsa demo_engine, k)"
    and "close_call (demo_engine\<lparr>th_ecdsa := th_ecdsa demo_engine\<rparr>) (Call_Sign demo_sign) (On_Ecdsa k) =
      Some (Ans_Sign (Ok s), demo_engine)"
proof -
  let ?cl = "demo_cluster_for ''mpc-u''"
  have "cl_keys ?cl ''mpc-u'' = Some demo_info" "cl_t ?cl \<le> length (round_responders demo_timer ?cl)"
    by (simp_all add: demo_responders) (simp_all add: demo_cluster_for_def)
  from secp.sign_verifies[OF demo_k256_laws demo_engine_inv this demo_sharing_for, of "[5]" "sconst G0"]
  obtain sig where sig: "fst (cluster_sign demo_secp demo_timer ''mpc-u'' [5] ?cl (sconst G0)) = Ok sig"
    by (auto simp: gf5_numerals)
  have "cluster_public_key ?cl ''mpc-u'' = Some (gf5_bytes G3)"
    by (simp add: cluster_public_key_def demo_cluster_for_def demo_info_def)
  with that[of "Sign_Done ''mpc-u'' [5] (Ok sig)" "\<lparr>es_signature = sig, es_public_key = gf5_bytes G3\<rparr>"]
    sign_alone[of demo_secp demo_timer "sconst G0" ?cl "''mpc-u''" "[5]"]
  show ?thesis by (simp add: demo_sign_def demo_engine_sel sig sign_result_def close_sign_def)
qed

lemma demo_rotation:
  "threshold_rotate_key demo_env ''mpc-u'' demo_engine =
     (Ok \<lparr>ro_key_id = ''mpc-u'', ro_public_key = gf5_bytes G3, ro_epoch = 2\<rparr>,
      demo_engine\<lparr>th_ecdsa := demo_refreshed_for ''mpc-u''\<rparr>)"
proof -
  obtain cl :: "gf5 Cluster" where cl: "cluster_new 2 3 = Ok cl" by (simp add: cluster_new_def)
  have rng: "th_rng_ecdsa demo_engine = sconst G1" by (simp add: demo_engine_def demo_engine0_sel(4)[OF cl])
  thus ?thesis
    using demo_refresh_for[of "''mpc-u''"] demo_engine_sel
    by (simp add: threshold_rotate_key_def)
qed

section \<open>Properties\<close>

text \<open>
  (C21) A call that runs alone is the operation: opened, taken through the steps of its cluster
  operation and closed, each of \<open>sign\<close>, \<open>dkg\<close> (under a new key identifier) and \<open>rotate_key\<close> ends with
  the answer and the state of the engine that the operation as a whole has.
\<close>
theorem engine_calls_alone:
  "(\<exists>i. tasks_run E new_call new_call (e, [0 \<mapsto> Asked (Call_Sign req)])
     (e, [0 \<mapsto> Answered (Call_Sign req) i (Ans_Sign (fst (threshold_sign E req e)))])) \<and>
   (\<exists>i. tasks_run E new_call new_call (e, [0 \<mapsto> Asked (Call_Rotate key)])
     (settled e (snd (threshold_rotate_key E key e)),
      [0 \<mapsto> Answered (Call_Rotate key) i (Ans_Rotate (fst (threshold_rotate_key E key e)))])) \<and>
   (key_id_fresh e \<longrightarrow> (\<exists>i. tasks_run E new_call new_call (e, [0 \<mapsto> Asked (Call_Dkg p (shd (uuids (th_world e))))])
     (settled e (snd (threshold_dkg E p e)),
      [0 \<mapsto> Answered (Call_Dkg p (shd (uuids (th_world e)))) i (Ans_Dkg (fst (threshold_dkg E p e)))])))"
  using sign_call_alone rotate_call_alone dkg_call_alone by blast

theorem engine_calls_alone_witness:
  "\<exists>i. tasks_run demo_env new_call new_call (demo_engine0, [0 \<mapsto> Asked (Call_Dkg demo_dkg ''u'')])
     (settled demo_engine0 demo_engine, [0 \<mapsto> Answered (Call_Dkg demo_dkg ''u'') i (Ans_Dkg (Ok demo_outcome))])"
proof -
  obtain cl :: "gf5 Cluster" where cl: "cluster_new 2 3 = Ok cl" by (simp add: cluster_new_def)
  have "shd (uuids (th_world demo_engine0)) = ''u''" by (simp add: demo_engine0_sel(5)[OF cl])
  with engine_calls_alone[of demo_env demo_engine0 undefined undefined demo_dkg] demo_engine_fresh
  show ?thesis by (simp add: demo_dkg_run)
qed

text \<open>
  (C17) The in-house engine is right under a lock per key. Let any number of \<open>sign\<close>, \<open>dkg\<close> and
  \<open>rotate_key\<close> calls run at once, each cut at every lock and await of its cluster operation, with
  nodes failing in between, where calls on one key exclude each other as readers and writers do.
  Then every answer is right, at its time and ever after: a signature is accepted by the verifier
  of the requested chain under the returned key, and every public key reported for a key is the one
  its cluster stores.
\<close>
theorem locked_engine_right:
  assumes "threshold_lawful (E :: ('s :: field, 'p :: ab_group_add, 't :: field, 'q :: ab_group_add) threshold_env)"
    and "indices_distinct TYPE('s) n" and "indices_distinct TYPE('t) n" and "threshold_reach E t n e0"
    and "tasks_run E key_locked key_locked (e0, Map.empty) (e, T)" and "T p = Some (Answered c i a)"
  shows "answer_right E e c i a"
proof -
  have "locked_inv E (e, T)" by (rule tasks_run_inv[OF assms(1) threshold_reach_inv[OF assms(1-4)] assms(5)])
  hence "task_right E e (Answered c i a)" using assms(6) unfolding locked_inv_def split by blast
  thus ?thesis by simp
qed

theorem locked_engine_right_witness:
  "\<exists>T i s. tasks_run demo_env key_locked key_locked (demo_engine, Map.empty) (demo_engine, T) \<and>
    T 0 = Some (Answered (Call_Sign demo_sign) i (Ans_Sign (Ok s))) \<and>
    chain_accepts demo_env Evm [5] (es_signature s) (es_public_key s)"
proof -
  obtain s k where o: "open_call demo_engine (Call_Sign demo_sign) = Within (Call_Sign demo_sign) (On_Ecdsa (Sign_Start ''mpc-u'' [5]))"
    and run: "runs_to (te_secp demo_env) (te_timer demo_env) (sconst G0) (th_ecdsa demo_engine, Sign_Start ''mpc-u'' [5]) (th_ecdsa demo_engine, k)"
    and cl: "close_call (demo_engine\<lparr>th_ecdsa := th_ecdsa demo_engine\<rparr>) (Call_Sign demo_sign) (On_Ecdsa k) =
      Some (Ans_Sign (Ok s), demo_engine)"
    by (rule demo_sign_call)
  have "tasks_run demo_env key_locked key_locked (demo_engine, Map.empty) (demo_engine, [0 \<mapsto> Asked (Call_Sign demo_sign)])"
    by (intro r_into_rtranclp es_call) simp
  moreover have "tasks_run demo_env key_locked key_locked (demo_engine, [0 \<mapsto> Asked (Call_Sign demo_sign)])
      (demo_engine, [0 \<mapsto> Answered (Call_Sign demo_sign) (Some (On_Ecdsa k)) (Ans_Sign (Ok s))])"
    by (rule ecdsa_side.call_alone[OF o _ run cl]) (simp add: key_locked_def new_call_def ecdsa_tasks_upd)
  ultimately have all: "tasks_run demo_env key_locked key_locked (demo_engine, Map.empty)
      (demo_engine, [0 \<mapsto> Answered (Call_Sign demo_sign) (Some (On_Ecdsa k)) (Ans_Sign (Ok s))])"
    by (rule rtranclp_trans)
  from locked_engine_right[OF demo_env_lawful demo_indices demo_indices demo_engine_reach this, of 0]
  have "chain_accepts demo_env Evm [5] (es_signature s) (es_public_key s)" by (simp add: demo_sign_def)
  with all show ?thesis by fastforce
qed

text \<open>
  (C19) As the code is, a key rotation breaks a signature under way. Let an ECDSA key be held by nodes
  that are all up and in time, and let a rotation that would give the \<open>t\<close>-th node a new share come
  while \<open>sign\<close> collects the shares. Both calls end: the rotation reports success and the key's
  public key, and \<open>sign\<close> answers with that public key next to a signature made with a scalar that is
  not the secret of the key (or panics, should that scalar be zero, for which there is no signature).
\<close>
theorem rotation_breaks_signature:
  assumes "threshold_lawful (E :: ('s :: field, 'p :: ab_group_add, 't :: field, 'q :: ab_group_add) threshold_env)"
    and "indices_distinct TYPE('s) n" and "indices_distinct TYPE('t) n" and "threshold_reach E t n e"
    and "th_keys e (er_key_id req) = Some Ecdsa" and "scheme (er_chain req) = EcdsaSecp256k1"
    and "round_responders (te_timer E) (th_ecdsa e) = cl_nodes (th_ecdsa e)"
    and "quorum_secret (te_secp E) (th_ecdsa e) (er_key_id req) secret"
    and "threshold_rotate_key E (er_key_id req) e = (Ok ro, e1)"
    and "nd_shares (cl_nodes (th_ecdsa e1) ! (cl_t (th_ecdsa e) - 1)) (er_key_id req) \<noteq>
         nd_shares (cl_nodes (th_ecdsa e) ! (cl_t (th_ecdsa e) - 1)) (er_key_id req)"
  shows "\<exists>s T i j. s \<noteq> secret \<and>
    tasks_run E new_call new_call (e, Map.empty) (e\<lparr>th_ecdsa := th_ecdsa e1\<rparr>, T) \<and>
    T 0 = Some (Answered (Call_Sign req) i (Ans_Sign
      (and_then (lift_panic (fst (curve_sign (te_secp E) s (er_payload req) g))) (\<lambda>sig.
         Ok \<lparr>es_signature = sig, es_public_key = ro_public_key ro\<rparr>)))) \<and>
    T 1 = Some (Answered (Call_Rotate (er_key_id req)) j (Ans_Rotate (Ok ro)))"
proof -
  let ?key = "er_key_id req"
  have L: "k256_laws (te_k256 E)" using assms(1) by (simp add: threshold_lawful_def)
  have "threshold_inv E e" by (rule threshold_reach_inv[OF assms(1-4)])
  then obtain info where inv: "cluster_inv (te_secp E) (th_ecdsa e)" and key: "cl_keys (th_ecdsa e) ?key = Some info"
    using assms(5) by (auto simp: threshold_inv_def)
  obtain cs where sh: "sharing (th_ecdsa e) ?key cs" by (rule inv_sharing[OF inv key])
  have secret: "secret = hd cs"
    using quorum_secret_unique[OF _ assms(8) secp.sharing_quorum_secret[OF L _ sh]] inv by (simp add: cluster_inv_def)
  obtain g1 where rf: "refresh (te_secp E) (te_timer E) ?key (th_ecdsa e) (th_rng_ecdsa e) =
      (Ok (ro_public_key ro, ro_epoch ro), th_ecdsa e1, g1)" and ro: "ro_key_id ro = ?key"
      "cluster_public_key (th_ecdsa e1) ?key = Some (ro_public_key ro)"
    by (rule rotate_ecdsa[OF assms(9,5)])
  let ?r = "\<lambda>s. lift_panic (fst (curve_sign (te_secp E) s (er_payload req) g))"
  obtain s where s: "s \<noteq> secret" and run: "conc_run (te_secp E) (te_timer E) new_call (th_ecdsa e, Map.empty)
      (th_ecdsa e1, [0 \<mapsto> Sign_Done ?key (er_payload req) (?r s), 1 \<mapsto> Refresh_Done ?key (Ok (ro_public_key ro, ro_epoch ro))])"
    using secp.stale_signature[OF L inv key assms(7) rf assms(10) sh, of "er_payload req" g] secret by blast
  have "close_sign req (th_ecdsa e1) (?r s) = Ans_Sign (and_then (?r s) (\<lambda>sig.
      Ok \<lparr>es_signature = sig, es_public_key = ro_public_key ro\<rparr>))"
    by (cases "fst (curve_sign (te_secp E) s (er_payload req) g)") (simp_all add: close_sign_def ro(2))
  moreover have "close_rotate ?key (Ok (ro_public_key ro, ro_epoch ro)) = Ans_Rotate (Ok ro)"
    using ro(1) by (simp add: close_rotate_def)
  ultimately show ?thesis using overtaken_run[OF run assms(5,6)] s by metis
qed

theorem rotation_breaks_signature_witness:
  "\<exists>s T i j. s \<noteq> G3 \<and>
    tasks_run demo_env new_call new_call (demo_engine, Map.empty)
      (demo_engine\<lparr>th_ecdsa := demo_refreshed_for ''mpc-u''\<rparr>, T) \<and>
    T 0 = Some (Answered (Call_Sign demo_sign) i (Ans_Sign
      (and_then (lift_panic (fst (curve_sign demo_secp s [5] (sconst G0)))) (\<lambda>sig.
         Ok \<lparr>es_signature = sig, es_public_key = gf5_bytes G3\<rparr>)))) \<and>
    T 1 = Some (Answered (Call_Rotate ''mpc-u'') j (Ans_Rotate
      (Ok \<lparr>ro_key_id = ''mpc-u'', ro_public_key = gf5_bytes G3, ro_epoch = 2\<rparr>)))"
proof -
  have q: "quorum_secret demo_secp (demo_cluster_for ''mpc-u'') ''mpc-u'' G3"
    using secp.sharing_quorum_secret[OF demo_k256_laws _ demo_sharing_for, of "''mpc-u''"] demo_engine_inv
    by (simp add: cluster_inv_def)
  have new: "nd_shares (cl_nodes (demo_refreshed_for ''mpc-u'') ! (cl_t (demo_cluster_for ''mpc-u'') - 1)) ''mpc-u'' \<noteq>
      nd_shares (cl_nodes (demo_cluster_for ''mpc-u'') ! (cl_t (demo_cluster_for ''mpc-u'') - 1)) ''mpc-u''"
    by (simp add: demo_refreshed_for_def demo_cluster_for_def demo_node_def)
  show ?thesis
    using rotation_breaks_signature[OF demo_env_lawful demo_indices demo_indices demo_engine_reach,
        of demo_sign G3 _ _ "sconst G0"] demo_rotation q new demo_responders
    by (simp add: demo_sign_def demo_engine_sel)
qed

end
