(* ===== verification/Proactive_Refresh.thy ===== *)
theory Proactive_Refresh
  imports Cluster_Races
begin

text \<open>
  Why the refresh of \<open>src/engine/threshold/cluster.rs\<close> makes stolen shares worthless. Every node deals
  a sharing of zero; the coefficients of a single one of them, whatever the other dealers draw,
  already decide the new shares of any \<open>t - 1\<close> nodes freely. Old shares of some nodes and new shares
  of others therefore do not combine.
\<close>

section \<open>The dealt polynomial\<close>

text \<open>The sum of the zero polynomials of \<open>k\<close> dealers who read the stream one after the other.\<close>

fun zero_sum :: "nat \<Rightarrow> nat \<Rightarrow> 's :: field stream \<Rightarrow> 's list" where
  "zero_sum t 0 g = replicate t 0"
| "zero_sum t (Suc k) g = padd (0 # stake (t - 1) g) (zero_sum t k (sdrop (t - 1) g))"

lemma length_zero_sum [simp]: "1 \<le> t \<Longrightarrow> length (zero_sum t k g) = t"
  by (induction k arbitrary: g) auto

lemma peval_zero_sum_Suc:
  "1 \<le> t \<Longrightarrow> peval (zero_sum t (Suc k) g) x =
     peval (0 # stake (t - 1) g) x + peval (zero_sum t k (sdrop (t - 1) g)) x"
  by (simp add: peval_padd del: peval.simps)

text \<open>One dealer's coefficients enter the sum by their own polynomial, the rest is a constant.\<close>

lemma zero_sum_dealer:
  assumes t: "1 \<le> t"
  shows "length pre = d * (t - 1) \<Longrightarrow> \<exists>rest. \<forall>rs. length rs = t - 1 \<longrightarrow>
    peval (zero_sum t (d + Suc m) (pre @- rs @- g)) x = rest + peval (0 # rs) x"
proof (induction d arbitrary: pre)
  case 0
  have "peval (zero_sum t (Suc m) (rs @- g)) x = peval (zero_sum t m g) x + peval (0 # rs) x"
    if "length rs = t - 1" for rs
    using that by (simp add: peval_zero_sum_Suc[OF t] stake_shift sdrop_shift del: peval.simps zero_sum.simps)
  thus ?case using 0 by (intro exI[of _ "peval (zero_sum t m g) x"]) (simp del: zero_sum.simps peval.simps)
next
  case (Suc d)
  let ?h = "take (t - 1) pre" and ?pre = "drop (t - 1) pre"
  have len: "length ?pre = d * (t - 1)" "t - 1 \<le> length pre" using Suc.prems by simp_all
  obtain rest where rest: "\<And>rs. length rs = t - 1 \<Longrightarrow>
      peval (zero_sum t (d + Suc m) (?pre @- rs @- g)) x = rest + peval (0 # rs) x"
    using Suc.IH[OF len(1)] by blast
  have "peval (zero_sum t (Suc (d + Suc m)) (pre @- rs @- g)) x = (peval (0 # ?h) x + rest) + peval (0 # rs) x"
    if "length rs = t - 1" for rs
    using rest[OF that] len(2)
    by (simp add: peval_zero_sum_Suc[OF t] stake_shift sdrop_shift add.assoc del: peval.simps zero_sum.simps)
  thus ?case by (intro exI[of _ "peval (0 # ?h) x + rest"]) simp
qed

context curve_family
begin

lemma refresh_deal_eq:
  assumes x: "lawful x" and t: "1 \<le> t" "t \<le> n"
  shows "length acc = t \<Longrightarrow> refresh_deal (C x) t n k (evals n acc) g =
    (Ok (evals n (padd acc (zero_sum t k g))), sdrop (k * (t - 1)) g)"
proof (induction k arbitrary: acc g)
  case 0
  have "padd acc (replicate t 0) = acc" using 0 by (auto simp: padd_def intro: nth_equalityI)
  thus ?case by simp
next
  case (Suc k)
  let ?zs = "0 # stake (t - 1) g"
  have sp: "split_zero (C x) t n g = (Ok (eval_all (C x) ?zs n), sdrop (t - 1) g)"
    using t by (simp add: split_zero_def zero[OF x] split_def)
  have len: "length acc = length ?zs" using t(1) Suc.prems by simp
  have "padd (padd acc ?zs) (zero_sum t k (sdrop (t - 1) g)) = padd acc (padd ?zs (zero_sum t k (sdrop (t - 1) g)))"
    using len t(1) Suc.prems by (auto simp: padd_def add.assoc intro!: nth_equalityI)
  with Suc.IH[of "padd acc ?zs" "sdrop (t - 1) g"] accumulate_evals[OF x len, of n] len Suc.prems
  show ?case by (simp add: sp sdrop_add add.commute)
qed

text \<open>The shares after a refresh, as a function of the random stream.\<close>

lemma refresh_new_share:
  assumes x: "lawful x" and wf: "cluster_wf (cl :: 's Cluster)" and on: "online_count cl = cl_n cl"
    and key: "cl_keys cl key = Some info" and sh: "sharing cl key cs" and i: "i \<in> {1..cl_n cl}"
  shows "nd_shares (cl_nodes (fst (snd (refresh (C x) tm key cl g))) ! (i - 1)) key =
    Some (peval cs (ix (of_nat i)) + peval (zero_sum (cl_t cl) (cl_n cl) g) (ix (of_nat i)))"
proof -
  let ?n = "cl_n cl" and ?zs = "zero_sum (cl_t cl) (cl_n cl) g"
  have t: "1 \<le> cl_t cl" "cl_t cl \<le> ?n" and idx: "map nd_index (cl_nodes cl) = map of_nat [1..<Suc ?n]"
    using wf by (auto simp: cluster_wf_def)
  have len: "length cs = cl_t cl" and ss: "map (\<lambda>nd. nd_shares nd key) (cl_nodes cl) = map Some (evals ?n cs)"
    using sh sharing_iff[OF idx] by auto
  have "padd (replicate (cl_t cl) 0) ?zs = ?zs"
    using t(1) by (auto simp: padd_def intro!: nth_equalityI)
  with refresh_deal_eq[OF x t, of "replicate (cl_t cl) 0" ?n g]
  have deal: "refresh_deal (C x) (cl_t cl) ?n ?n (replicate ?n (scalar_zero (C x))) g =
      (Ok (evals ?n ?zs), sdrop (?n * (cl_t cl - 1)) g)"
    by (simp add: zero[OF x] evals_zero[symmetric])
  have "refresh_nodes (C x) key (cl_nodes cl) (evals ?n ?zs) =
      (True, put_shares key (cl_nodes cl) (evals ?n (padd cs ?zs)))"
    using refresh_nodes_eq[OF _ ss, of "evals ?n ?zs"] evals_add[OF x, of cs ?zs ?n] len t(1) wf_length[OF wf]
    by simp
  hence nodes: "cl_nodes (fst (snd (refresh (C x) tm key cl g))) = put_shares key (cl_nodes cl) (evals ?n (padd cs ?zs))"
    using on key unfolding refresh_def Let_def cluster_round_def deal by simp
  have n: "length (cl_nodes cl) = ?n" by (rule wf_length[OF wf])
  have lt: "i - 1 < ?n" using i by auto
  have "map (\<lambda>nd. nd_shares nd key) (put_shares key (cl_nodes cl) (evals ?n (padd cs ?zs))) ! (i - 1) =
      map Some (evals ?n (padd cs ?zs)) ! (i - 1)"
    by (subst put_shares_set) (simp_all add: n)
  moreover have "length (put_shares key (cl_nodes cl) (evals ?n (padd cs ?zs))) = ?n"
    using arg_cong[OF put_shares_index[of key "cl_nodes cl" "evals ?n (padd cs ?zs)"], of length] n by simp
  ultimately have "nd_shares (put_shares key (cl_nodes cl) (evals ?n (padd cs ?zs)) ! (i - 1)) key =
      Some (evals ?n (padd cs ?zs) ! (i - 1))" using lt by simp
  thus ?thesis unfolding nodes evals_nth[OF i] using len t(1) by (simp add: peval_padd)
qed

lemma refresh_renews:
  assumes x: "lawful x" and wf: "cluster_wf (cl :: 's Cluster)" and on: "online_count cl = cl_n cl"
    and key: "cl_keys cl key = Some info" and sh: "sharing cl key cs"
    and d: "d < cl_n cl" "length pre = d * (cl_t cl - 1)"
    and J: "distinct nodes" "set nodes \<subseteq> {1..cl_n cl}" "length nodes = cl_t cl - 1" and ys: "length held = cl_t cl - 1"
  shows "\<exists>!rs. length rs = cl_t cl - 1 \<and>
    map (\<lambda>i. nd_shares (cl_nodes (fst (snd (refresh (C x) tm key cl (pre @- rs @- g)))) ! (i - 1)) key) nodes = map Some held"
proof -
  let ?t = "cl_t cl" and ?n = "cl_n cl" and ?X = "\<lambda>i. ix (of_nat i :: u64) :: 's"
  have t: "1 \<le> ?t" and ids: "indices_distinct TYPE('s) ?n" using wf by (auto simp: cluster_wf_def)
  obtain m where m: "?n = d + Suc m" using d(1) by (metis less_iff_Suc_add add_Suc_right)
  obtain rest where rest: "\<And>y rs. length rs = ?t - 1 \<Longrightarrow>
      peval (zero_sum ?t ?n (pre @- rs @- g)) y = rest y + peval (0 # rs) y"
    using zero_sum_dealer[OF t d(2), of m g] unfolding m by metis
  let ?old = "\<lambda>i. peval cs (?X i) + rest (?X i)"
  have new: "nd_shares (cl_nodes (fst (snd (refresh (C x) tm key cl (pre @- rs @- g)))) ! (i - 1)) key =
      Some (?old i + peval (0 # rs) (?X i))" if "length rs = ?t - 1" "i \<in> {1..?n}" for rs i
    using refresh_new_share[OF x wf on key sh that(2), of tm "pre @- rs @- g"] rest[OF that(1)]
    by (simp add: add.assoc del: peval.simps)
  let ?ys = "map2 (\<lambda>i y. y - ?old i) nodes held"
  have iff: "map (\<lambda>i. nd_shares (cl_nodes (fst (snd (refresh (C x) tm key cl (pre @- rs @- g)))) ! (i - 1)) key) nodes =
      map Some held \<longleftrightarrow> map (peval (0 # rs)) (map ?X nodes) = ?ys" (is "?A \<longleftrightarrow> ?B") if rs: "length rs = ?t - 1" for rs
  proof -
    have "map (\<lambda>i. nd_shares (cl_nodes (fst (snd (refresh (C x) tm key cl (pre @- rs @- g)))) ! (i - 1)) key) nodes =
        map (\<lambda>i. Some (?old i + peval (0 # rs) (?X i))) nodes"
      using new[OF rs] J(2) by (intro map_cong refl) auto
    thus ?thesis using J(3) ys
      by (simp add: list_eq_iff_nth_eq algebra_simps del: peval.simps)
  qed
  have n: "?n < 2 ^ 64" and inj: "inj_on (of_nat :: nat \<Rightarrow> 's) {0..?n}"
    using ids by (auto simp: indices_distinct_def)
  have ixn: "?X i = of_nat i" if "i \<le> ?n" for i using that n by (intro ix_of_nat) simp
  have "inj_on (of_nat :: nat \<Rightarrow> 's) (set (0 # nodes))" using J(2) by (intro inj_on_subset[OF inj]) auto
  hence "distinct (map (of_nat :: nat \<Rightarrow> 's) (0 # nodes))" using J(1,2) by (subst distinct_map) auto
  moreover have "map ?X nodes = map of_nat nodes" using J(2) ixn by auto
  ultimately have "distinct (0 # map ?X nodes)" by (simp only: list.map semiring_1_class.of_nat_0)
  from interpolant_unique[OF this, of ?ys 0] J(3) ys
  have "\<exists>!rs. length rs = ?t - 1 \<and> map (peval (0 # rs)) (map ?X nodes) = ?ys" by simp
  thus ?thesis using iff by (simp cong: conj_cong del: peval.simps)
qed

end

text \<open>The same value read off the stream: dealer \<open>d\<close> of \<open>k\<close> takes the \<open>t - 1\<close> numbers from position \<open>d * (t - 1)\<close>.\<close>

lemma peval_zeros: "peval (0 # zs) x = (\<Sum>j<length zs. zs ! j * x ^ Suc j)"
proof -
  have "peval zs x = (\<Sum>j<length zs. zs ! j * x ^ j)"
    by (induction zs) (simp_all add: sum.lessThan_Suc_shift sum_distrib_left algebra_simps del: sum.lessThan_Suc)
  thus ?thesis by (simp add: sum_distrib_left algebra_simps)
qed

lemma zero_sum_drawn:
  assumes t: "1 \<le> t"
  shows "peval (zero_sum t k g) x = (\<Sum>d<k. \<Sum>j<t - 1. g !! (d * (t - 1) + j) * x ^ Suc j)"
proof (induction k arbitrary: g)
  case 0
  show ?case by simp
next
  case (Suc k)
  have "peval (0 # stake (t - 1) g) x = (\<Sum>j<t - 1. g !! j * x ^ Suc j)"
    by (subst peval_zeros) (simp add: stake_nth)
  with Suc show ?case
    unfolding sum.lessThan_Suc_shift[of _ k] peval_zero_sum_Suc[OF t] by (simp add: sdrop_snth add.assoc)
qed

lemma refresh_share_moves:
  assumes law: "lawful_curve K XD (C :: 's :: field curve)" and inv: "cluster_inv C cl"
    and on: "online_count cl = cl_n cl" and key: "cl_keys cl key = Some info" and sh: "sharing cl key cs"
  shows "\<forall>i\<in>{1..cl_n cl}. \<exists>old. nd_shares (cl_nodes cl ! (i - 1)) key = Some old \<and>
    nd_shares (cl_nodes (fst (snd (refresh C tm key cl g))) ! (i - 1)) key =
      Some (old + (\<Sum>d<cl_n cl. \<Sum>j<cl_t cl - 1. g !! (d * (cl_t cl - 1) + j) * of_nat i ^ Suc j))"
proof
  fix i assume i: "i \<in> {1..cl_n cl}"
  have wf: "cluster_wf cl" using inv by (simp add: cluster_inv_def)
  hence t: "1 \<le> cl_t cl" and ids: "indices_distinct TYPE('s) (cl_n cl)"
    and idx: "map nd_index (cl_nodes cl) = map of_nat [1..<Suc (cl_n cl)]" by (auto simp: cluster_wf_def)
  have ixi: "ix (of_nat i :: u64) = (of_nat i :: 's)"
    using i ids by (intro ix_of_nat) (auto simp: indices_distinct_def)
  have "nd_shares (cl_nodes cl ! (i - 1)) key = Some (evals (cl_n cl) cs ! (i - 1))"
    using sh sharing_iff[OF idx, of key cs] i wf_length[OF wf] by (auto dest!: arg_cong[of _ _ "\<lambda>l. l ! (i - 1)"])
  hence old: "nd_shares (cl_nodes cl ! (i - 1)) key = Some (peval cs (of_nat i))"
    unfolding evals_nth[OF i] ixi .
  have "nd_shares (cl_nodes (fst (snd (refresh C tm key cl g))) ! (i - 1)) key =
    Some (peval cs (ix (of_nat i)) + peval (zero_sum (cl_t cl) (cl_n cl) g) (ix (of_nat i)))"
    using law
  proof (cases rule: lawful_curve_cases)
    case 1
    show ?thesis unfolding 1(1) by (rule secp.refresh_new_share[OF 1(2) wf on key sh i])
  next
    case 2
    show ?thesis unfolding 2(1) by (rule ed.refresh_new_share[OF 2(2) wf on key sh i])
  qed
  with old show "\<exists>old. nd_shares (cl_nodes cl ! (i - 1)) key = Some old \<and>
    nd_shares (cl_nodes (fst (snd (refresh C tm key cl g))) ! (i - 1)) key =
      Some (old + (\<Sum>d<cl_n cl. \<Sum>j<cl_t cl - 1. g !! (d * (cl_t cl - 1) + j) * of_nat i ^ Suc j))"
    by (simp add: ixi zero_sum_drawn[OF t] del: sum.lessThan_Suc)
qed

section \<open>Properties\<close>

text \<open>
  (C11) The proactive refresh renews every share and never changes a key. When it runs alone with all
  nodes online it succeeds, returns the stored public key with the next epoch and leaves all other
  keys their entries. Node \<open>i\<close> then holds its old share plus the values at \<open>i\<close> of the polynomials
  without constant term that the \<open>n\<close> dealers have drawn (dealer \<open>d\<close> takes the numbers from position
  \<open>d * (t - 1)\<close> of the random stream); its share is a new one unless these values happen to add up
  to zero, as they do for \<open>t = 1\<close>. The secret that every quorum reconstructs is the one before.
\<close>
theorem refresh_preserves_key:
  assumes "lawful_curve K XD (C :: 's :: field curve)" and "indices_distinct TYPE('s) n"
    and "cluster_reach C tm t n cl" and "online_count cl = cl_n cl"
    and "cl_keys cl key_id = Some info"
  shows "\<exists>cl' g' s. refresh C tm key_id cl g = (Ok (ki_public_key info, ki_epoch info + 1), cl', g') \<and>
    quorum_secret C cl key_id s \<and> quorum_secret C cl' key_id s \<and>
    ki_public_key info = public_from_scalar C s \<and>
    cl_keys cl' = (cl_keys cl)(key_id \<mapsto> info\<lparr>ki_epoch := ki_epoch info + 1\<rparr>) \<and>
    (\<forall>i\<in>{1..cl_n cl}. \<exists>old. nd_shares (cl_nodes cl ! (i - 1)) key_id = Some old \<and>
       nd_shares (cl_nodes cl' ! (i - 1)) key_id =
         Some (old + (\<Sum>d<cl_n cl. \<Sum>j<cl_t cl - 1. g !! (d * (cl_t cl - 1) + j) * of_nat i ^ Suc j)))"
proof -
  have inv: "cluster_inv C cl" by (rule lawful_reach_inv[OF assms(1-3)])
  obtain cs where sh: "sharing cl key_id cs" and pk: "ki_public_key info = public_from_scalar C (hd cs)"
    by (rule inv_sharing[OF inv assms(5)])
  obtain cl' cs' where rf: "refresh C tm key_id cl g =
        (Ok (ki_public_key info, ki_epoch info + 1), cl', sdrop (cl_n cl * (cl_t cl - 1)) g)"
      and inv': "cluster_inv C cl'" and sh': "sharing cl' key_id cs'" and hd: "hd cs' = hd cs"
      and keys: "cl_keys cl' = (cl_keys cl)(key_id \<mapsto> info\<lparr>ki_epoch := ki_epoch info + 1\<rparr>)"
    using assms(1)
  proof (cases rule: lawful_curve_cases)
    case 1
    show ?thesis unfolding 1(1)
      by (rule secp.refresh_succeeds[OF 1(2) inv[unfolded 1(1)] assms(4,5) sh pk[unfolded 1(1)], of tm g])
        (rule that[unfolded 1(1)])
  next
    case 2
    show ?thesis unfolding 2(1)
      by (rule ed.refresh_succeeds[OF 2(2) inv[unfolded 2(1)] assms(4,5) sh pk[unfolded 2(1)], of tm g])
        (rule that[unfolded 2(1)])
  qed
  have "quorum_secret C cl key_id (hd cs)" and "quorum_secret C cl' key_id (hd cs)"
    using lawful_sharing_secret[OF assms(1) inv sh] lawful_sharing_secret[OF assms(1) inv' sh'] hd
    by simp_all
  moreover have "cl' = fst (snd (refresh C tm key_id cl g))" by (simp add: rf)
  ultimately show ?thesis
    using rf keys pk refresh_share_moves[OF assms(1) inv assms(4,5) sh] by blast
qed

lemma demo_drawn:
  assumes "i \<in> {1..3}"
  shows "(\<Sum>d<(3::nat). \<Sum>j<2 - (1::nat). sconst G2 !! (d * (2 - 1) + j) * of_nat i ^ Suc j) \<noteq> 0"
proof -
  have "(\<Sum>d<(3::nat). \<Sum>j<2 - (1::nat). sconst G2 !! (d * (2 - 1) + j) * of_nat i ^ Suc j) = of_nat 3 * (G2 * of_nat i)"
    by simp
  moreover have "of_nat i \<noteq> (0 :: gf5)" using assms by (auto simp: gf5_of_nat gf5_of_def zero_gf5_def)
  moreover have "of_nat 3 \<noteq> (0 :: gf5)" "G2 \<noteq> 0" unfolding gf5_of_nat gf5_of_def zero_gf5_def by simp_all
  ultimately show ?thesis by (simp only: mult_eq_0_iff) simp
qed

theorem refresh_preserves_key_witness:
  "\<exists>cl' g' s. refresh demo_secp demo_timer ''k'' demo_cluster (sconst G2) = (Ok (gf5_bytes G3, 2), cl', g') \<and>
    quorum_secret demo_secp demo_cluster ''k'' s \<and> quorum_secret demo_secp cl' ''k'' s \<and>
    (\<forall>i\<in>{1..3}. nd_shares (cl_nodes cl' ! (i - 1)) ''k'' \<noteq> nd_shares (cl_nodes demo_cluster ! (i - 1)) ''k'')"
proof -
  have sel: "cl_t demo_cluster = 2" "cl_n demo_cluster = 3" "online_count demo_cluster = cl_n demo_cluster"
    by (simp_all add: online_count_def demo_cluster_def demo_cluster_for_def demo_node_def)
  have info: "ki_public_key demo_info = gf5_bytes G3" "ki_epoch demo_info = 1" by (simp_all add: demo_info_def)
  from refresh_preserves_key[OF demo_lawful demo_indices demo_reach sel(3) demo_key, of "sconst G2", unfolded sel info]
  obtain cl' g' s where rf: "refresh demo_secp demo_timer ''k'' demo_cluster (sconst G2) = (Ok (gf5_bytes G3, 1 + 1), cl', g')"
    and qs: "quorum_secret demo_secp demo_cluster ''k'' s" "quorum_secret demo_secp cl' ''k'' s"
    and sh: "\<forall>i\<in>{1..3}. \<exists>old. nd_shares (cl_nodes demo_cluster ! (i - 1)) ''k'' = Some old \<and>
       nd_shares (cl_nodes cl' ! (i - 1)) ''k'' =
         Some (old + (\<Sum>d<(3::nat). \<Sum>j<2 - (1::nat). sconst G2 !! (d * (2 - 1) + j) * of_nat i ^ Suc j))"
    by (elim exE conjE) (rule that; assumption)
  have "nd_shares (cl_nodes cl' ! (i - 1)) ''k'' \<noteq> nd_shares (cl_nodes demo_cluster ! (i - 1)) ''k''"
    if i: "i \<in> {1..3}" for i
  proof -
    obtain old where "nd_shares (cl_nodes demo_cluster ! (i - 1)) ''k'' = Some old"
      and "nd_shares (cl_nodes cl' ! (i - 1)) ''k'' =
        Some (old + (\<Sum>d<(3::nat). \<Sum>j<2 - (1::nat). sconst G2 !! (d * (2 - 1) + j) * of_nat i ^ Suc j))"
      using bspec[OF sh i] by blast
    thus ?thesis using demo_drawn[OF i] by (simp only: option.inject add_cancel_left_right not_False_eq_True)
  qed
  with rf[unfolded one_add_one] qs show ?thesis by blast
qed

text \<open>
  (C12) The refresh renews the shares. Take any \<open>t - 1\<close> nodes and any values: whatever the shares were
  before, and whatever the other dealers draw, exactly one choice of coefficients of any one dealer
  gives these nodes these values as new shares. With one dealer's coefficients uniform, the new
  shares of \<open>t - 1\<close> nodes are independent of all old shares and of the secret, so that shares stolen
  before and after a refresh, fewer than \<open>t\<close> of each, determine nothing together.
\<close>
theorem refresh_renews_shares:
  assumes "lawful_curve K XD (C :: 's :: field curve)" and "indices_distinct TYPE('s) n"
    and "cluster_reach C tm t n cl" and "online_count cl = cl_n cl" and "cl_keys cl key_id = Some info"
    and "dealer < cl_n cl" and "length earlier = dealer * (cl_t cl - 1)"
    and "distinct nodes" and "set nodes \<subseteq> {1..cl_n cl}" and "length nodes = cl_t cl - 1"
    and "length held = cl_t cl - 1"
  shows "\<exists>!coefficients. length coefficients = cl_t cl - 1 \<and>
    map (\<lambda>i. nd_shares (cl_nodes (fst (snd (refresh C tm key_id cl (earlier @- coefficients @- later)))) ! (i - 1)) key_id)
      nodes = map Some held"
proof -
  have inv: "cluster_inv C cl" by (rule lawful_reach_inv[OF assms(1-3)])
  hence wf: "cluster_wf cl" by (simp add: cluster_inv_def)
  obtain cs where sh: "sharing cl key_id cs" by (rule inv_sharing[OF inv assms(5)])
  show ?thesis using assms(1)
  proof (cases rule: lawful_curve_cases)
    case 1
    show ?thesis unfolding 1(1) by (rule secp.refresh_renews[OF 1(2) wf assms(4,5) sh assms(6-11)])
  next
    case 2
    show ?thesis unfolding 2(1) by (rule ed.refresh_renews[OF 2(2) wf assms(4,5) sh assms(6-11)])
  qed
qed

theorem refresh_renews_shares_witness:
  "\<exists>!coefficients. length coefficients = 1 \<and>
    map (\<lambda>i. nd_shares (cl_nodes (fst (snd (refresh demo_secp demo_timer ''k'' demo_cluster
      ([G2] @- coefficients @- sconst G4)))) ! (i - 1)) ''k'') [3] = map Some [G0]"
proof -
  have sel: "cl_t demo_cluster = 2" "cl_n demo_cluster = 3" "online_count demo_cluster = cl_n demo_cluster"
    by (simp_all add: online_count_def demo_cluster_def demo_cluster_for_def demo_node_def)
  show ?thesis
    using refresh_renews_shares[OF demo_lawful demo_indices demo_reach sel(3) demo_key,
        of 1 "[G2]" "[3]" "[G0]" "sconst G4"] by (simp add: sel)
qed

end
