(* ===== verification/Enclave.thy ===== *)
theory Enclave
  imports Domain
begin

text \<open>
  \<open>src/enclave/store.rs\<close> and \<open>src/enclave/attestation.rs\<close>: the wrapped key-share store with its
  software implementation, and the verification of a joining node's attestation document. HMAC,
  base64, Ed25519 and JSON are parameters.
\<close>

section \<open>The wrapped-share store\<close>

datatype StoreError = ShareNotFound string | IntegrityFailure | RestoreDenied

record WrappedShare =
  ws_key_id :: string
  ws_node_id :: string
  ws_ciphertext :: bytes
  ws_tag :: bytes

record MockHsmStore =
  hs_wrapping_key :: bytes
  hs_shares :: "string \<rightharpoonup> WrappedShare"

definition hsm_new :: MockHsmStore where
  "hsm_new = \<lparr>hs_wrapping_key = as_bytes ''mpc-mock-hsm-wrapping-key-32byte'', hs_shares = Map.empty\<rparr>"

definition slot :: "string \<Rightarrow> string \<Rightarrow> string" where
  "slot key_id node_id = key_id @ '':'' @ node_id"

text \<open>\<open>u64::to_be_bytes\<close>.\<close>

definition to_be_bytes :: "u64 \<Rightarrow> bytes" where
  "to_be_bytes c = map (\<lambda>i. ucast (drop_bit (8 * (7 - i)) c)) [0..<8]"

text \<open>
  The keystream loop. HMAC-SHA256 returns a 32-byte array, so every round adds 32 bytes and \<open>len\<close>
  rounds are more than enough; the loop carries that bound as fuel.
\<close>

fun keystream_loop :: "crates \<Rightarrow> bytes \<Rightarrow> string \<Rightarrow> nat \<Rightarrow> nat \<Rightarrow> bytes \<Rightarrow> u64 \<Rightarrow> bytes option" where
  "keystream_loop X key sl len fuel out counter =
     (if length out < len then
        (case fuel of
           0 \<Rightarrow> None
         | Suc f \<Rightarrow> keystream_loop X key sl len f
                     (out @ hmac_sha256 X key (as_bytes sl @ to_be_bytes counter)) (counter + 1))
      else Some (take len out))"

declare keystream_loop.simps [simp del]

definition keystream :: "crates \<Rightarrow> MockHsmStore \<Rightarrow> string \<Rightarrow> nat \<Rightarrow> bytes" where
  "keystream X st sl len =
     (case keystream_loop X (hs_wrapping_key st) sl len len [] 0 of Some ks \<Rightarrow> ks | None \<Rightarrow> [])"

definition share_tag :: "crates \<Rightarrow> MockHsmStore \<Rightarrow> string \<Rightarrow> bytes \<Rightarrow> bytes" where
  "share_tag X st sl ciphertext =
     hmac_sha256 X (hs_wrapping_key st) (as_bytes ''tag'' @ as_bytes sl @ ciphertext)"

definition xor_bytes :: "bytes \<Rightarrow> bytes \<Rightarrow> bytes" where
  "xor_bytes a b = map2 xor a b"

definition wrap_share ::
  "crates \<Rightarrow> string \<Rightarrow> string \<Rightarrow> bytes \<Rightarrow> MockHsmStore \<Rightarrow> WrappedShare \<times> MockHsmStore" where
  "wrap_share X key_id node_id cleartext st =
     (let sl = slot key_id node_id;
          ks = keystream X st sl (length cleartext);
          ciphertext = xor_bytes cleartext ks;
          wrapped = \<lparr>ws_key_id = key_id, ws_node_id = node_id, ws_ciphertext = ciphertext,
                     ws_tag = share_tag X st sl ciphertext\<rparr>
      in (wrapped, st\<lparr>hs_shares := (hs_shares st)(sl \<mapsto> wrapped)\<rparr>))"

definition unwrap_share_in_enclave ::
  "crates \<Rightarrow> string \<Rightarrow> string \<Rightarrow> MockHsmStore \<Rightarrow> (bytes, StoreError) result" where
  "unwrap_share_in_enclave X key_id node_id st =
     (let sl = slot key_id node_id in
      and_then (ok_or (hs_shares st sl) (ShareNotFound sl)) (\<lambda>wrapped.
        if share_tag X st sl (ws_ciphertext wrapped) \<noteq> ws_tag wrapped then Err IntegrityFailure
        else Ok (xor_bytes (ws_ciphertext wrapped)
                   (keystream X st sl (length (ws_ciphertext wrapped))))))"

definition backup :: "string \<Rightarrow> string \<Rightarrow> MockHsmStore \<Rightarrow> (WrappedShare, StoreError) result" where
  "backup key_id node_id st =
     (let sl = slot key_id node_id in ok_or (hs_shares st sl) (ShareNotFound sl))"

definition restore ::
  "crates \<Rightarrow> WrappedShare \<Rightarrow> bytes \<Rightarrow> MockHsmStore \<Rightarrow> (unit, StoreError) result \<times> MockHsmStore" where
  "restore X wrapped quorum_proof st =
     (if quorum_proof = [] then (Err RestoreDenied, st)
      else let sl = slot (ws_key_id wrapped) (ws_node_id wrapped) in
        if share_tag X st sl (ws_ciphertext wrapped) \<noteq> ws_tag wrapped then (Err IntegrityFailure, st)
        else (Ok (), st\<lparr>hs_shares := (hs_shares st)(sl \<mapsto> wrapped)\<rparr>))"

section \<open>Attestation\<close>

datatype AttestationError =
    AttMalformed | AttBadSignature | MeasurementMismatch | UntrustedHsm | Stale | PublicKeyMismatch

record AttestationDoc =
  ad_node_public_key :: string
  ad_measurement :: string
  ad_hsm_id :: string
  ad_issued_at :: u64
  ad_expires_at :: u64

record AttestationVerifier =
  av_authority :: bytes
  av_expected_measurement :: string
  av_trusted_hsms :: "string list"
  av_max_age_secs :: u64

datatype AuthorityError = AuthorityNotHex | AuthorityNot32Bytes | AuthorityInvalid

definition attestation_verifier_new ::
  "crates \<Rightarrow> string \<Rightarrow> string \<Rightarrow> string list \<Rightarrow> u64 \<Rightarrow> (AttestationVerifier, AuthorityError) result" where
  "attestation_verifier_new X authority_hex measurement hsms max_age =
     and_then (ok_or (hex_decode X authority_hex) AuthorityNotHex) (\<lambda>b.
       if length b \<noteq> 32 then Err AuthorityNot32Bytes
       else if \<not> vk_valid X b then Err AuthorityInvalid
       else Ok \<lparr>av_authority = b, av_expected_measurement = measurement, av_trusted_hsms = hsms,
                av_max_age_secs = max_age\<rparr>)"

definition open_attestation ::
  "crates \<Rightarrow> AttestationDoc serde \<Rightarrow> bytes \<Rightarrow> string \<Rightarrow> (AttestationDoc, AttestationError) result" where
  "open_attestation X S authority token =
     and_then (ok_or (split_once (CHR ''.'') token) AttMalformed) (\<lambda>(doc_b64, sig_b64).
     and_then (ok_or (b64_decode X doc_b64) AttMalformed) (\<lambda>doc_bytes.
     and_then (ok_or (b64_decode X sig_b64) AttMalformed) (\<lambda>sig_bytes.
       if length sig_bytes \<noteq> 64 then Err AttMalformed
       else if \<not> ed_verify X authority doc_bytes sig_bytes then Err AttBadSignature
       else ok_or (from_slice S doc_bytes) AttMalformed)))"

definition attestation_verify ::
  "crates \<Rightarrow> AttestationDoc serde \<Rightarrow> AttestationVerifier \<Rightarrow> string \<Rightarrow> string \<Rightarrow> world \<Rightarrow>
   (AttestationDoc, AttestationError) result \<times> world" where
  "attestation_verify X S v token node_public_key_hex w =
     (case open_attestation X S (av_authority v) token of
        Err e \<Rightarrow> (Err e, w)
      | Panic \<Rightarrow> (Panic, w)
      | Ok doc \<Rightarrow>
          if ad_measurement doc \<noteq> av_expected_measurement v then (Err MeasurementMismatch, w)
          else if \<not> list_ex (\<lambda>h. h = ad_hsm_id doc) (av_trusted_hsms v) then (Err UntrustedHsm, w)
          else (case unix_now w of (now, w') \<Rightarrow>
            if ad_expires_at doc < now \<or> ad_issued_at doc + av_max_age_secs v < now
            then (Err Stale, w')
            else if ad_node_public_key doc \<noteq> node_public_key_hex then (Err PublicKeyMismatch, w')
            else (Ok doc, w')))"

definition attestation_mint :: "crates \<Rightarrow> AttestationDoc serde \<Rightarrow> bytes \<Rightarrow> AttestationDoc \<Rightarrow> string" where
  "attestation_mint X S seed doc =
     (let b = to_vec S doc in b64_encode X b @ ''.'' @ b64_encode X (ed_sign X seed b))"

definition valid_doc :: "string \<Rightarrow> string \<Rightarrow> string \<Rightarrow> world \<Rightarrow> AttestationDoc \<times> world" where
  "valid_doc node_pubkey_hex measurement hsm_id w =
     (case unix_now w of (now, w') \<Rightarrow>
        (\<lparr>ad_node_public_key = node_pubkey_hex, ad_measurement = measurement, ad_hsm_id = hsm_id,
          ad_issued_at = now, ad_expires_at = now + 300\<rparr>, w'))"

section \<open>Lemmas: the keystream\<close>

lemma keystream_loop_length:
  assumes "hmac_laws X"
  shows "len - length out \<le> fuel \<Longrightarrow>
    \<exists>ks. keystream_loop X key sl len fuel out c = Some ks \<and> length ks = len"
proof (induction fuel arbitrary: out c)
  case (Suc f)
  let ?out = "out @ hmac_sha256 X key (as_bytes sl @ to_be_bytes c)"
  have "len - length ?out \<le> f" using Suc.prems assms by (simp add: crate_laws)
  from Suc.IH[OF this, of "c + 1"] show ?case by (subst keystream_loop.simps) simp
qed (subst keystream_loop.simps; simp)

text \<open>More fuel does not change the keystream.\<close>

lemma keystream_loop_mono:
  "keystream_loop X key sl len fuel out c = Some ks \<Longrightarrow> fuel \<le> fuel' \<Longrightarrow>
   keystream_loop X key sl len fuel' out c = Some ks"
proof (induction fuel arbitrary: out c fuel')
  case (Suc f)
  show ?case
  proof (cases "length out < len")
    case True
    obtain f' where f': "fuel' = Suc f'" "f \<le> f'" using Suc.prems(2) by (cases fuel') auto
    have "keystream_loop X key sl len f (out @ hmac_sha256 X key (as_bytes sl @ to_be_bytes c)) (c + 1) = Some ks"
      using Suc.prems(1) True by (subst (asm) keystream_loop.simps) simp
    from Suc.IH[OF this f'(2)] show ?thesis using True by (subst keystream_loop.simps) (simp add: f')
  next
    case False
    thus ?thesis using Suc.prems(1) by (subst (asm) keystream_loop.simps, subst keystream_loop.simps) simp
  qed
next
  case 0
  thus ?case by (subst (asm) keystream_loop.simps, subst keystream_loop.simps) (simp split: if_splits)
qed

lemma length_keystream: "hmac_laws X \<Longrightarrow> length (keystream X st sl len) = len"
  using keystream_loop_length[of X len "[]" len "hs_wrapping_key st" sl 0]
  by (auto simp: keystream_def)

lemma xor_twice: "length ks = length m \<Longrightarrow> xor_bytes (xor_bytes m ks) ks = m"
  by (induction ks m rule: list_induct2) (simp_all add: xor_bytes_def xor.assoc)

lemma length_xor_bytes: "length (xor_bytes a b) = min (length a) (length b)"
  by (simp add: xor_bytes_def)

lemma keystream_shares [simp]:
  "keystream X (st\<lparr>hs_shares := m\<rparr>) = keystream X st" "share_tag X (st\<lparr>hs_shares := m\<rparr>) = share_tag X st"
  by (intro ext, simp add: keystream_def share_tag_def)+

text \<open>A share as \<open>wrap_share\<close> produces it, whatever happens to the store afterwards.\<close>

lemma unwrap_stored:
  assumes "hmac_laws X" and "fst (wrap_share X k n m st) = w"
    and "hs_shares st' (slot k' n') = Some w" and "slot k' n' = slot k n"
    and "hs_wrapping_key st' = hs_wrapping_key st"
  shows "unwrap_share_in_enclave X k' n' st' = Ok m"
proof -
  have ks: "keystream X st' = keystream X st" and tag: "share_tag X st' = share_tag X st"
    using assms(5) by (auto simp: keystream_def share_tag_def fun_eq_iff)
  show ?thesis using assms length_keystream[OF assms(1)]
    by (auto simp: unwrap_share_in_enclave_def wrap_share_def Let_def ks tag length_xor_bytes xor_twice)
qed


lemma wrap_stores:
  assumes "wrap_share X k n m st = (w, st')"
  shows "fst (wrap_share X k n m st) = w" and "hs_shares st' = (hs_shares st)(slot k n \<mapsto> w)"
    and "hs_wrapping_key st' = hs_wrapping_key st" and "ws_key_id w = k" and "ws_node_id w = n"
    and "ws_tag w = share_tag X st (slot k n) (ws_ciphertext w)"
  using assms by (auto simp: wrap_share_def Let_def)

lemma restore_Ok:
  assumes "restore X w proof_bytes st = (Ok (), st')"
  shows "hs_shares st' = (hs_shares st)(slot (ws_key_id w) (ws_node_id w) \<mapsto> w)"
    and "hs_wrapping_key st' = hs_wrapping_key st"
  using assms by (auto simp: restore_def Let_def split: if_splits)

section \<open>Lemmas: attestation\<close>

lemma attestation_verify_Ok_iff:
  "fst (attestation_verify X S v token pk w) = Ok doc \<longleftrightarrow>
     open_attestation X S (av_authority v) token = Ok doc \<and>
     ad_measurement doc = av_expected_measurement v \<and> ad_hsm_id doc \<in> set (av_trusted_hsms v) \<and>
     fst (unix_now w) \<le> ad_expires_at doc \<and>
     fst (unix_now w) \<le> ad_issued_at doc + av_max_age_secs v \<and> ad_node_public_key doc = pk"
  by (auto simp: attestation_verify_def list_ex_iff not_less case_prod_unfold split: result.splits)

lemma open_attestation_mint:
  assumes "b64_laws X" and "ed25519_laws X" and "length seed = 32" and "from_slice S (to_vec S d) = Some d"
  shows "open_attestation X S (ed_public X seed) (attestation_mint X S seed d) = Ok d"
  using assms by (simp add: open_attestation_def attestation_mint_def Let_def crate_laws)

lemma open_attestation_Ok_iff:
  "open_attestation X S authority token = Ok doc \<longleftrightarrow>
     (\<exists>a b db sb. token = a @ CHR ''.'' # b \<and> CHR ''.'' \<notin> set a \<and> b64_decode X a = Some db \<and>
        b64_decode X b = Some sb \<and> length sb = 64 \<and> ed_verify X authority db sb \<and> from_slice S db = Some doc)"
  by (auto simp: open_attestation_def result_simps split_once_iff)

section \<open>Properties\<close>

text \<open>
  (C38) Wrapping then unwrapping a share returns it, whatever its length, and the shares of every
  other slot are as before.
\<close>
theorem wrap_unwrap_roundtrip:
  assumes "hmac_laws X" and "wrap_share X key_id node_id cleartext st = (w, st')"
  shows "unwrap_share_in_enclave X key_id node_id st' = Ok cleartext \<and>
    (\<forall>k n. slot k n \<noteq> slot key_id node_id \<longrightarrow>
       unwrap_share_in_enclave X k n st' = unwrap_share_in_enclave X k n st)"
proof (intro conjI allI impI)
  note st = wrap_stores[OF assms(2)]
  show "unwrap_share_in_enclave X key_id node_id st' = Ok cleartext"
    by (rule unwrap_stored[OF assms(1) st(1) _ refl st(3)]) (simp add: st(2))
  fix k n assume "slot k n \<noteq> slot key_id node_id"
  moreover have "keystream X st' = keystream X st" "share_tag X st' = share_tag X st"
    using st(3) by (auto simp: keystream_def share_tag_def fun_eq_iff)
  ultimately show "unwrap_share_in_enclave X k n st' = unwrap_share_in_enclave X k n st"
    by (simp add: unwrap_share_in_enclave_def st(2) Let_def cong: if_cong)
qed

theorem wrap_unwrap_roundtrip_witness:
  "unwrap_share_in_enclave demo_crates ''k'' ''n'' (snd (wrap_share demo_crates ''k'' ''n'' [1, 2, 3] hsm_new)) =
     Ok [1, 2, 3]"
  using wrap_unwrap_roundtrip[OF demo_hmac surjective_pairing] by blast

text \<open>
  Backup and restore: the backup of a wrapped share, restored with a non-empty quorum proof
  into any store with the same wrapping key (also one that lost all its shares), unwraps to the
  original share. Without a proof, or when the tag does not fit the ciphertext, the restore is
  refused and the store unchanged. Beyond being non-empty the proof is not examined.
\<close>
theorem backup_restore_roundtrip:
  assumes "hmac_laws X" and "wrap_share X key_id node_id cleartext st = (w, st')"
    and "hs_wrapping_key st2 = hs_wrapping_key st"
  shows "backup key_id node_id st' = Ok w \<and>
    restore X w [] st2 = (Err RestoreDenied, st2) \<and>
    (\<forall>pf. pf \<noteq> [] \<longrightarrow> (\<exists>st3. restore X w pf st2 = (Ok (), st3) \<and>
       unwrap_share_in_enclave X key_id node_id st3 = Ok cleartext)) \<and>
    (\<forall>pf c. pf \<noteq> [] \<and> share_tag X st (slot key_id node_id) c \<noteq> ws_tag w \<longrightarrow>
       restore X (w\<lparr>ws_ciphertext := c\<rparr>) pf st2 = (Err IntegrityFailure, st2))"
proof (intro conjI allI impI)
  note st = wrap_stores[OF assms(2)]
  have tag: "share_tag X st2 = share_tag X st"
    using assms(3) by (simp add: share_tag_def fun_eq_iff)
  show "backup key_id node_id st' = Ok w" by (simp add: backup_def st(2) Let_def)
  show "restore X w [] st2 = (Err RestoreDenied, st2)" by (simp add: restore_def)
  fix pf :: bytes assume pf: "pf \<noteq> []"
  let ?st3 = "st2\<lparr>hs_shares := (hs_shares st2)(slot key_id node_id \<mapsto> w)\<rparr>"
  have "restore X w pf st2 = (Ok (), ?st3)"
    using pf st(4-6) tag by (simp add: restore_def Let_def)
  moreover have "unwrap_share_in_enclave X key_id node_id ?st3 = Ok cleartext"
    by (rule unwrap_stored[OF assms(1) st(1) _ refl]) (simp_all add: assms(3))
  ultimately show "\<exists>st3. restore X w pf st2 = (Ok (), st3) \<and>
       unwrap_share_in_enclave X key_id node_id st3 = Ok cleartext" by blast
next
  fix pf c :: bytes assume "pf \<noteq> [] \<and> share_tag X st (slot key_id node_id) c \<noteq> ws_tag w"
  moreover have "share_tag X st2 = share_tag X st"
    using assms(3) by (simp add: share_tag_def fun_eq_iff)
  ultimately show "restore X (w\<lparr>ws_ciphertext := c\<rparr>) pf st2 = (Err IntegrityFailure, st2)"
    using wrap_stores(4,5)[OF assms(2)] by (simp add: restore_def Let_def)
qed

theorem backup_restore_roundtrip_witness:
  "let (w, st') = wrap_share demo_crates ''k'' ''n'' [9] hsm_new
   in backup ''k'' ''n'' st' = Ok w \<and> restore demo_crates w [] hsm_new = (Err RestoreDenied, hsm_new)"
  using backup_restore_roundtrip[OF demo_hmac surjective_pairing refl] by (simp add: case_prod_unfold)

text \<open>
  Slots collide: the slot of key \<open>a:b\<close> on node \<open>c\<close> is the slot of key \<open>a\<close> on node \<open>b:c\<close>, so
  wrapping a share for the one replaces the share of the other, and unwrapping then returns the
  wrong share without an integrity failure.
\<close>
theorem slot_collision_overwrites:
  assumes "hmac_laws X"
    and "wrap_share X (a @ '':'' @ b) c share1 st = (w1, st1)"
    and "wrap_share X a (b @ '':'' @ c) share2 st1 = (w2, st2)"
  shows "unwrap_share_in_enclave X (a @ '':'' @ b) c st2 = Ok share2"
proof -
  have sl: "slot (a @ '':'' @ b) c = slot a (b @ '':'' @ c)" by (simp add: slot_def)
  note st = wrap_stores[OF assms(3)]
  show ?thesis by (rule unwrap_stored[OF assms(1) st(1) _ sl st(3)]) (simp only: st(2) sl fun_upd_same)
qed

theorem slot_collision_overwrites_witness:
  "unwrap_share_in_enclave demo_crates ''k:x'' ''n''
     (snd (wrap_share demo_crates ''k'' ''x:n'' [2] (snd (wrap_share demo_crates ''k:x'' ''n'' [1] hsm_new)))) =
   Ok [2]"
  using slot_collision_overwrites[of demo_crates "''k''" "''x''" "''n''" "[1]" hsm_new _ _ "[2]",
      OF demo_hmac surjective_pairing surjective_pairing] by simp

text \<open>
  (C39) A joining node is accepted with a document exactly when its token is two base64 texts around
  its first dot, the second decodes to 64 bytes that are the authority's Ed25519 signature of what
  the first decodes to, those bytes parse as the document, the measurement
  is the expected one, the HSM is trusted, the document has not expired and is not older than the
  maximum age (as a 64-bit sum), and it vouches for the node's own public key. For a verifier built
  from an authority key in hex, the authority is that key.
\<close>
theorem attestation_accepts_iff:
  assumes "attestation_verifier_new X authority_hex measurement hsms max_age = Ok v"
  shows "fst (attestation_verify X S v token pk w) = Ok doc \<longleftrightarrow>
    (\<exists>authority doc_b64 sig_b64 doc_bytes sig_bytes.
       hex_decode X authority_hex = Some authority \<and> length authority = 32 \<and>
       token = doc_b64 @ CHR ''.'' # sig_b64 \<and> CHR ''.'' \<notin> set doc_b64 \<and>
       b64_decode X doc_b64 = Some doc_bytes \<and> b64_decode X sig_b64 = Some sig_bytes \<and>
       length sig_bytes = 64 \<and> ed_verify X authority doc_bytes sig_bytes \<and>
       from_slice S doc_bytes = Some doc) \<and>
    ad_measurement doc = measurement \<and> ad_hsm_id doc \<in> set hsms \<and>
    fst (unix_now w) \<le> ad_expires_at doc \<and> fst (unix_now w) \<le> ad_issued_at doc + max_age \<and>
    ad_node_public_key doc = pk"
proof -
  obtain authority where "hex_decode X authority_hex = Some authority" "length authority = 32"
      "v = \<lparr>av_authority = authority, av_expected_measurement = measurement, av_trusted_hsms = hsms,
            av_max_age_secs = max_age\<rparr>"
    using assms by (auto simp: attestation_verifier_new_def result_simps split: if_splits)
  thus ?thesis unfolding attestation_verify_Ok_iff open_attestation_Ok_iff by auto
qed

text \<open>
  Freshness is one-sided: a document the authority dated into the future is accepted, for any
  issue time after now as long as adding the maximum age does not wrap, so for such a document
  the maximum age does not limit its life, only its expiry does.
\<close>
theorem future_dated_attestation_accepted:
  assumes "b64_laws X" and "ed25519_laws X" and "length seed = 32"
    and "from_slice S (to_vec S doc) = Some doc"
    and "av_authority v = ed_public X seed" and "ad_measurement doc = av_expected_measurement v"
    and "ad_hsm_id doc \<in> set (av_trusted_hsms v)" and "ad_node_public_key doc = pk"
    and "fst (unix_now w) < ad_issued_at doc" and "fst (unix_now w) \<le> ad_expires_at doc"
    and "unat (ad_issued_at doc) + unat (av_max_age_secs v) < 2 ^ 64"
  shows "fst (attestation_verify X S v (attestation_mint X S seed doc) pk w) = Ok doc"
proof -
  have "unat (ad_issued_at doc + av_max_age_secs v) = unat (ad_issued_at doc) + unat (av_max_age_secs v)"
    using assms(11) by (simp add: unat_word_ariths)
  hence "fst (unix_now w) \<le> ad_issued_at doc + av_max_age_secs v"
    using assms(9) by (simp add: word_le_nat_alt word_less_nat_alt)
  thus ?thesis
    unfolding attestation_verify_Ok_iff assms(5) open_attestation_mint[OF assms(1-4)]
    using assms by simp
qed

definition demo_doc :: AttestationDoc where
  "demo_doc = \<lparr>ad_node_public_key = ''aa'', ad_measurement = ''m'', ad_hsm_id = ''h'',
     ad_issued_at = 5000, ad_expires_at = 9000\<rparr>"

definition demo_doc_serde :: "AttestationDoc serde" where
  "demo_doc_serde = \<lparr>to_vec = (\<lambda>_. [1]), from_slice = (\<lambda>_. Some demo_doc), de_error = (\<lambda>_. [])\<rparr>"

definition demo_attestation_verifier :: AttestationVerifier where
  "demo_attestation_verifier = \<lparr>av_authority = ed_public demo_crates (replicate 32 3),
     av_expected_measurement = ''m'', av_trusted_hsms = [''h''], av_max_age_secs = 60\<rparr>"

theorem future_dated_attestation_accepted_witness:
  "fst (attestation_verify demo_crates demo_doc_serde demo_attestation_verifier
     (attestation_mint demo_crates demo_doc_serde (replicate 32 3) demo_doc) ''aa''
     \<lparr>clock = sconst (Some 100), uuids = sconst []\<rparr>) = Ok demo_doc"
  using future_dated_attestation_accepted[OF demo_b64 demo_ed25519, of "replicate 32 3"
      demo_doc_serde demo_doc demo_attestation_verifier "''aa''" "\<lparr>clock = sconst (Some 100), uuids = sconst []\<rparr>"]
  by (simp add: demo_doc_serde_def demo_attestation_verifier_def demo_doc_def)

theorem attestation_accepts_iff_witness:
  "\<exists>v. attestation_verifier_new demo_crates (demo_encode (replicate 32 3)) ''m'' [''h''] 60 = Ok v \<and>
     fst (attestation_verify demo_crates demo_doc_serde v
       (attestation_mint demo_crates demo_doc_serde (replicate 32 3) demo_doc) ''aa''
       \<lparr>clock = sconst (Some 100), uuids = sconst []\<rparr>) = Ok demo_doc"
proof -
  let ?b = "demo_encode [1]" and ?s = "demo_encode (pad_to 64 [1])"
  have v: "attestation_verifier_new demo_crates (demo_encode (replicate 32 3)) ''m'' [''h''] 60 = Ok demo_attestation_verifier"
    by (simp add: attestation_verifier_new_def demo_attestation_verifier_def demo_crates_def demo_roundtrip)
  have "attestation_mint demo_crates demo_doc_serde (replicate 32 3) demo_doc = ?b @ CHR ''.'' # ?s"
    by (simp add: attestation_mint_def demo_doc_serde_def demo_crates_def Let_def)
  moreover have "hex_decode demo_crates (demo_encode (replicate 32 3)) = Some (replicate 32 3)"
    "b64_decode demo_crates ?b = Some [1]" "b64_decode demo_crates ?s = Some (pad_to 64 [1])"
    "ed_verify demo_crates (replicate 32 3) [1] (pad_to 64 [1])" "from_slice demo_doc_serde [1] = Some demo_doc"
    by (simp_all add: demo_crates_def demo_roundtrip demo_doc_serde_def)
  moreover have "CHR ''.'' \<notin> set ?b" "length (pad_to 64 [1 :: u8]) = 64"
    by (simp_all add: demo_encode_no_dot pad_to_def)
  moreover have "ad_measurement demo_doc = ''m''" "ad_hsm_id demo_doc = ''h''" "ad_node_public_key demo_doc = ''aa''"
    "ad_expires_at demo_doc = 9000" "ad_issued_at demo_doc = 5000" by (simp_all add: demo_doc_def)
  moreover have "fst (unix_now \<lparr>clock = sconst (Some 100), uuids = sconst []\<rparr>) = 100" by (simp add: unix_now_eq)
  ultimately show ?thesis
    using attestation_accepts_iff[OF v, of demo_doc_serde] v
    by (intro exI[of _ demo_attestation_verifier] conjI)
      (simp_all, intro exI[of _ "replicate 32 3"] exI[of _ ?b] exI[of _ ?s] exI[of _ "[1]"] exI[of _ "pad_to 64 [1]"], simp)
qed

end
