(* ===== verification/Spec2Isabelle.thy ===== *)
theory Spec2Isabelle
  imports Lifecycle Interleaved_Service Key_Ring Engine_Tasks Proactive_Refresh Enclave
begin

text \<open>
  A verification development of mpc-signing-service: a gRPC service that signs transaction
  payloads with threshold or custodied keys, after checking a signed policy decision and the
  binding of the key to a wallet, and that leaves a signed audit record of each attempt.

  \<^bold>\<open>The program and its parts.\<close> \<open>src/main.rs\<close> reads the configuration
  (\<open>src/config.rs\<close>), builds the policy verifier (\<open>src/policy.rs\<close>), the wallet client
  (\<open>src/wallet.rs\<close>), one signing engine (\<open>src/engine/\<close>), the audit signer and emitter
  (\<open>src/audit.rs\<close>) and the stores (\<open>src/store.rs\<close>), and serves \<open>MpcService\<close>
  (\<open>src/grpc/service.rs\<close>). \<open>SignTx\<close> validates, opens a session, verifies the policy token, checks
  the wallet, calls the engine and queues an audit record. The in-house engine
  (\<open>src/engine/threshold/\<close>) keeps Shamir shares on the nodes of a cluster per curve; three adapters
  speak to Fireblocks, Dfns and Turnkey over HTTP and verify what they return;
  \<open>src/engine/local.rs\<close> is a single-party engine; \<open>src/enclave/\<close> wraps shares and verifies
  attestations.

  \<^bold>\<open>Theories.\<close>
  \<^item> \<open>Prelude\<close>: Rust results with panics as values, \<open>?\<close> as \<open>and_then\<close>, bytes and text, the clock and
    UUIDs as streams, the crates hex, base64, sha2, hmac and ed25519-dalek as a record of functions
    with their documented laws, and a concrete instance for witnesses. \<open>Json\<close>: \<open>serde_json::Value\<close>.
  \<^item> \<open>Domain\<close>, \<open>Stores\<close>, \<open>Policy\<close>, \<open>Wallet\<close>: the modules of the same name. \<open>Stores\<close> states the
    contracts of the two stores as the locales \<open>session_store\<close> and \<open>used_token_store\<close> and
    interprets them on the in-memory stores.
  \<^item> \<open>Engine\<close>: the engine trait as a record of methods, the error taxonomy, and the locale
    \<open>verified_engine\<close>: a returned signature is accepted by the chain's verifier. It is interpreted
    for the refusing, threshold, local, custody, Fireblocks, Dfns and Turnkey engines and for the
    engine \<open>build_engine\<close> selects.
  \<^item> \<open>Audit_Log\<close>: records, signer, Kafka envelope, the delivery task step by step (\<open>delivery_step\<close>), and
    the emitter as a step relation of producers and that task, with a sink or without.
  \<^item> \<open>Interpolation\<close>, \<open>Curve\<close>, \<open>Shamir\<close>, \<open>Cluster\<close>, \<open>Threshold\<close>: polynomials over a field, the two
    curves over the scalar and point operations of their crates (locale \<open>curve_family\<close>), sharing
    and reconstruction, the cluster with its reachable states, and the engine. \<open>Prime_Field\<close> has a
    five-element field on which their witnesses evaluate.
  \<^item> \<open>Cluster_Tasks\<close>, \<open>Cluster_Races\<close>, \<open>Cluster_Locking\<close>: the calls of the cluster cut at every lock and
    \<open>await\<close>, acknowledgement rounds included, any number of them interleaved; the two runs in which overlapping calls on one key go
    wrong; and the invariant that holds when calls on a key take a readers-writer lock.
    \<open>Engine_Tasks\<close>: the calls of the threshold engine, each cut at the steps of the cluster operation
    it awaits, over both clusters; a run of the engine is a run of each cluster (locale
    \<open>engine_side\<close>, interpreted for the ECDSA and the EdDSA cluster).
    \<open>Proactive_Refresh\<close>: the shares after a refresh as a function of what its dealers draw.
  \<^item> \<open>Key_Ring\<close>: an abstract key ring, its steps and runs, the runs of an engine whose calls come one
    after the other, and the locale \<open>key_ring_engine\<close> that
    extends \<open>verified_engine\<close> by what an engine promises of its keys over time; interpreted for the
    threshold and the local engine.
  \<^item> \<open>Http\<close>: requests, the client as a parameter, the log of exchanges (each request with its
    answer), time, and the sequencing of fallible calls with judgements on what they send and return; the locale \<open>polling\<close> bounds deadline loops. \<open>Custody\<close>,
    \<open>Fireblocks_Engine\<close>, \<open>Dfns_Engine\<close>, \<open>Turnkey_Engine\<close>: the adapters. \<open>Local_Engine\<close>, \<open>Enclave\<close>: the
    modules of that name.
  \<^item> \<open>Service\<close>: the five gRPC handlers over explicit state. \<open>Interleaved_Service\<close>: the steps of
    \<open>SignTx\<close> for any number of requests at once, as a step relation; uninterrupted, the steps
    compute \<open>sign_tx\<close>. \<open>Service_Types\<close>: the shape of sessions and records that every handler keeps.
    \<open>Config\<close>, \<open>Build\<close>, \<open>Startup\<close>: settings, engine selection with dynamic dispatch, and \<open>main\<close> up to
    serving, with TLS material and the webhook handler. \<open>Lifecycle\<close>: the process from start to exit,
    with calls, delivery task and signals in any order.

  \<^bold>\<open>What is shown.\<close> A request is signed exactly when it is approved and the engine signs; without
  approval nothing reaches the engine; each validated request that is answered ends in a terminal
  session and hands one verifying, tamper-evident audit record to the queue, which takes it unless it
  holds 1024. However handlers interleave, a policy token signs at most once and each session ends in
  the state of its own answer. Any quorum of shares reconstructs the secret and fewer determine
  nothing. For operations that run one after the other: in every state of a cluster all quorums
  agree, a refresh keeps the key and gives each node its old share plus what the dealers drew, so that
  the new shares are independent of the old ones, and signatures verify; the engine refines the key
  ring, so a key signs under the public key of its DKG for life; and every signature a started process
  returns, with any backend, verifies. For operations that overlap, step by step: each cluster call
  ends within a fixed number of its own steps (\<open>2n + 2\<close> for \<open>sign\<close>, \<open>3n + 5\<close> for \<open>keygen\<close>, \<open>4n + 6\<close> for
  \<open>refresh\<close>); an engine call alone computes the whole operation; under a lock per key every answer of
  the engine is right, and without one, as the code is, a key rotation makes \<open>sign\<close> answer with a
  signature of a wrong secret and two refreshes can destroy a key. The data of a process stays well
  typed; it ends for the reasons its code names, and a normal exit can lose queued audit records. Every
  request of the three adapters is authenticated for itself (a Dfns state change by the token the
  provider gave for the answered challenge of its own announcement), their polling ends within a
  fixed number of requests, and the four HTTP clients classify errors alike. The emitter takes every
  record offered to a queue that is not full and handles them in order; the sink is called up to its
  first acceptance, at most four times per record, and a record it refuses four times is dropped; the
  task can always drain its queue. Token, share wrapping, assertion and settings round trips; the exact
  acceptance conditions of tokens and attestations, down to signature and freshness, and of webhooks.

  \<^bold>\<open>Modelling decisions.\<close> Third-party code is a parameter: the record \<open>crates\<close>, the records
  \<open>k256\<close> and \<open>dalek\<close>, codecs of serde (\<open>serde\<close>), the HTTP client and provider (\<open>http_env\<close>), the Kafka
  producer, the wallet's channel. What a theorem needs of them is a named hypothesis
  (\<open>hex_laws\<close>, \<open>b64_laws\<close>, \<open>ed25519_laws\<close>, \<open>hmac_laws\<close>, \<open>k256_laws\<close>, \<open>dalek_laws\<close>, \<open>ed_strict_laws\<close>), with a
  witness on a concrete instance. Machine integers of the source are words and wrap as in a
  release build; sizes are natural numbers. A panic is the outcome \<open>Panic\<close>; poisoned locks are not
  modelled. An audit sink answers with success or an error, it does not panic. A model string is its list of UTF-8 bytes. \<open>sign_tx\<close> of \<open>Service\<close> is a whole
  handler, and the runs \<open>deployed\<close>, \<open>engine_run\<close> and \<open>cluster_reach\<close> have whole operations one after the
  other; \<open>Interleaved_Service\<close> cuts the handler where handlers can meet, each store call being atomic under
  its lock and the engine call one step; what happens inside overlapping calls of the in-house
  engine is the subject of the three cluster theories and of \<open>Engine_Tasks\<close>. The wallet service may
  answer each call differently (\<open>wallet_answers\<close>).

  \<^bold>\<open>Loops.\<close> Only \<open>keystream_loop\<close> of \<open>Enclave\<close> carries fuel, the number of bytes asked for: a
  round adds the 32 bytes of an HMAC, so it is enough (\<open>keystream_loop_length\<close>). The delivery loop ends by its retry counter, the deadline loops of
  Fireblocks and Dfns because a repeated round has slept at least 500 ms (a sleep lasts at least
  as long as asked, sending takes any time), Turnkey's by its 60 rounds, the others
  structurally; the measure \<open>steps_left\<close> bounds the steps of a cluster call, where the time spent
  waiting for a lock is not counted.

  \<^bold>\<open>Not modelled.\<close> Third-party code beyond its documented behaviour: the serving loops and routers of
  tonic and axum, TLS, the Kafka producer, the wallet's channel. Generated protobuf code; log
  output; zeroisation of memory; lock poisoning; tests.
\<close>

section \<open>Properties that span components\<close>

text \<open>
  (C32) The four provider clients classify responses alike. Whatever status a provider answers with,
  the gRPC code a caller finally sees is the same for the neutral client, Fireblocks, Dfns and
  Turnkey: an unknown key is \<open>NotFound\<close>, a rejected credential \<open>PermissionDenied\<close>, a server error
  \<open>Unavailable\<close>, any other non-success \<open>Aborted\<close>, and a success body that does not decode
  \<open>Internal\<close>; a value is returned only from a 2xx response.
\<close>

theorem provider_errors_uniform:
  "map_err grpc_code (custody_decode_response E R resp) =
     (if rs_status resp = 404 then Err Code_NotFound
      else if rs_status resp \<in> {401, 403} then Err Code_PermissionDenied
      else if 500 \<le> rs_status resp \<and> rs_status resp < 600 then Err Code_Unavailable
      else if 200 \<le> rs_status resp \<and> rs_status resp < 300
      then map_err (\<lambda>_. Code_Internal) (response_json R resp)
      else Err Code_Aborted) \<and>
   map_err grpc_code (fb_decode_response E R resp) = map_err grpc_code (custody_decode_response E R resp) \<and>
   map_err grpc_code (dfns_decode_response E R resp) = map_err grpc_code (custody_decode_response E R resp) \<and>
   map_err grpc_code (tk_decode_response E R resp) = map_err grpc_code (custody_decode_response E R resp)"
  by (cases "response_json R resp")
     (auto simp: custody_decode_response_def fb_decode_response_def dfns_decode_response_def
        tk_decode_response_def Let_def)

end
